(* ===== verification/JX_Prelude.thy ===== *)
theory JX_Prelude
  imports Main "HOL-Library.Sublist" "HOL-Library.Word"
begin

text \<open>
  Shared vocabulary of the JARVINx development: the type names of the model, Go's time and
  machine-integer arithmetic, the state-passing conventions, and the generic lemmas on lists
  that the components share. The collection \<open>jx_simps\<close> gathers the definitions of small
  operations that the component proofs unfold together.
\<close>

named_theorems jx_simps \<open>unfolding rules for the operations of the model\<close>

section \<open>Time and durations\<close>

text \<open>
  A \<open>time.Time\<close> is the number of nanoseconds since Go's zero time (year 1), so the zero value is
  0. A \<open>time.Duration\<close> is a signed 64-bit count of nanoseconds, kept as the integer it stands for;
  products that the source computes on durations wrap with \<open>wrap64\<close>.
\<close>

type_synonym time = int
type_synonym duration = int

definition wrap64 :: "int \<Rightarrow> int" where
  "wrap64 x = (x + 2 ^ 63) mod 2 ^ 64 - 2 ^ 63"

definition max_duration :: duration where
  "max_duration = 2 ^ 63 - 1"

definition min_duration :: duration where
  "min_duration = - (2 ^ 63)"

text \<open>\<open>time.Since\<close> and \<open>Time.Sub\<close> saturate instead of wrapping.\<close>

definition time_sub :: "time \<Rightarrow> time \<Rightarrow> duration" where
  "time_sub t u = max min_duration (min max_duration (t - u))"

abbreviation second :: duration where "second \<equiv> 1000000000"
abbreviation minute :: duration where "minute \<equiv> 60 * second"
abbreviation hour :: duration where "hour \<equiv> 60 * minute"
abbreviation millisecond :: duration where "millisecond \<equiv> 1000000"

text \<open>Go's integer division and remainder truncate towards zero.\<close>

definition go_div :: "int \<Rightarrow> int \<Rightarrow> int" where
  "go_div a b = sgn a * sgn b * (\<bar>a\<bar> div \<bar>b\<bar>)"

definition go_mod :: "int \<Rightarrow> int \<Rightarrow> int" where
  "go_mod a b = a - b * go_div a b"

lemma wrap64_range: "- (2 ^ 63) \<le> wrap64 x \<and> wrap64 x < 2 ^ 63"
  by (simp add: wrap64_def)

lemma wrap64_id: "- (2 ^ 63) \<le> x \<Longrightarrow> x < 2 ^ 63 \<Longrightarrow> wrap64 x = x"
  by (simp add: wrap64_def mod_pos_pos_trivial)

lemma time_sub_exact [simp]:
  "min_duration \<le> t - u \<Longrightarrow> t - u \<le> max_duration \<Longrightarrow> time_sub t u = t - u"
  by (simp add: time_sub_def)

lemma time_sub_ge_iff:
  "min_duration < d \<Longrightarrow> d \<le> max_duration \<Longrightarrow> d \<le> time_sub t u \<longleftrightarrow> d \<le> t - u"
  by (auto simp: time_sub_def max_def min_def)

lemma time_sub_less_iff:
  "min_duration < d \<Longrightarrow> d \<le> max_duration \<Longrightarrow> time_sub t u < d \<longleftrightarrow> t - u < d"
  by (auto simp: time_sub_def max_def min_def)

lemma go_div_nonneg: "0 \<le> a \<Longrightarrow> 0 < b \<Longrightarrow> go_div a b = a div b"
  by (cases "a = 0") (simp_all add: go_div_def)

lemma go_mod_nonneg: "0 \<le> a \<Longrightarrow> 0 < b \<Longrightarrow> go_mod a b = a mod b"
  by (simp add: go_mod_def go_div_nonneg minus_mult_div_eq_mod)

section \<open>Lists\<close>

text \<open>The last \<open>n\<close> elements, as the slice expression \<open>xs[len(xs)-n:]\<close> takes them.\<close>

definition last_n :: "nat \<Rightarrow> 'a list \<Rightarrow> 'a list" where
  "last_n n xs = drop (length xs - n) xs"

lemma length_last_n [simp]: "length (last_n n xs) = min n (length xs)"
  by (simp add: last_n_def)

lemma suffix_last_n [simp]: "suffix (last_n n xs) xs"
  by (simp add: last_n_def suffix_drop)

lemma last_n_all: "length xs \<le> n \<Longrightarrow> last_n n xs = xs"
  by (simp add: last_n_def)

lemma last_n_0 [simp]: "last_n 0 xs = []"
  by (simp add: last_n_def)

lemma last_n_last_n [simp]: "last_n m (last_n n xs) = last_n (min m n) xs"
  by (cases "length xs \<le> n") (auto simp: last_n_def min_def)

lemma last_n_snoc: "last_n (Suc n) (xs @ [x]) = last_n n xs @ [x]"
  by (simp add: last_n_def)

lemma last_n_snoc_pos: "0 < n \<Longrightarrow> last_n n (xs @ [x]) = last_n (n - 1) xs @ [x]"
  by (cases n) (simp_all add: last_n_snoc)

lemma last_n_append_keep: "last_n n (last_n n xs @ ys) = last_n n (xs @ ys)"
proof (cases "n \<le> length xs")
  case True
  have "drop (length xs + length ys - n) (xs @ ys) = drop (n + length ys - n) (drop (length xs - n) xs @ ys)"
    using True by (cases "length ys \<le> n") (simp_all add: drop_append add.commute)
  with True show ?thesis by (simp add: last_n_def)
qed (simp add: last_n_def)

lemma set_last_n: "set (last_n n xs) \<subseteq> set xs"
  by (simp add: last_n_def set_drop_subset)

lemma last_n_1: "xs \<noteq> [] \<Longrightarrow> last_n 1 xs = [last xs]"
  by (cases xs rule: rev_cases) (simp_all add: last_n_def)

lemma last_n_Suc_0 [simp]: "last_n (Suc 0) xs = (if xs = [] then [] else [last xs])"
  using last_n_1 [of xs] by (auto simp: last_n_def)

text \<open>Replacing the element found by a search, used for keyed updates of ordered tables.\<close>

lemma list_all_update: "list_all P xs \<Longrightarrow> P x \<Longrightarrow> list_all P (xs[i := x])"
  by (auto simp: list_all_iff dest: subsetD [OF set_update_subset_insert])

lemma foldl_inv:
  "P s \<Longrightarrow> (\<And>s x. P s \<Longrightarrow> x \<in> set xs \<Longrightarrow> P (f s x)) \<Longrightarrow> P (foldl f s xs)"
  by (induction xs arbitrary: s) auto

end
