(* ===== verification/JX_Float64.thy ===== *)
theory JX_Float64
  imports JX_Prelude Complex_Main
begin

text \<open>
  Go's \<open>float64\<close>: the arithmetic of IEEE 754 binary64 that the runtime computes with. A finite value
  is the rational it denotes; every operation computes the exact result and rounds it to the nearest
  representable value, ties to even, with gradual underflow and overflow to an infinity, as the Go
  specification prescribes. NaN and the infinities are values of their own and comparisons with NaN
  are false. The sign of a zero is not represented: no branch of the modelled code can observe it,
  because it never divides by a zero and \<open>-0 == 0\<close>.

  The lemmas show that rounding is monotone, that it fixes the representable values and that the
  comparisons behave as a total order away from NaN.
\<close>

datatype f64 = NaN | PInf | NInf | Fin rat

section \<open>Rounding\<close>

function ilog2 :: "int \<Rightarrow> int" where
  "ilog2 n = (if n < 2 then 0 else 1 + ilog2 (n div 2))"
  by pat_completeness auto
termination
  by (relation "measure nat") auto

declare ilog2.simps [simp del]

text \<open>The binary exponent of a positive rational: \<open>2^e \<le> a < 2^(e+1)\<close>.\<close>

definition fexp :: "rat \<Rightarrow> int" where
  "fexp a =
     (let (n, d) = quotient_of a;
          k = ilog2 n - ilog2 d
      in if 2 powi k \<le> a then k else k - 1)"

text \<open>Nearest integer, ties to even.\<close>

definition rhe :: "rat \<Rightarrow> int" where
  "rhe q =
     (let f = \<lfloor>q\<rfloor>; r = q - of_int f
      in if r < 1 / 2 then f else if 1 / 2 < r then f + 1 else if even f then f else f + 1)"

text \<open>The spacing of the representable values around a positive rational.\<close>

definition ulp :: "rat \<Rightarrow> rat" where
  "ulp a = 2 powi (max (fexp a) (- 1022) - 52)"

definition round_pos :: "rat \<Rightarrow> rat" where
  "round_pos a = of_int (rhe (a / ulp a)) * ulp a"

definition rnd :: "rat \<Rightarrow> f64" where
  "rnd q =
     (if q = 0 then Fin 0
      else let v = round_pos \<bar>q\<bar>
           in if 0 < v \<and> 1024 \<le> fexp v then (if 0 < q then PInf else NInf)
              else Fin (if 0 < q then v else - v))"

section \<open>Operations\<close>

fun f_add :: "f64 \<Rightarrow> f64 \<Rightarrow> f64" where
  "f_add (Fin a) (Fin b) = rnd (a + b)"
| "f_add NaN _ = NaN"
| "f_add _ NaN = NaN"
| "f_add PInf NInf = NaN"
| "f_add NInf PInf = NaN"
| "f_add PInf _ = PInf"
| "f_add _ PInf = PInf"
| "f_add NInf _ = NInf"
| "f_add _ NInf = NInf"

fun f_neg :: "f64 \<Rightarrow> f64" where
  "f_neg (Fin a) = Fin (- a)"
| "f_neg NaN = NaN"
| "f_neg PInf = NInf"
| "f_neg NInf = PInf"

definition f_sub :: "f64 \<Rightarrow> f64 \<Rightarrow> f64" where
  "f_sub a b = f_add a (f_neg b)"

definition f_inf :: "bool \<Rightarrow> f64" where
  "f_inf pos = (if pos then PInf else NInf)"

fun f_sgn :: "f64 \<Rightarrow> rat" where
  "f_sgn (Fin a) = sgn a"
| "f_sgn PInf = 1"
| "f_sgn NInf = - 1"
| "f_sgn NaN = 0"

fun f_mul :: "f64 \<Rightarrow> f64 \<Rightarrow> f64" where
  "f_mul (Fin a) (Fin b) = rnd (a * b)"
| "f_mul NaN _ = NaN"
| "f_mul _ NaN = NaN"
| "f_mul a b = (if f_sgn a * f_sgn b = 0 then NaN else f_inf (0 < f_sgn a * f_sgn b))"

fun f_div :: "f64 \<Rightarrow> f64 \<Rightarrow> f64" where
  "f_div (Fin a) (Fin b) =
     (if b = 0 then (if a = 0 then NaN else f_inf (0 < a)) else rnd (a / b))"
| "f_div NaN _ = NaN"
| "f_div _ NaN = NaN"
| "f_div (Fin a) _ = Fin 0"
| "f_div a (Fin b) = f_inf ((0 < f_sgn a) = (0 \<le> b))"
| "f_div _ _ = NaN"

fun f_le :: "f64 \<Rightarrow> f64 \<Rightarrow> bool" where
  "f_le NaN _ = False"
| "f_le _ NaN = False"
| "f_le NInf _ = True"
| "f_le _ PInf = True"
| "f_le (Fin a) (Fin b) = (a \<le> b)"
| "f_le _ _ = False"

fun f_lt :: "f64 \<Rightarrow> f64 \<Rightarrow> bool" where
  "f_lt NaN _ = False"
| "f_lt _ NaN = False"
| "f_lt NInf NInf = False"
| "f_lt NInf _ = True"
| "f_lt PInf _ = False"
| "f_lt _ PInf = True"
| "f_lt (Fin a) (Fin b) = (a < b)"
| "f_lt _ _ = False"

fun f_eq :: "f64 \<Rightarrow> f64 \<Rightarrow> bool" where
  "f_eq NaN _ = False"
| "f_eq a b = (a = b)"

abbreviation f_ge :: "f64 \<Rightarrow> f64 \<Rightarrow> bool" where "f_ge a b \<equiv> f_le b a"
abbreviation f_gt :: "f64 \<Rightarrow> f64 \<Rightarrow> bool" where "f_gt a b \<equiv> f_lt b a"

text \<open>Conversions \<open>float64(i)\<close> of the integers, and the representable values.\<close>

definition f_of_int :: "int \<Rightarrow> f64" where
  "f_of_int i = rnd (of_int i)"

definition f_of_u64 :: "64 word \<Rightarrow> f64" where
  "f_of_u64 w = rnd (of_int (uint w))"

fun is_f64 :: "f64 \<Rightarrow> bool" where
  "is_f64 (Fin q) = (rnd q = Fin q)"
| "is_f64 _ = True"

fun is_fin :: "f64 \<Rightarrow> bool" where
  "is_fin (Fin _) = True"
| "is_fin _ = False"

section \<open>The exponent\<close>

lemma ilog2_bounds: "0 < n \<Longrightarrow> 0 \<le> ilog2 n \<and> 2 powi ilog2 n \<le> (of_int n :: rat) \<and> of_int n < (2 powi (ilog2 n + 1) :: rat)"
proof (induction n rule: ilog2.induct)
  case (1 n)
  show ?case
  proof (cases "n < 2")
    case True
    with "1.prems" have "n = 1" by simp
    then show ?thesis by (simp add: ilog2.simps)
  next
    case False
    let ?m = "n div 2"
    from False have "0 < ?m" by simp
    with False "1.IH" have ih: "0 \<le> ilog2 ?m" "2 powi ilog2 ?m \<le> (of_int ?m :: rat)"
      "of_int ?m < (2 powi (ilog2 ?m + 1) :: rat)" by auto
    have eq: "ilog2 n = 1 + ilog2 ?m" using False by (subst ilog2.simps) simp
    have "2 * of_int ?m \<le> (of_int n :: rat)"
      by (metis mult_div_mod_eq of_int_le_iff of_int_mult of_int_numeral pos_mod_sign
          zero_less_numeral le_add_same_cancel1)
    moreover have "(2::rat) powi (1 + ilog2 ?m) = 2 * 2 powi ilog2 ?m"
      by (simp add: power_int_add)
    ultimately have lo: "2 powi ilog2 n \<le> (of_int n :: rat)" using ih(2) eq by simp
    have "\<exists>k. (2::rat) powi (ilog2 ?m + 1) = of_int k \<and> k = 2 ^ nat (ilog2 ?m + 1)"
      using ih(1) by (simp add: power_int_def)
    then obtain k where k: "(2::rat) powi (ilog2 ?m + 1) = of_int k" by blast
    with ih(3) have "?m < k" by simp
    then have "n < 2 * k" by simp
    then have "(of_int n :: rat) < 2 * of_int k"
      by (metis of_int_less_iff of_int_mult of_int_numeral)
    then have "of_int n < (2 powi (ilog2 n + 1) :: rat)"
      using k eq by (simp add: power_int_add)
    with lo ih(1) eq show ?thesis by simp
  qed
qed

lemma powi_rat_less_iff [simp]: "(2::rat) powi i < 2 powi j \<longleftrightarrow> i < j"
  using power_int_strict_increasing [of i j "2::rat"] power_int_increasing [of j i "2::rat"]
  by (meson linorder_not_le one_less_numeral_iff order_less_imp_le semiring_norm(76))

lemma powi_rat_le_iff [simp]: "(2::rat) powi i \<le> 2 powi j \<longleftrightarrow> i \<le> j"
  by (simp only: linorder_not_less [symmetric] powi_rat_less_iff)

lemma powi_rat_mult: "(2::rat) powi i * 2 powi j = 2 powi (i + j)"
  by (simp add: power_int_add)

lemma powi_rat_div: "(2::rat) powi i / 2 powi j = 2 powi (i - j)"
  by (simp add: power_int_diff)

lemma powi_rat_pos [simp]: "0 < (2::rat) powi i"
  by simp

lemma fexp_bounds: "0 < a \<Longrightarrow> 2 powi fexp a \<le> a \<and> a < 2 powi (fexp a + 1)"
proof -
  assume a: "0 < a"
  obtain n d where nd: "quotient_of a = (n, d)" by (cases "quotient_of a")
  then have d: "0 < d" by (rule quotient_of_denom_pos)
  have aeq: "a = of_int n / of_int d" using nd by (rule quotient_of_div)
  with a d have n: "0 < n" by (simp add: zero_less_divide_iff)
  let ?k = "ilog2 n - ilog2 d"
  note bn = ilog2_bounds [OF n] and bd = ilog2_bounds [OF d]
  have "a < 2 powi (ilog2 n + 1) / 2 powi ilog2 d"
    unfolding aeq using bn bd n d by (intro frac_less) auto
  then have up: "a < 2 powi (?k + 1)" by (simp add: power_int_diff [symmetric] algebra_simps)
  have "2 powi ilog2 n / 2 powi (ilog2 d + 1) < a"
    unfolding aeq using bn bd n d by (intro frac_less2) auto
  then have "2 powi (?k - 1) < a" by (simp add: power_int_diff [symmetric] algebra_simps)
  with up show ?thesis by (simp add: fexp_def nd Let_def)
qed

lemma fexp_unique: "0 < a \<Longrightarrow> 2 powi e \<le> a \<Longrightarrow> a < 2 powi (e + 1) \<Longrightarrow> fexp a = e"
proof -
  assume a: "0 < a" and e: "2 powi e \<le> a" "a < 2 powi (e + 1)"
  note b = fexp_bounds [OF a]
  from b e have "(2::rat) powi e < 2 powi (fexp a + 1)" "(2::rat) powi fexp a < 2 powi (e + 1)"
    by linarith+
  then show ?thesis by (simp only: powi_rat_less_iff)
qed

lemma fexp_mono: "0 < a \<Longrightarrow> a \<le> b \<Longrightarrow> fexp a \<le> fexp b"
proof -
  assume "0 < a" "a \<le> b"
  with fexp_bounds [of a] fexp_bounds [of b] have "(2::rat) powi fexp a < 2 powi (fexp b + 1)"
    by linarith
  then show ?thesis by (simp only: powi_rat_less_iff)
qed

section \<open>Rounding is monotone\<close>

lemma rhe_of_int [simp]: "rhe (of_int i) = i"
  by (simp add: rhe_def)

lemma rhe_floor: "\<lfloor>q\<rfloor> \<le> rhe q \<and> rhe q \<le> \<lfloor>q\<rfloor> + 1"
  by (simp add: rhe_def Let_def)

lemma rhe_mono: "q \<le> r \<Longrightarrow> rhe q \<le> rhe r"
proof -
  assume qr: "q \<le> r"
  show ?thesis
  proof (cases "\<lfloor>q\<rfloor> = \<lfloor>r\<rfloor>")
    case True
    with qr have "q - of_int \<lfloor>q\<rfloor> \<le> r - of_int \<lfloor>r\<rfloor>" by simp
    with True show ?thesis by (auto simp: rhe_def Let_def)
  next
    case False
    with floor_mono [OF qr] have "\<lfloor>q\<rfloor> + 1 \<le> \<lfloor>r\<rfloor>" by simp
    with rhe_floor [of q] rhe_floor [of r] show ?thesis by linarith
  qed
qed

lemma ulp_pos [simp]: "0 < ulp a"
  by (simp add: ulp_def)

lemma round_pos_nonneg: "0 < a \<Longrightarrow> 0 \<le> round_pos a"
proof -
  assume "0 < a"
  then have "rhe (of_int 0) \<le> rhe (a / ulp a)" by (intro rhe_mono) (simp add: ulp_def)
  then show ?thesis by (simp add: round_pos_def ulp_def del: of_int_0)
qed

lemma round_pos_mono: "0 < a \<Longrightarrow> a \<le> b \<Longrightarrow> round_pos a \<le> round_pos b"
proof -
  assume a: "0 < a" and ab: "a \<le> b"
  let ?E = "\<lambda>x. max (fexp x) (- 1022)"
  have Emono: "?E a \<le> ?E b" using fexp_mono [OF a ab] by simp
  show ?thesis
  proof (cases "?E a = ?E b")
    case True
    then have u: "ulp a = ulp b" by (simp add: ulp_def)
    have "rhe (a / ulp a) \<le> rhe (b / ulp b)"
      unfolding u using ab by (intro rhe_mono divide_right_mono) (auto simp: less_imp_le)
    then show ?thesis by (simp add: round_pos_def u)
  next
    case False
    with Emono have lt: "?E a + 1 \<le> ?E b" by linarith
    then have Eb: "?E b = fexp b" by (simp add: max_def split: if_splits)
    have "(2::rat) powi (fexp a + 1) \<le> 2 powi (?E a + 1)" by (simp only: powi_rat_le_iff)
    with fexp_bounds [OF a] have "a \<le> 2 powi (?E a + 1)" by linarith
    then have "a / ulp a \<le> 2 powi (?E a + 1) / ulp a"
      by (intro divide_right_mono) (auto simp: less_imp_le)
    also have "\<dots> = 2 powi 53" by (simp add: ulp_def power_int_diff [symmetric])
    also have "\<dots> = of_int (2 ^ 53)" by simp
    finally have "rhe (a / ulp a) \<le> 2 ^ 53" by (metis rhe_mono rhe_of_int)
    then have "(of_int (rhe (a / ulp a)) :: rat) \<le> of_int (2 ^ 53)" by (simp only: of_int_le_iff)
    then have "round_pos a \<le> of_int (2 ^ 53) * ulp a"
      unfolding round_pos_def by (intro mult_right_mono) (auto simp: less_imp_le)
    also have "\<dots> = 2 powi 53 * 2 powi (?E a - 52)" by (simp add: ulp_def)
    also have "\<dots> = 2 powi (?E a + 1)" unfolding powi_rat_mult by (simp add: algebra_simps)
    also have "\<dots> \<le> 2 powi (?E b)" using lt by (simp only: powi_rat_le_iff)
    also have "\<dots> = 2 powi 52 * ulp b" unfolding ulp_def powi_rat_mult by simp
    also have "\<dots> \<le> of_int (rhe (b / ulp b)) * ulp b"
    proof (intro mult_right_mono)
      have "2 powi (?E b) / ulp b \<le> b / ulp b"
        using a ab fexp_bounds [of b] Eb by (intro divide_right_mono) (auto simp: less_imp_le)
      moreover have "2 powi (?E b) / ulp b = (of_int (2 ^ 52) :: rat)"
        by (simp add: ulp_def power_int_diff [symmetric])
      ultimately have "2 ^ 52 \<le> rhe (b / ulp b)" by (metis rhe_mono rhe_of_int)
      then have "(of_int (2 ^ 52) :: rat) \<le> of_int (rhe (b / ulp b))" by (simp only: of_int_le_iff)
      then show "(2::rat) powi 52 \<le> of_int (rhe (b / ulp b))" by simp
    qed (simp add: less_imp_le)
    finally show ?thesis by (simp add: round_pos_def)
  qed
qed

lemma fin_of_overflow:
  "rnd q = (if q = 0 then Fin 0
     else if 0 < round_pos \<bar>q\<bar> \<and> 1024 \<le> fexp (round_pos \<bar>q\<bar>) then f_inf (0 < q)
     else Fin (sgn q * round_pos \<bar>q\<bar>))"
  by (auto simp: rnd_def f_inf_def Let_def sgn_if)

lemma rnd_0 [simp]: "rnd 0 = Fin 0"
  by (simp add: rnd_def)

lemma rnd_minus: "rnd (- q) = f_neg (rnd q)"
  by (auto simp: fin_of_overflow f_inf_def)

lemma rnd_not_nan [simp]: "rnd q \<noteq> NaN"
  by (auto simp: fin_of_overflow f_inf_def)

lemma rnd_nonneg: "0 < q \<Longrightarrow> rnd q = PInf \<or> (\<exists>v \<ge> 0. rnd q = Fin v)"
  using round_pos_nonneg [of q] by (auto simp: fin_of_overflow f_inf_def)

lemma rnd_mono_pos: "0 < q \<Longrightarrow> q \<le> r \<Longrightarrow> f_le (rnd q) (rnd r)"
proof -
  assume q: "0 < q" and qr: "q \<le> r"
  from q qr have r: "0 < r" by simp
  note m = round_pos_mono [OF q qr]
  have "0 < round_pos q \<Longrightarrow> fexp (round_pos q) \<le> fexp (round_pos r)"
    using m by (intro fexp_mono) auto
  then show ?thesis using q r m by (auto simp: fin_of_overflow f_inf_def)
qed

section \<open>The comparisons\<close>

lemma f_le_refl [simp]: "f_le x x \<longleftrightarrow> x \<noteq> NaN"
  by (cases x) auto

lemma f_le_trans: "f_le x y \<Longrightarrow> f_le y z \<Longrightarrow> f_le x z"
  by (cases x; cases y; cases z) auto

lemma f_le_antisym: "f_le x y \<Longrightarrow> f_le y x \<Longrightarrow> x = y"
  by (cases x; cases y) auto

lemma f_le_total: "x \<noteq> NaN \<Longrightarrow> y \<noteq> NaN \<Longrightarrow> f_le x y \<or> f_le y x"
  by (cases x; cases y) auto

lemma f_lt_iff: "f_lt x y \<longleftrightarrow> f_le x y \<and> \<not> f_le y x"
  by (cases x; cases y) auto

lemma not_f_le_iff: "x \<noteq> NaN \<Longrightarrow> y \<noteq> NaN \<Longrightarrow> \<not> f_le x y \<longleftrightarrow> f_lt y x"
  by (cases x; cases y) auto

lemma f_cmp_nan [simp]: "\<not> f_le x NaN" "\<not> f_le NaN x" "\<not> f_lt x NaN" "\<not> f_lt NaN x"
  by (cases x; simp)+

lemma f_neg_le: "f_le x y \<Longrightarrow> f_le (f_neg y) (f_neg x)"
  by (cases x; cases y) auto

lemma f_neg_neg [simp]: "f_neg (f_neg x) = x"
  by (cases x) auto

lemma rnd_mono: "q \<le> r \<Longrightarrow> f_le (rnd q) (rnd r)"
proof (cases "0 < q")
  case True
  then show "q \<le> r \<Longrightarrow> ?thesis" by (rule rnd_mono_pos)
next
  case nq: False
  assume qr: "q \<le> r"
  show ?thesis
  proof (cases "r < 0")
    case True
    with qr have "f_le (rnd (- r)) (rnd (- q))" by (intro rnd_mono_pos) auto
    then show ?thesis by (metis f_neg_le rnd_minus minus_minus f_neg_neg)
  next
    case False
    have "f_le (Fin 0) (rnd r)" using False rnd_nonneg [of r] by (cases "r = 0") force+
    moreover have "f_le (rnd q) (Fin 0)"
    proof (cases "q = 0")
      case False
      with nq have "rnd (- q) = PInf \<or> (\<exists>v \<ge> 0. rnd (- q) = Fin v)" by (intro rnd_nonneg) simp
      then have "f_neg (rnd q) = PInf \<or> (\<exists>v \<ge> 0. f_neg (rnd q) = Fin v)" by (simp add: rnd_minus)
      then show ?thesis by (cases "rnd q") auto
    qed simp
    ultimately show ?thesis by (rule f_le_trans [rotated])
  qed
qed

section \<open>Representable values are exact\<close>

lemma rnd_dyadic_pos:
  assumes "0 < m" "m < 2 ^ 53" "- 1074 \<le> k" "k \<le> 971"
  shows "rnd (of_int m * 2 powi k) = Fin (of_int m * 2 powi k)"
proof -
  let ?a = "of_int m * 2 powi k :: rat"
  let ?E = "max (fexp ?a) (- 1022)"
  have a: "0 < ?a" using assms by simp
  have "(of_int m :: rat) < of_int (2 ^ 53)" using assms(2) by (simp only: of_int_less_iff)
  then have "?a < of_int (2 ^ 53) * 2 powi k" by (intro mult_strict_right_mono) auto
  also have "\<dots> = 2 powi 53 * 2 powi k" by simp
  also have "\<dots> = 2 powi (53 + k)" by (simp add: power_int_add)
  finally have "(2::rat) powi fexp ?a < 2 powi (53 + k)" using fexp_bounds [OF a] by linarith
  then have e: "fexp ?a < 53 + k" by (simp only: powi_rat_less_iff)
  with assms(3) have s: "0 \<le> k - (?E - 52)" by (simp add: max_def)
  have "?a / ulp ?a = of_int m * (2 powi k / 2 powi (?E - 52))" by (simp add: ulp_def)
  also have "\<dots> = of_int m * 2 powi (k - (?E - 52))" by (simp only: powi_rat_div)
  also have "\<dots> = of_int (m * 2 ^ nat (k - (?E - 52)))"
    using s by (simp add: power_int_def del: max_def)
  finally have d: "?a / ulp ?a = of_int (m * 2 ^ nat (k - (?E - 52)))" .
  have "round_pos ?a = ?a / ulp ?a * ulp ?a" unfolding round_pos_def d rhe_of_int ..
  then have r: "round_pos ?a = ?a" by (simp add: ulp_def)
  show ?thesis using a e assms(4) r by (simp add: fin_of_overflow)
qed

lemma rnd_dyadic:
  assumes "\<bar>m\<bar> < 2 ^ 53" "- 1074 \<le> k" "k \<le> 971"
  shows "rnd (of_int m * 2 powi k) = Fin (of_int m * 2 powi k)"
proof (cases "0 \<le> m")
  case True
  with assms show ?thesis by (cases "m = 0") (auto intro: rnd_dyadic_pos)
next
  case False
  with assms have "rnd (of_int (- m) * 2 powi k) = Fin (of_int (- m) * 2 powi k)"
    by (intro rnd_dyadic_pos) auto
  then have "f_neg (rnd (of_int (- m) * 2 powi k)) = Fin (of_int m * 2 powi k)" by simp
  then show ?thesis by (simp add: rnd_minus [symmetric])
qed

lemma rnd_of_int [simp]: "\<bar>m\<bar> < 2 ^ 53 \<Longrightarrow> rnd (of_int m) = Fin (of_int m)"
  using rnd_dyadic [of m 0] by simp

lemma rnd_numeral [simp]: "(numeral n :: int) < 2 ^ 53 \<Longrightarrow> rnd (numeral n) = Fin (numeral n)"
  using rnd_of_int [of "numeral n"] by simp

lemma rnd_neg_numeral [simp]:
  "(numeral n :: int) < 2 ^ 53 \<Longrightarrow> rnd (- numeral n) = Fin (- numeral n)"
  using rnd_of_int [of "- numeral n"] by simp

lemma rnd_1 [simp]: "rnd 1 = Fin 1"
  using rnd_of_int [of 1] by simp

lemma f_of_int_small [simp]: "\<bar>i\<bar> < 2 ^ 53 \<Longrightarrow> f_of_int i = Fin (of_int i)"
  by (simp add: f_of_int_def)

lemma f_sub_ge_0: "is_fin x \<Longrightarrow> is_fin y \<Longrightarrow> f_le y x \<Longrightarrow> f_le (Fin 0) (f_sub x y)"
  using rnd_mono [of 0] by (cases x; cases y) (auto simp: f_sub_def)

lemma f_sub_le:
  "is_f64 x \<Longrightarrow> f_le (Fin 0) y \<Longrightarrow> is_fin y \<Longrightarrow> x \<noteq> NaN \<Longrightarrow> f_le (f_sub x y) x"
proof (cases x; cases y)
  fix a b
  assume "is_f64 x" "f_le (Fin 0) y" and xy: "x = Fin a" "y = Fin b"
  then have "rnd a = Fin a" "a - b \<le> a" by auto
  with rnd_mono [of "a - b" a] xy show ?thesis by (simp add: f_sub_def)
qed (auto simp: f_sub_def)

end
