(* ===== verification/JX_Strings.thy ===== *)
theory JX_Strings
  imports JX_Prelude JX_Float64
begin

text \<open>
  The part of Go's \<open>strings\<close>, \<open>strconv\<close>, \<open>unicode/utf8\<close> and \<open>fmt\<close> that the runtime uses. A Go
  string is a sequence of bytes, here a \<open>char list\<close>; text outside ASCII is its UTF-8 encoding, so that
  \<open>len\<close>, slicing and truncation count what Go counts.
\<close>

abbreviation byte :: "char \<Rightarrow> nat" where
  "byte c \<equiv> of_char c"

section \<open>UTF-8 literals of the messages\<close>

abbreviation e_acute :: string where "e_acute \<equiv> [CHR 0xC3, CHR 0xA9]"
abbreviation e_grave :: string where "e_grave \<equiv> [CHR 0xC3, CHR 0xA8]"
abbreviation a_grave :: string where "a_grave \<equiv> [CHR 0xC3, CHR 0xA0]"
abbreviation e_circ :: string where "e_circ \<equiv> [CHR 0xC3, CHR 0xAA]"
abbreviation em_dash :: string where "em_dash \<equiv> [CHR 0xE2, CHR 0x80, CHR 0x94]"
abbreviation right_arrow :: string where "right_arrow \<equiv> [CHR 0xE2, CHR 0x86, CHR 0x92]"
abbreviation up_arrow :: string where "up_arrow \<equiv> [CHR 0xE2, CHR 0x86, CHR 0x91]"
abbreviation warn_sign :: string where "warn_sign \<equiv> [CHR 0xE2, CHR 0x9A, CHR 0xA0]"
abbreviation check_mark :: string where "check_mark \<equiv> [CHR 0xE2, CHR 0x9C, CHR 0x93]"
abbreviation middle_dot :: string where "middle_dot \<equiv> [CHR 0xC2, CHR 0xB7]"
abbreviation nl :: string where "nl \<equiv> [CHR 0x0A]"

section \<open>Runes\<close>

definition is_cont :: "char \<Rightarrow> bool" where
  "is_cont c \<longleftrightarrow> 0x80 \<le> byte c \<and> byte c \<le> 0xBF"

text \<open>
  The number of bytes of the rune at the head of a string, as \<open>utf8.DecodeRuneInString\<close> reports it;
  a byte that starts no valid encoding is a rune of one byte.
\<close>

fun rune_len :: "string \<Rightarrow> nat" where
  "rune_len [] = 0"
| "rune_len (c # cs) =
     (let b = byte c in
      if 0xC2 \<le> b \<and> b \<le> 0xDF then
        (case cs of c1 # _ \<Rightarrow> if is_cont c1 then 2 else 1 | [] \<Rightarrow> 1)
      else if 0xE0 \<le> b \<and> b \<le> 0xEF then
        (case cs of c1 # c2 # _ \<Rightarrow>
           if is_cont c1 \<and> is_cont c2 \<and> (b = 0xE0 \<longrightarrow> 0xA0 \<le> byte c1) \<and> (b = 0xED \<longrightarrow> byte c1 \<le> 0x9F)
           then 3 else 1
         | _ \<Rightarrow> 1)
      else if 0xF0 \<le> b \<and> b \<le> 0xF4 then
        (case cs of c1 # c2 # c3 # _ \<Rightarrow>
           if is_cont c1 \<and> is_cont c2 \<and> is_cont c3
              \<and> (b = 0xF0 \<longrightarrow> 0x90 \<le> byte c1) \<and> (b = 0xF4 \<longrightarrow> byte c1 \<le> 0x8F)
           then 4 else 1
         | _ \<Rightarrow> 1)
      else 1)"

lemma rune_len_bounds: "s \<noteq> [] \<Longrightarrow> 1 \<le> rune_len s \<and> rune_len s \<le> length s \<and> rune_len s \<le> 4"
  by (cases s) (auto simp: Let_def split: list.splits)

text \<open>\<open>fmt\<close>'s \<open>%.ns\<close> keeps the first \<open>n\<close> runes.\<close>

fun take_runes :: "nat \<Rightarrow> string \<Rightarrow> string" where
  "take_runes 0 s = []"
| "take_runes (Suc n) s =
     (if s = [] then [] else take (rune_len s) s @ take_runes n (drop (rune_len s) s))"

lemma prefix_take_runes: "prefix (take_runes n s) s"
proof (induction n arbitrary: s)
  case (Suc n)
  have "prefix (take (rune_len s) s @ take_runes n (drop (rune_len s) s))
      (take (rune_len s) s @ drop (rune_len s) s)"
    using Suc [of "drop (rune_len s) s"] by (simp only: same_prefix_prefix)
  then show ?case by simp
qed simp

lemma length_take_runes: "length (take_runes n s) \<le> 4 * n"
proof (induction n arbitrary: s)
  case (Suc n)
  show ?case
  proof (cases "s = []")
    case False
    with rune_len_bounds [of s] Suc [of "drop (rune_len s) s"] show ?thesis by simp
  qed simp
qed simp

section \<open>Prefixes, suffixes, searching\<close>

text \<open>\<open>strings.HasPrefix\<close> and \<open>HasSuffix\<close> are the library's \<open>prefix\<close> and \<open>suffix\<close>.\<close>

definition trim_prefix :: "string \<Rightarrow> string \<Rightarrow> string" where
  "trim_prefix s p = (if prefix p s then drop (length p) s else s)"

definition trim_suffix :: "string \<Rightarrow> string \<Rightarrow> string" where
  "trim_suffix s p = (if suffix p s then take (length s - length p) s else s)"

text \<open>\<open>strings.Index\<close>: the first position of a substring, \<open>None\<close> for Go's -1.\<close>

fun index_of :: "string \<Rightarrow> string \<Rightarrow> nat option" where
  "index_of [] p = (if p = [] then Some 0 else None)"
| "index_of (c # cs) p = (if prefix p (c # cs) then Some 0 else map_option Suc (index_of cs p))"

text \<open>\<open>strings.LastIndex\<close> of a one-byte substring.\<close>

fun last_index :: "string \<Rightarrow> char \<Rightarrow> nat option" where
  "last_index [] x = None"
| "last_index (c # cs) x =
     (case last_index cs x of Some i \<Rightarrow> Some (Suc i)
      | None \<Rightarrow> if c = x then Some 0 else None)"

definition contains :: "string \<Rightarrow> string \<Rightarrow> bool" where
  "contains s p \<longleftrightarrow> index_of s p \<noteq> None"

lemma contains_iff: "contains s p \<longleftrightarrow> sublist p s"
proof (induction s)
  case Nil
  show ?case by (simp add: contains_def)
next
  case (Cons c cs)
  then show ?case by (auto simp: contains_def sublist_Cons_right)
qed

lemma index_of_char_Some:
  "index_of s [x] = Some i \<Longrightarrow> i < length s \<and> s ! i = x \<and> x \<notin> set (take i s)"
  by (induction s arbitrary: i) (auto split: if_splits)

lemma index_of_char_None: "index_of s [x] = None \<longleftrightarrow> x \<notin> set s"
  by (induction s) auto

lemma last_index_None: "last_index s x = None \<longleftrightarrow> x \<notin> set s"
  by (induction s) (auto split: option.splits)

lemma last_index_Some:
  "last_index s x = Some i \<Longrightarrow> i < length s \<and> s ! i = x \<and> x \<notin> set (drop (Suc i) s)"
  by (induction s arbitrary: i) (auto split: option.splits if_splits simp: last_index_None)

lemma trim_prefix_append [simp]: "trim_prefix (p @ s) p = s"
  by (simp add: trim_prefix_def)

lemma trim_prefix_length: "length (trim_prefix s p) \<le> length s"
  by (simp add: trim_prefix_def)

section \<open>White space\<close>

text \<open>The UTF-8 encodings of the runes that \<open>unicode.IsSpace\<close> accepts.\<close>

definition go_spaces :: "string list" where
  "go_spaces =
     [[CHR 0x20], [CHR 0x09], [CHR 0x0A], [CHR 0x0B], [CHR 0x0C], [CHR 0x0D],
      [CHR 0xC2, CHR 0x85], [CHR 0xC2, CHR 0xA0],
      [CHR 0xE1, CHR 0x9A, CHR 0x80],
      [CHR 0xE2, CHR 0x80, CHR 0x80], [CHR 0xE2, CHR 0x80, CHR 0x81],
      [CHR 0xE2, CHR 0x80, CHR 0x82], [CHR 0xE2, CHR 0x80, CHR 0x83],
      [CHR 0xE2, CHR 0x80, CHR 0x84], [CHR 0xE2, CHR 0x80, CHR 0x85],
      [CHR 0xE2, CHR 0x80, CHR 0x86], [CHR 0xE2, CHR 0x80, CHR 0x87],
      [CHR 0xE2, CHR 0x80, CHR 0x88], [CHR 0xE2, CHR 0x80, CHR 0x89],
      [CHR 0xE2, CHR 0x80, CHR 0x8A],
      [CHR 0xE2, CHR 0x80, CHR 0xA8], [CHR 0xE2, CHR 0x80, CHR 0xA9],
      [CHR 0xE2, CHR 0x80, CHR 0xAF], [CHR 0xE2, CHR 0x81, CHR 0x9F],
      [CHR 0xE3, CHR 0x80, CHR 0x80]]"

fun space_at :: "string list \<Rightarrow> string \<Rightarrow> nat" where
  "space_at [] s = 0"
| "space_at (p # ps) s = (if prefix p s then length p else space_at ps s)"

lemma space_at_le: "space_at ps s \<le> length s"
  by (induction ps) (auto dest: prefix_length_le)

function trim_with :: "string list \<Rightarrow> string \<Rightarrow> string" where
  "trim_with ps s = (if space_at ps s = 0 then s else trim_with ps (drop (space_at ps s) s))"
  by pat_completeness auto
termination
proof (relation "measure (\<lambda>(ps, s). length s)")
  fix ps :: "string list" and s :: string
  assume "space_at ps s \<noteq> 0"
  with space_at_le [of ps s] show "((ps, drop (space_at ps s) s), (ps, s)) \<in> measure (\<lambda>(ps, s). length s)"
    by simp
qed simp

declare trim_with.simps [simp del]

definition trim_left_space :: "string \<Rightarrow> string" where
  "trim_left_space s = trim_with go_spaces s"

definition trim_right_space :: "string \<Rightarrow> string" where
  "trim_right_space s = rev (trim_with (map rev go_spaces) (rev s))"

definition trim_space :: "string \<Rightarrow> string" where
  "trim_space s = trim_right_space (trim_left_space s)"

lemma suffix_trim_with: "suffix (trim_with ps s) s"
proof (induction ps s rule: trim_with.induct)
  case (1 ps s)
  show ?case
  proof (cases "space_at ps s = 0")
    case True
    then show ?thesis by (subst trim_with.simps) simp
  next
    case False
    with 1 have "suffix (trim_with ps (drop (space_at ps s) s)) s"
      using suffix_drop suffix_order.trans by blast
    with False show ?thesis by (subst trim_with.simps) simp
  qed
qed

lemma space_at_trim_with [simp]: "space_at ps (trim_with ps s) = 0"
proof (induction ps s rule: trim_with.induct)
  case (1 ps s)
  then show ?case by (cases "space_at ps s = 0") (auto simp: trim_with.simps [of ps s])
qed

lemma trim_with_id: "space_at ps s = 0 \<Longrightarrow> trim_with ps s = s"
  by (subst trim_with.simps) simp

lemma trim_with_idem [simp]: "trim_with ps (trim_with ps s) = trim_with ps s"
  by (rule trim_with_id) simp

lemma prefix_trim_right: "prefix (trim_right_space s) s"
  unfolding trim_right_space_def
  using suffix_trim_with [of "map rev go_spaces" "rev s"] by (metis rev_rev_ident suffix_to_prefix)

lemma sublist_trim_space: "sublist (trim_space s) s"
proof -
  have "sublist (trim_space s) (trim_left_space s)"
    unfolding trim_space_def using prefix_trim_right by (rule prefix_imp_sublist)
  also have "sublist (trim_left_space s) s"
    unfolding trim_left_space_def using suffix_trim_with by (rule suffix_imp_sublist)
  finally show ?thesis .
qed

lemma trim_space_length: "length (trim_space s) \<le> length s"
  by (rule sublist_length_le) (rule sublist_trim_space)

text \<open>A trimmed string neither starts nor ends with white space, so trimming again changes nothing.\<close>

lemma space_at_0_iff: "\<forall>p \<in> set ps. p \<noteq> [] \<Longrightarrow> space_at ps s = 0 \<longleftrightarrow> (\<forall>p \<in> set ps. \<not> prefix p s)"
  by (induction ps) auto

lemma space_at_prefix_0:
  "\<forall>p \<in> set ps. p \<noteq> [] \<Longrightarrow> space_at ps s = 0 \<Longrightarrow> prefix t s \<Longrightarrow> space_at ps t = 0"
  by (metis prefix_order.trans space_at_0_iff)

lemma go_spaces_nonempty: "\<forall>p \<in> set go_spaces. p \<noteq> []"
  by (simp add: go_spaces_def)

lemma trim_space_idem [simp]: "trim_space (trim_space s) = trim_space s"
proof -
  let ?l = "trim_left_space s"
  have l: "space_at go_spaces ?l = 0" by (simp add: trim_left_space_def)
  with go_spaces_nonempty have "space_at go_spaces (trim_space s) = 0"
    unfolding trim_space_def using prefix_trim_right by (rule space_at_prefix_0)
  then have "trim_left_space (trim_space s) = trim_space s"
    unfolding trim_left_space_def by (rule trim_with_id)
  then show ?thesis by (simp add: trim_space_def trim_right_space_def)
qed

text \<open>\<open>strings.Fields\<close>: the maximal runs of non-space bytes.\<close>

fun fields_aux :: "nat \<Rightarrow> string \<Rightarrow> string \<Rightarrow> string list" where
  "fields_aux 0 acc s = []"
| "fields_aux (Suc n) acc s =
     (if s = [] then (if acc = [] then [] else [acc])
      else if space_at go_spaces s = 0 then fields_aux n (acc @ [hd s]) (tl s)
      else (if acc = [] then [] else [acc]) @ fields_aux n [] (drop (space_at go_spaces s) s))"

definition fields :: "string \<Rightarrow> string list" where
  "fields s = fields_aux (Suc (length s)) [] s"

section \<open>Case mapping\<close>

text \<open>
  \<open>strings.ToLower\<close> on the letters that reach ASCII: the ASCII capitals, the Kelvin sign and the
  dotted capital I. Every other rune outside ASCII maps to a rune outside ASCII; the code compares
  lowered strings only with ASCII text, so the model leaves those bytes as they are.
\<close>

definition lower_char :: "char \<Rightarrow> char" where
  "lower_char c = (if 0x41 \<le> byte c \<and> byte c \<le> 0x5A then char_of (byte c + 0x20) else c)"

fun to_lower :: "string \<Rightarrow> string" where
  "to_lower [] = []"
| "to_lower (c # cs) =
     (if prefix [CHR 0xC4, CHR 0xB0] (c # cs) then CHR ''i'' # to_lower (drop 1 cs)
      else if prefix [CHR 0xE2, CHR 0x84, CHR 0xAA] (c # cs) then CHR ''k'' # to_lower (drop 2 cs)
      else lower_char c # to_lower cs)"

section \<open>Splitting and joining\<close>

fun split_on :: "char \<Rightarrow> string \<Rightarrow> string list" where
  "split_on x [] = [[]]"
| "split_on x (c # cs) =
     (if c = x then [] # split_on x cs
      else case split_on x cs of [] \<Rightarrow> [[c]] | w # ws \<Rightarrow> (c # w) # ws)"

fun join :: "string \<Rightarrow> string list \<Rightarrow> string" where
  "join sep [] = []"
| "join sep [s] = s"
| "join sep (s # ss) = s @ sep @ join sep ss"

definition replace_char :: "char \<Rightarrow> char \<Rightarrow> string \<Rightarrow> string" where
  "replace_char x y s = map (\<lambda>c. if c = x then y else c) s"

lemma split_on_nonempty [simp]: "split_on x s \<noteq> []"
  by (cases s) (auto split: list.splits)

lemma join_split_on: "join [x] (split_on x s) = s"
proof (induction s)
  case (Cons c cs)
  obtain w ws where "split_on x cs = w # ws" by (cases "split_on x cs") auto
  with Cons show ?case by (cases ws) auto
qed simp

lemma split_on_parts: "w \<in> set (split_on x s) \<Longrightarrow> x \<notin> set w"
proof (induction s arbitrary: w)
  case (Cons c cs)
  then show ?case by (cases "split_on x cs") (auto split: if_splits)
qed simp

lemma replace_char_gone: "x \<noteq> y \<Longrightarrow> x \<notin> set (replace_char x y s)"
  by (auto simp: replace_char_def)

lemma replace_char_other: "z \<notin> set s \<Longrightarrow> z \<noteq> y \<Longrightarrow> z \<notin> set (replace_char x y s)"
  by (auto simp: replace_char_def)

lemma length_replace_char [simp]: "length (replace_char x y s) = length s"
  by (simp add: replace_char_def)

section \<open>Integers in decimal\<close>

definition digit_char :: "nat \<Rightarrow> char" where
  "digit_char d = char_of (0x30 + d)"

fun show_nat :: "nat \<Rightarrow> string" where
  "show_nat n = (if n < 10 then [digit_char n] else show_nat (n div 10) @ [digit_char (n mod 10)])"

declare show_nat.simps [simp del]

definition show_int :: "int \<Rightarrow> string" where
  "show_int i = (if i < 0 then CHR ''-'' # show_nat (nat (- i)) else show_nat (nat i))"

text \<open>\<open>%02d\<close> of a value that is not negative.\<close>

definition show_02d :: "nat \<Rightarrow> string" where
  "show_02d n = (if n < 10 then CHR ''0'' # show_nat n else show_nat n)"

definition is_digit :: "char \<Rightarrow> bool" where
  "is_digit c \<longleftrightarrow> 0x30 \<le> byte c \<and> byte c \<le> 0x39"

definition digits_val :: "string \<Rightarrow> int" where
  "digits_val s = foldl (\<lambda>n c. 10 * n + (int (byte c) - 0x30)) 0 s"

text \<open>\<open>strconv.Atoi\<close> (and \<open>ParseInt(s, 10, 64)\<close>): optional sign, digits only, signed 64-bit range.\<close>

definition atoi :: "string \<Rightarrow> int option" where
  "atoi s =
     (let neg = prefix ''-'' s; d = (if prefix ''-'' s \<or> prefix ''+'' s then tl s else s)
      in if d = [] \<or> \<not> list_all is_digit d then None
         else let v = (if neg then - digits_val d else digits_val d)
              in if - (2 ^ 63) \<le> v \<and> v < 2 ^ 63 then Some v else None)"

lemma byte_char_of [simp]: "n < 256 \<Longrightarrow> byte (char_of n) = n"
  by (simp add: take_bit_nat_def)

lemma digit_char_digit [simp]: "d < 10 \<Longrightarrow> is_digit (digit_char d)"
  by (simp add: is_digit_def digit_char_def take_bit_nat_def)

lemma byte_digit_char [simp]: "d < 10 \<Longrightarrow> byte (digit_char d) = 0x30 + d"
  by (simp add: digit_char_def take_bit_nat_def)

lemma digits_val_snoc: "digits_val (s @ [c]) = 10 * digits_val s + (int (byte c) - 0x30)"
  by (simp add: digits_val_def)

lemma show_nat_digits: "show_nat n \<noteq> [] \<and> list_all is_digit (show_nat n)"
proof (induction n rule: show_nat.induct)
  case (1 n)
  then show ?case by (subst (1 2) show_nat.simps) auto
qed

lemma digits_val_show_nat: "digits_val (show_nat n) = int n"
proof (induction n rule: show_nat.induct)
  case (1 n)
  show ?case
  proof (cases "n < 10")
    case True
    then show ?thesis by (subst show_nat.simps) (simp add: digits_val_def)
  next
    case False
    with 1 have ih: "digits_val (show_nat (n div 10)) = int (n div 10)" by simp
    have "int n = 10 * int (n div 10) + int (n mod 10)"
      by (metis mult_div_mod_eq of_nat_add of_nat_mult of_nat_numeral)
    with False ih show ?thesis by (subst show_nat.simps) (simp add: digits_val_snoc)
  qed
qed

lemma is_digit_no_sign: "list_all is_digit s \<Longrightarrow> \<not> prefix ''-'' s \<and> \<not> prefix ''+'' s"
  by (cases s) (auto simp: is_digit_def)

lemma atoi_show_int: "- (2 ^ 63) \<le> i \<Longrightarrow> i < 2 ^ 63 \<Longrightarrow> atoi (show_int i) = Some i"
  using show_nat_digits [of "nat i"] show_nat_digits [of "nat (- i)"]
    is_digit_no_sign [of "show_nat (nat i)"]
  by (auto simp: atoi_def show_int_def digits_val_show_nat Let_def)

lemma atoi_range: "atoi s = Some i \<Longrightarrow> - (2 ^ 63) \<le> i \<and> i < 2 ^ 63"
  by (auto simp: atoi_def Let_def split: if_splits)

section \<open>\<open>fmt\<close>'s \<open>%.nf\<close>\<close>

text \<open>The exact value is rounded to \<open>n\<close> decimals, ties to even, as \<open>strconv.FormatFloat\<close> does.\<close>

fun zero_pad :: "nat \<Rightarrow> string \<Rightarrow> string" where
  "zero_pad n s = replicate (n - length s) (CHR ''0'') @ s"

definition fmt_fixed :: "nat \<Rightarrow> rat \<Rightarrow> string" where
  "fmt_fixed prec q =
     (let n = nat (rhe (q * 10 ^ prec)); p = 10 ^ prec
      in show_nat (n div p) @ (if prec = 0 then [] else CHR ''.'' # zero_pad prec (show_nat (n mod p))))"

fun fmt_f :: "nat \<Rightarrow> f64 \<Rightarrow> string" where
  "fmt_f prec NaN = ''NaN''"
| "fmt_f prec PInf = ''+Inf''"
| "fmt_f prec NInf = ''-Inf''"
| "fmt_f prec (Fin q) = (if q < 0 then CHR ''-'' # fmt_fixed prec (- q) else fmt_fixed prec q)"

section \<open>\<open>time.Duration\<close> in text\<close>

definition show_frac :: "nat \<Rightarrow> nat \<Rightarrow> string" where
  "show_frac prec v =
     (let f = rev (dropWhile (\<lambda>c. c = CHR ''0'') (rev (zero_pad prec (show_nat (v mod 10 ^ prec)))))
      in if f = [] then [] else CHR ''.'' # f)"

definition show_duration :: "duration \<Rightarrow> string" where
  "show_duration d =
     (let u = nat \<bar>d\<bar> in
      if u = 0 then ''0s''
      else (if d < 0 then ''-'' else []) @
        (if u < 1000 then show_nat u @ ''ns''
         else if u < 1000000 then show_nat (u div 1000) @ show_frac 3 u @ [CHR 0xC2, CHR 0xB5] @ ''s''
         else if u < 1000000000 then show_nat (u div 1000000) @ show_frac 6 u @ ''ms''
         else let s = u div 1000000000; m = s div 60; h = m div 60;
                  sec = show_nat (s mod 60) @ show_frac 9 u @ ''s''
              in if m = 0 then sec
                 else if h = 0 then show_nat (m mod 60) @ ''m'' @ sec
                 else show_nat h @ ''h'' @ show_nat (m mod 60) @ ''m'' @ sec))"

end
