(* ===== verification/JX_Circuit.thy ===== *)
theory JX_Circuit
  imports JX_Strings
begin

text \<open>
  \<open>runtime/llm/circuit_breaker.go\<close>: the breaker that guards every call to Ollama and Qdrant. Each
  method holds the breaker's mutex for its whole body, so concurrent callers amount to a sequence of
  whole method calls; \<open>cb_run\<close> executes such a sequence. The locale \<open>breaker\<close> states what the callers
  (\<open>JX_Ollama\<close>, \<open>JX_Qdrant\<close>) rely on and is interpreted on the model at the end.
\<close>

section \<open>State and operations\<close>

datatype circuit_state = StateClosed | StateOpen | StateHalfOpen

fun circuit_state_string :: "circuit_state \<Rightarrow> string" where
  "circuit_state_string StateClosed = ''closed''"
| "circuit_state_string StateOpen = ''open''"
| "circuit_state_string StateHalfOpen = ''half-open''"

record circuit_breaker =
  cb_maxFailures :: int
  cb_resetTimeout :: duration
  cb_state :: circuit_state
  cb_failures :: int
  cb_lastFailure :: time
  cb_successes :: int

datatype cb_error = ErrCircuitOpen

definition new_circuit_breaker :: "int \<Rightarrow> duration \<Rightarrow> circuit_breaker" where
  "new_circuit_breaker mx timeout =
     \<lparr>cb_maxFailures = mx, cb_resetTimeout = timeout, cb_state = StateClosed,
      cb_failures = 0, cb_lastFailure = 0, cb_successes = 0\<rparr>"

definition default_circuit_breaker :: circuit_breaker where
  "default_circuit_breaker = new_circuit_breaker 3 (30 * second)"

text \<open>\<open>Allow\<close>: \<open>None\<close> is Go's nil error.\<close>

definition cb_allow :: "time \<Rightarrow> circuit_breaker \<Rightarrow> cb_error option \<times> circuit_breaker" where
  "cb_allow now cb =
     (case cb_state cb of
        StateClosed \<Rightarrow> (None, cb)
      | StateOpen \<Rightarrow>
          if cb_resetTimeout cb \<le> time_sub now (cb_lastFailure cb)
          then (None, cb\<lparr>cb_state := StateHalfOpen, cb_successes := 0\<rparr>)
          else (Some ErrCircuitOpen, cb)
      | StateHalfOpen \<Rightarrow> (None, cb))"

definition cb_record_success :: "circuit_breaker \<Rightarrow> circuit_breaker" where
  "cb_record_success cb0 =
     (let cb = cb0\<lparr>cb_failures := 0\<rparr>
      in if cb_state cb = StateHalfOpen
         then let cb' = cb\<lparr>cb_successes := cb_successes cb + 1\<rparr>
              in if 1 \<le> cb_successes cb' then cb'\<lparr>cb_state := StateClosed\<rparr> else cb'
         else cb)"

definition cb_record_failure :: "time \<Rightarrow> circuit_breaker \<Rightarrow> circuit_breaker" where
  "cb_record_failure now cb0 =
     (let cb = cb0\<lparr>cb_failures := cb_failures cb0 + 1, cb_lastFailure := now\<rparr>
      in case cb_state cb of
           StateClosed \<Rightarrow>
             if cb_maxFailures cb \<le> cb_failures cb then cb\<lparr>cb_state := StateOpen\<rparr> else cb
         | StateHalfOpen \<Rightarrow> cb\<lparr>cb_state := StateOpen, cb_successes := 0\<rparr>
         | StateOpen \<Rightarrow> cb)"

record circuit_stats =
  cs_State :: string
  cs_Failures :: int
  cs_MaxFailures :: int

definition cb_stats :: "circuit_breaker \<Rightarrow> circuit_stats" where
  "cb_stats cb =
     \<lparr>cs_State = circuit_state_string (cb_state cb), cs_Failures = cb_failures cb,
      cs_MaxFailures = cb_maxFailures cb\<rparr>"

text \<open>A call of a method, and a run of calls. The answers of \<open>Allow\<close> are collected.\<close>

datatype cb_event = EAllow time | ESuccess | EFailure time

fun cb_step :: "circuit_breaker \<Rightarrow> cb_event \<Rightarrow> circuit_breaker" where
  "cb_step cb (EAllow now) = snd (cb_allow now cb)"
| "cb_step cb ESuccess = cb_record_success cb"
| "cb_step cb (EFailure now) = cb_record_failure now cb"

definition cb_run :: "circuit_breaker \<Rightarrow> cb_event list \<Rightarrow> circuit_breaker" where
  "cb_run cb es = foldl cb_step cb es"

lemmas cb_op_defs = cb_allow_def cb_record_success_def cb_record_failure_def

section \<open>The invariant\<close>

definition cb_inv :: "circuit_breaker \<Rightarrow> bool" where
  "cb_inv cb \<longleftrightarrow> 0 \<le> cb_failures cb
     \<and> (cb_state cb = StateClosed \<longrightarrow> cb_failures cb = 0 \<or> cb_failures cb < cb_maxFailures cb)
     \<and> (cb_state cb = StateHalfOpen \<longrightarrow> cb_successes cb = 0)"

lemma cb_inv_new: "cb_inv (new_circuit_breaker mx t)"
  by (simp add: cb_inv_def new_circuit_breaker_def)

lemma cb_inv_step: "cb_inv cb \<Longrightarrow> cb_inv (cb_step cb e)"
  by (cases e) (auto simp: cb_inv_def cb_op_defs Let_def split: circuit_state.splits)

lemma cb_inv_run: "cb_inv cb \<Longrightarrow> cb_inv (cb_run cb es)"
  unfolding cb_run_def by (rule foldl_inv) (auto intro: cb_inv_step)

lemma cb_config_step [simp]:
  "cb_maxFailures (cb_step cb e) = cb_maxFailures cb"
  "cb_resetTimeout (cb_step cb e) = cb_resetTimeout cb"
  by (cases e; simp add: cb_op_defs Let_def split: circuit_state.splits)+

lemma cb_config_run [simp]:
  "cb_maxFailures (cb_run cb es) = cb_maxFailures cb"
  "cb_resetTimeout (cb_run cb es) = cb_resetTimeout cb"
  by (induction es arbitrary: cb) (simp_all add: cb_run_def)

lemma cb_run_Nil [simp]: "cb_run cb [] = cb"
  by (simp add: cb_run_def)

lemma cb_run_snoc [simp]: "cb_run cb (es @ [e]) = cb_step (cb_run cb es) e"
  by (simp add: cb_run_def)

lemma cb_run_Cons: "cb_run cb (e # es) = cb_run (cb_step cb e) es"
  by (simp add: cb_run_def)

section \<open>The failure counter counts failures since the last success\<close>

definition failures_in_row :: "cb_event list \<Rightarrow> nat" where
  "failures_in_row es =
     length (filter (\<lambda>e. case e of EFailure _ \<Rightarrow> True | _ \<Rightarrow> False)
       (takeWhile (\<lambda>e. e \<noteq> ESuccess) (rev es)))"

lemma failures_in_row_Nil [simp]: "failures_in_row [] = 0"
  by (simp add: failures_in_row_def)

lemma failures_in_row_snoc [simp]:
  "failures_in_row (es @ [e]) =
     (case e of ESuccess \<Rightarrow> 0 | EFailure _ \<Rightarrow> Suc (failures_in_row es) | EAllow _ \<Rightarrow> failures_in_row es)"
  by (cases e) (simp_all add: failures_in_row_def)

lemma cb_failures_run:
  "cb_failures (cb_run (new_circuit_breaker mx t) es) = int (failures_in_row es)"
proof (induction es rule: rev_induct)
  case (snoc e es)
  then show ?case
    by (cases e) (auto simp: cb_op_defs Let_def split: circuit_state.splits)
qed (simp add: new_circuit_breaker_def)

text \<open>A breaker that is not closed has seen its quota of consecutive failures at some moment.\<close>

lemma cb_open_needs_failures:
  "cb_state (cb_run (new_circuit_breaker mx t) es) \<noteq> StateClosed \<Longrightarrow>
     \<exists>ps. prefix ps es \<and> mx \<le> int (failures_in_row ps) \<and> 0 < failures_in_row ps"
proof (induction es rule: rev_induct)
  case Nil
  then show ?case by (simp add: new_circuit_breaker_def)
next
  case (snoc e es)
  let ?cb = "cb_run (new_circuit_breaker mx t) es"
  show ?case
  proof (cases "cb_state ?cb = StateClosed")
    case False
    with snoc.IH obtain ps where "prefix ps es" "mx \<le> int (failures_in_row ps)" "0 < failures_in_row ps"
      by blast
    then show ?thesis by (meson prefix_prefix)
  next
    case True
    with snoc.prems obtain now where e: "e = EFailure now" and "mx \<le> cb_failures ?cb + 1"
      by (cases e) (auto simp: cb_op_defs Let_def new_circuit_breaker_def split: if_splits)
    then have "mx \<le> int (failures_in_row (es @ [e]))" by (simp add: cb_failures_run)
    with e show ?thesis by (intro exI [of _ "es @ [e]"]) auto
  qed
qed

lemma cb_failures_trip:
  "cb_state cb = StateClosed \<Longrightarrow> cb_failures cb = 0 \<Longrightarrow> ts \<noteq> [] \<Longrightarrow> cb_maxFailures cb \<le> int (length ts) \<Longrightarrow>
     cb_state (cb_run cb (map EFailure ts)) = StateOpen"
proof -
  assume c: "cb_state cb = StateClosed" "cb_failures cb = 0" and ne: "ts \<noteq> []"
    and len: "cb_maxFailures cb \<le> int (length ts)"
  have "cb_failures (cb_run cb (map EFailure ts)) = int (length ts)
      \<and> (cb_state (cb_run cb (map EFailure ts)) =
          (if ts = [] \<or> int (length ts) < cb_maxFailures cb then StateClosed else StateOpen))"
  proof (induction ts rule: rev_induct)
    case (snoc t ts)
    let ?cb = "cb_run cb (map EFailure ts)"
    have m: "cb_maxFailures ?cb = cb_maxFailures cb" by simp
    from snoc m show ?case
      by (auto simp: cb_record_failure_def Let_def split: circuit_state.splits if_splits)
  qed (simp add: c)
  with ne len show ?thesis by auto
qed

lemma cb_failures_run_failures:
  "cb_failures (cb_run cb (map EFailure ts)) = cb_failures cb + int (length ts)"
  by (induction ts rule: rev_induct) (auto simp: cb_record_failure_def Let_def split: circuit_state.splits)

section \<open>The interface the callers rely on\<close>

text \<open>
  A breaker admits a call or refuses it. It refuses exactly while it is tripped and its pause has not
  elapsed, a refusal changes nothing, a success after an admitted call leaves it not tripped, and a
  failure never un-trips it.
\<close>

locale breaker =
  fixes allow :: "time \<Rightarrow> 'b \<Rightarrow> 'e option \<times> 'b"
    and success :: "'b \<Rightarrow> 'b"
    and failure :: "time \<Rightarrow> 'b \<Rightarrow> 'b"
    and tripped :: "'b \<Rightarrow> bool"
    and elapsed :: "time \<Rightarrow> 'b \<Rightarrow> bool"
  assumes refuse_iff: "fst (allow now b) \<noteq> None \<longleftrightarrow> tripped b \<and> \<not> elapsed now b"
    and refuse_same: "fst (allow now b) \<noteq> None \<Longrightarrow> snd (allow now b) = b"
    and admit_not_tripped: "fst (allow now b) = None \<Longrightarrow> \<not> tripped (snd (allow now b))"
    and success_not_tripped: "\<not> tripped b \<Longrightarrow> \<not> tripped (success b)"
    and failure_tripped: "tripped b \<Longrightarrow> tripped (failure now b)"
begin

lemma refused_calls_change_nothing:
  "tripped b \<Longrightarrow> (\<And>t. t \<in> set ts \<Longrightarrow> \<not> elapsed t b) \<Longrightarrow> foldl (\<lambda>b t. snd (allow t b)) b ts = b"
proof (induction ts)
  case (Cons t ts)
  then have "snd (allow t b) = b" using refuse_iff [of t b] by (intro refuse_same) auto
  with Cons show ?case by simp
qed simp

lemma probe_then_success_recovers:
  "elapsed now b \<Longrightarrow> fst (allow now b) = None \<and> \<not> tripped (success (snd (allow now b)))"
  using refuse_iff [of now b] admit_not_tripped success_not_tripped by auto

lemma failures_keep_tripped: "tripped b \<Longrightarrow> tripped (foldl (\<lambda>b t. failure t b) b ts)"
  by (induction ts arbitrary: b) (auto intro: failure_tripped)

end

definition cb_tripped :: "circuit_breaker \<Rightarrow> bool" where
  "cb_tripped cb \<longleftrightarrow> cb_state cb = StateOpen"

definition cb_elapsed :: "time \<Rightarrow> circuit_breaker \<Rightarrow> bool" where
  "cb_elapsed now cb \<longleftrightarrow> cb_resetTimeout cb \<le> time_sub now (cb_lastFailure cb)"

interpretation cb: breaker cb_allow cb_record_success cb_record_failure cb_tripped cb_elapsed
  by unfold_locales
    (auto simp: cb_op_defs cb_tripped_def cb_elapsed_def Let_def split: circuit_state.splits if_splits)

section \<open>Properties\<close>

text \<open>the breaker never trips early. Whatever sequence of calls a fresh breaker has seen, if it is not
  closed then at some moment the last \<open>maxFailures\<close> recorded outcomes were failures with no success
  between them.\<close>
theorem breaker_never_trips_early:
  assumes "cb_state (cb_run (new_circuit_breaker mx t) es) \<noteq> StateClosed"
  shows "\<exists>ps. prefix ps es \<and> mx \<le> int (failures_in_row ps) \<and> 0 < failures_in_row ps"
  using assms by (rule cb_open_needs_failures)

theorem breaker_never_trips_early_witness:
  "\<exists>ps. prefix ps [EFailure 1, EFailure 2] \<and> 2 \<le> int (failures_in_row ps) \<and> 0 < failures_in_row ps"
  by (rule breaker_never_trips_early [of 2 30]) (simp add: cb_run_def new_circuit_breaker_def cb_record_failure_def)



text \<open>C9: in every reachable state a closed breaker is below its quota and the counter equals the number of
  failures since the last success; the configuration never changes.\<close>
theorem breaker_invariant:
  "cb_inv (cb_run (new_circuit_breaker mx t) es)
     \<and> cb_failures (cb_run (new_circuit_breaker mx t) es) = int (failures_in_row es)
     \<and> cb_maxFailures (cb_run (new_circuit_breaker mx t) es) = mx
     \<and> cb_resetTimeout (cb_run (new_circuit_breaker mx t) es) = t"
  by (simp add: cb_inv_run cb_inv_new cb_failures_run) (simp add: new_circuit_breaker_def)

text \<open>a half-open breaker does not limit the number of trial calls: it admits every call until an
  outcome is recorded.\<close>
theorem half_open_admits_all:
  assumes "cb_state cb = StateHalfOpen"
  shows "cb_run cb (map EAllow ts) = cb \<and> cb_allow now cb = (None, cb)"
proof -
  have "foldl cb_step cb (map EAllow ts) = cb"
    using assms by (induction ts) (simp_all add: cb_allow_def)
  with assms show ?thesis by (simp add: cb_run_def cb_allow_def)
qed

theorem half_open_admits_all_witness:
  "cb_allow 7 (default_circuit_breaker\<lparr>cb_state := StateHalfOpen\<rparr>)
     = (None, default_circuit_breaker\<lparr>cb_state := StateHalfOpen\<rparr>)"
  using half_open_admits_all [of "default_circuit_breaker\<lparr>cb_state := StateHalfOpen\<rparr>" "[]" 7] by simp

end
