(* ===== verification/JX_Json.thy ===== *)
theory JX_Json
  imports JX_Strings
begin

text \<open>
  The part of Go's \<open>encoding/json\<close> that the runtime relies on to read what a model or a server sent:
  the validity check and decoding of a whole document (\<open>json.Unmarshal\<close>), with its number grammar, its
  escapes, its replacement of invalid UTF-8, its limit on nesting, and its matching of object keys to
  struct fields. Numbers keep their literal text until a field asks for a \<open>float64\<close>.

  Every step of the reader consumes input, and a byte costs at most two units of fuel (a bracket opens
  a value and its list); \<open>parse_json_fuel\<close> shows that the fuel given is enough, in that any larger amount
  yields the same answer.
\<close>

section \<open>Values\<close>

datatype json =
    JNull
  | JBool bool
  | JNum string
  | JStr string
  | JArr "json list"
  | JObj "(string \<times> json) list"

section \<open>Reading\<close>

definition json_space :: "char \<Rightarrow> bool" where
  "json_space c \<longleftrightarrow> byte c \<in> {0x20, 0x09, 0x0A, 0x0D}"

definition skip_ws :: "string \<Rightarrow> string" where
  "skip_ws s = dropWhile json_space s"

definition take_digits :: "string \<Rightarrow> string \<times> string" where
  "take_digits s = (takeWhile is_digit s, dropWhile is_digit s)"

text \<open>\<open>-? (0 | [1-9][0-9]*) (. [0-9]+)? ([eE] [+-]? [0-9]+)?\<close>; the rest of the input is returned.\<close>

definition scan_int :: "string \<Rightarrow> (string \<times> string) option" where
  "scan_int s =
     (case s of [] \<Rightarrow> None
      | c # cs \<Rightarrow>
          if c = CHR ''0'' then Some ([c], cs)
          else if is_digit c then Some (take_digits s) else None)"

definition scan_frac :: "string \<Rightarrow> (string \<times> string) option" where
  "scan_frac s =
     (if prefix ''.'' s then
        (case take_digits (tl s) of (d, r) \<Rightarrow> if d = [] then None else Some (CHR ''.'' # d, r))
      else Some ([], s))"

definition scan_exp :: "string \<Rightarrow> (string \<times> string) option" where
  "scan_exp s =
     (if prefix ''e'' s \<or> prefix ''E'' s then
        let sg = (if prefix ''+'' (tl s) \<or> prefix ''-'' (tl s) then [hd (tl s)] else []) in
        (case take_digits (drop (length sg) (tl s)) of (d, r) \<Rightarrow>
           if d = [] then None else Some (hd s # sg @ d, r))
      else Some ([], s))"

definition scan_number :: "string \<Rightarrow> (string \<times> string) option" where
  "scan_number s =
     (let sg = (if prefix ''-'' s then ''-'' else []) in
      case scan_int (drop (length sg) s) of None \<Rightarrow> None
      | Some (i, r1) \<Rightarrow> (case scan_frac r1 of None \<Rightarrow> None
         | Some (f, r2) \<Rightarrow> (case scan_exp r2 of None \<Rightarrow> None
            | Some (e, r3) \<Rightarrow> Some (sg @ i @ f @ e, r3))))"

subsection \<open>Strings\<close>

definition hex_val :: "char \<Rightarrow> nat option" where
  "hex_val c =
     (let b = byte c in
      if 0x30 \<le> b \<and> b \<le> 0x39 then Some (b - 0x30)
      else if 0x61 \<le> b \<and> b \<le> 0x66 then Some (b - 0x61 + 10)
      else if 0x41 \<le> b \<and> b \<le> 0x46 then Some (b - 0x41 + 10) else None)"

fun hex4 :: "string \<Rightarrow> (nat \<times> string) option" where
  "hex4 (a # b # c # d # r) =
     (case (hex_val a, hex_val b, hex_val c, hex_val d) of
        (Some w, Some x, Some y, Some z) \<Rightarrow> Some (((w * 16 + x) * 16 + y) * 16 + z, r)
      | _ \<Rightarrow> None)"
| "hex4 _ = None"

text \<open>\<open>utf8.AppendRune\<close> of a code point; the replacement character stands for invalid input.\<close>

definition utf8_encode :: "nat \<Rightarrow> string" where
  "utf8_encode u =
     (if u < 0x80 then [char_of u]
      else if u < 0x800 then [char_of (0xC0 + u div 64), char_of (0x80 + u mod 64)]
      else if u < 0x10000 then
        [char_of (0xE0 + u div 4096), char_of (0x80 + u div 64 mod 64), char_of (0x80 + u mod 64)]
      else [char_of (0xF0 + u div 262144), char_of (0x80 + u div 4096 mod 64),
            char_of (0x80 + u div 64 mod 64), char_of (0x80 + u mod 64)])"

abbreviation replacement :: string where "replacement \<equiv> [CHR 0xEF, CHR 0xBF, CHR 0xBD]"

text \<open>
  One escape after the backslash: the bytes it denotes and the rest. A \<open>\\u\<close> escape in the surrogate
  range joins with a following \<open>\\u\<close> low surrogate, and is the replacement character otherwise.
\<close>

definition scan_u :: "string \<Rightarrow> (string \<times> string) option" where
  "scan_u s =
     (case hex4 s of None \<Rightarrow> None
      | Some (u, r) \<Rightarrow>
          if 0xD800 \<le> u \<and> u < 0xE000 then
            (case (if prefix [CHR 0x5C, CHR ''u''] r then hex4 (drop 2 r) else None) of
               Some (v, r') \<Rightarrow>
                 if u < 0xDC00 \<and> 0xDC00 \<le> v \<and> v < 0xE000
                 then Some (utf8_encode ((u - 0xD800) * 1024 + (v - 0xDC00) + 0x10000), r')
                 else Some (replacement, r)
             | None \<Rightarrow> Some (replacement, r))
          else Some (utf8_encode u, r))"

definition scan_escape :: "string \<Rightarrow> (string \<times> string) option" where
  "scan_escape s =
     (case s of [] \<Rightarrow> None
      | c # r \<Rightarrow>
          if c = CHR 0x22 \<or> c = CHR 0x5C \<or> c = CHR ''/'' then Some ([c], r)
          else if c = CHR ''b'' then Some ([CHR 0x08], r)
          else if c = CHR ''f'' then Some ([CHR 0x0C], r)
          else if c = CHR ''n'' then Some ([CHR 0x0A], r)
          else if c = CHR ''r'' then Some ([CHR 0x0D], r)
          else if c = CHR ''t'' then Some ([CHR 0x09], r)
          else if c = CHR ''u'' then scan_u r
          else None)"

text \<open>The body of a string literal, after the opening quote; bytes of invalid UTF-8 are replaced.\<close>

fun scan_string :: "nat \<Rightarrow> string \<Rightarrow> (string \<times> string) option" where
  "scan_string 0 s = None"
| "scan_string (Suc n) s =
     (case s of [] \<Rightarrow> None
      | c # r \<Rightarrow>
          if c = CHR 0x22 then Some ([], r)
          else if c = CHR 0x5C then
            (case scan_escape r of None \<Rightarrow> None
             | Some (e, r') \<Rightarrow> map_option (\<lambda>(t, q). (e @ t, q)) (scan_string n r'))
          else if byte c < 0x20 then None
          else let k = rune_len s;
                   e = (if k = 1 \<and> 0x80 \<le> byte c then replacement else take k s)
               in map_option (\<lambda>(t, q). (e @ t, q)) (scan_string n (drop k s)))"

subsection \<open>Documents\<close>

definition max_nesting :: nat where
  "max_nesting = 10000"

fun parse_value :: "nat \<Rightarrow> nat \<Rightarrow> string \<Rightarrow> (json \<times> string) option"
  and parse_elems :: "nat \<Rightarrow> nat \<Rightarrow> string \<Rightarrow> (json list \<times> string) option"
  and parse_members :: "nat \<Rightarrow> nat \<Rightarrow> string \<Rightarrow> ((string \<times> json) list \<times> string) option"
where
  "parse_value 0 depth s = None"
| "parse_value (Suc n) depth s0 =
     (let s = skip_ws s0 in
      case s of [] \<Rightarrow> None
      | c # r \<Rightarrow>
          if c = CHR ''{'' then
            if max_nesting \<le> depth then None
            else if prefix ''}'' (skip_ws r) then Some (JObj [], tl (skip_ws r))
            else map_option (\<lambda>(ms, q). (JObj ms, q)) (parse_members n (Suc depth) r)
          else if c = CHR ''['' then
            if max_nesting \<le> depth then None
            else if prefix '']'' (skip_ws r) then Some (JArr [], tl (skip_ws r))
            else map_option (\<lambda>(es, q). (JArr es, q)) (parse_elems n (Suc depth) r)
          else if c = CHR 0x22 then map_option (\<lambda>(t, q). (JStr t, q)) (scan_string (Suc (length r)) r)
          else if prefix ''true'' s then Some (JBool True, drop 4 s)
          else if prefix ''false'' s then Some (JBool False, drop 5 s)
          else if prefix ''null'' s then Some (JNull, drop 4 s)
          else map_option (\<lambda>(t, q). (JNum t, q)) (scan_number s))"
| "parse_elems 0 depth s = None"
| "parse_elems (Suc n) depth s =
     (case parse_value n depth s of None \<Rightarrow> None
      | Some (v, r) \<Rightarrow>
          (case skip_ws r of [] \<Rightarrow> None
           | c # q \<Rightarrow>
               if c = CHR '','' then map_option (\<lambda>(vs, q'). (v # vs, q')) (parse_elems n depth q)
               else if c = CHR '']'' then Some ([v], q) else None))"
| "parse_members 0 depth s = None"
| "parse_members (Suc n) depth s =
     (case skip_ws s of [] \<Rightarrow> None
      | c0 # r0 \<Rightarrow>
        if c0 \<noteq> CHR 0x22 then None
        else (case scan_string (Suc (length r0)) r0 of None \<Rightarrow> None
        | Some (k, r1) \<Rightarrow>
            if \<not> prefix '':'' (skip_ws r1) then None
            else (case parse_value n depth (tl (skip_ws r1)) of None \<Rightarrow> None
            | Some (v, r) \<Rightarrow>
                (case skip_ws r of [] \<Rightarrow> None
                 | c # q \<Rightarrow>
                     if c = CHR '','' then map_option (\<lambda>(ms, q'). ((k, v) # ms, q')) (parse_members n depth q)
                     else if c = CHR ''}'' then Some ([(k, v)], q) else None))))"

text \<open>\<open>json.Unmarshal\<close> accepts exactly one value with nothing but white space after it.\<close>

definition parse_json :: "string \<Rightarrow> json option" where
  "parse_json s =
     (case parse_value (2 * length s + 2) 0 s of
        Some (v, r) \<Rightarrow> if skip_ws r = [] then Some v else None
      | None \<Rightarrow> None)"

section \<open>Every step consumes input\<close>

lemma skip_ws_length: "length (skip_ws s) \<le> length s"
  by (simp add: skip_ws_def length_dropWhile_le)

lemma skip_ws_Cons: "skip_ws s = c # r \<Longrightarrow> length r < length s"
  using skip_ws_length [of s] by simp

lemma hex4_length: "hex4 s = Some (u, r) \<Longrightarrow> length r < length s"
  by (cases s rule: hex4.cases) (auto split: option.splits)

lemma scan_u_length: "scan_u s = Some (t, r) \<Longrightarrow> length r < length s"
proof -
  assume a: "scan_u s = Some (t, r)"
  then obtain u r1 where h: "hex4 s = Some (u, r1)" by (auto simp: scan_u_def split: option.splits)
  have "r = r1 \<or> (\<exists>v. hex4 (drop 2 r1) = Some (v, r))"
    using a h by (auto simp: scan_u_def split: option.splits if_splits)
  then have "length r \<le> length r1" by (auto dest!: hex4_length)
  with hex4_length [OF h] show ?thesis by simp
qed

lemma scan_escape_length: "scan_escape s = Some (t, r) \<Longrightarrow> length r < length s"
  by (auto simp: scan_escape_def split: list.splits if_splits dest: scan_u_length)

lemma scan_string_length: "scan_string n s = Some (t, q) \<Longrightarrow> length q < length s"
proof (induction n arbitrary: s t q)
  case (Suc n)
  obtain c r where s: "s = c # r" using Suc.prems by (cases s) auto
  consider "c = CHR 0x22" | "c = CHR 0x5C" | "c \<noteq> CHR 0x22" "c \<noteq> CHR 0x5C" by blast
  then show ?case
  proof cases
    case 2
    with Suc.prems s obtain e r' t' where e: "scan_escape r = Some (e, r')"
      and "scan_string n r' = Some (t', q)" by (auto split: option.splits)
    with Suc.IH have "length q < length r'" by blast
    with scan_escape_length [OF e] s show ?thesis by simp
  next
    case 3
    with Suc.prems s obtain t' where "scan_string n (drop (rune_len s) s) = Some (t', q)"
      by (auto simp: Let_def split: if_splits)
    with Suc.IH have "length q < length (drop (rune_len s) s)" by blast
    then show ?thesis by simp
  qed (use Suc.prems s in auto)
qed simp

lemma take_digits_length: "take_digits s = (d, r) \<Longrightarrow> length s = length d + length r"
  unfolding take_digits_def by (metis length_append prod.inject takeWhile_dropWhile_id)

lemma scan_int_length: "scan_int s = Some (i, r) \<Longrightarrow> length r < length s"
  by (cases s) (auto simp: scan_int_def take_digits_def le_imp_less_Suc length_dropWhile_le split: if_splits)

lemma scan_number_length: "scan_number s = Some (t, r) \<Longrightarrow> length r < length s"
proof -
  assume a: "scan_number s = Some (t, r)"
  let ?s = "drop (length (if prefix ''-'' s then ''-'' else [])) s"
  obtain i r1 f r2 e where si: "scan_int ?s = Some (i, r1)" and sf: "scan_frac r1 = Some (f, r2)"
    and se: "scan_exp r2 = Some (e, r)"
    using a unfolding scan_number_def Let_def by (auto split: option.splits prod.splits)
  have "length r1 < length ?s" using si by (rule scan_int_length)
  moreover have "length r2 \<le> length r1"
    using sf take_digits_length [of "tl r1"]
    by (auto simp: scan_frac_def split: prod.splits if_splits)
  moreover have "length r \<le> length r2"
  proof (cases "prefix ''e'' r2 \<or> prefix ''E'' r2")
    case True
    with se have "\<exists>k d. take_digits (drop k (tl r2)) = (d, r)"
      by (auto simp: scan_exp_def Let_def simp del: drop_Suc split: prod.splits if_splits intro: exI [of _ 0] exI [of _ 1])
    then obtain k d where "take_digits (drop k (tl r2)) = (d, r)" by blast
    from take_digits_length [OF this] show ?thesis by simp
  next
    case False
    with se show ?thesis by (auto simp: scan_exp_def)
  qed
  ultimately show ?thesis by simp
qed

lemma parse_consumes:
  "parse_value n d s = Some (v, r) \<Longrightarrow> length r < length s"
  "parse_elems n d s = Some (vs, r) \<Longrightarrow> length r < length s"
  "parse_members n d s = Some (ms, r) \<Longrightarrow> length r < length s"
proof (induction n d s and n d s and n d s arbitrary: v r and vs r and ms r
    rule: parse_value_parse_elems_parse_members.induct)
  case (2 n d s0)
  obtain c q where s: "skip_ws s0 = c # q" using "2.prems" by (cases "skip_ws s0") auto
  have len: "length q < length s0" using s by (rule skip_ws_Cons)
  have tl: "length (tl (skip_ws q)) \<le> length q" using skip_ws_length [of q] by simp
  consider "c = CHR ''{''" | "c = CHR ''[''" | "c = CHR 0x22"
    | "c \<noteq> CHR ''{''" "c \<noteq> CHR ''[''" "c \<noteq> CHR 0x22" by blast
  then show ?case
  proof cases
    case 1
    with "2.prems" s tl len "2.IH"(1) [OF refl s 1] show ?thesis
      by (auto split: if_splits)
  next
    case 2
    with "2.prems" s tl len "2.IH"(2) [OF refl s _ 2] show ?thesis
      by (auto split: if_splits)
  next
    case 3
    with "2.prems" s obtain t where "scan_string (Suc (length q)) q = Some (t, r)"
      by (auto simp del: scan_string.simps)
    from scan_string_length [OF this] len show ?thesis by simp
  next
    case 4
    have "parse_value (Suc n) d s0 =
        (if prefix ''true'' (c # q) then Some (JBool True, drop 4 (c # q))
         else if prefix ''false'' (c # q) then Some (JBool False, drop 5 (c # q))
         else if prefix ''null'' (c # q) then Some (JNull, drop 4 (c # q))
         else map_option (\<lambda>(t, q). (JNum t, q)) (scan_number (c # q)))"
      using 4 by (simp only: parse_value.simps s Let_def list.case if_False)
    with "2.prems" have "r = drop 4 (c # q) \<or> r = drop 5 (c # q) \<or> (\<exists>t. scan_number (c # q) = Some (t, r))"
      by (simp only: split: if_splits) auto
    then have "length r < length (c # q)" by (auto dest: scan_number_length)
    with s skip_ws_length [of s0] show ?thesis by simp
  qed
next
  case (4 n d s)
  obtain x r1 where x: "parse_value n d s = Some (x, r1)"
    using "4.prems" by (cases "parse_value n d s") auto
  obtain c q where q: "skip_ws r1 = c # q" using "4.prems" x by (cases "skip_ws r1") auto
  have l: "length q < length s" using "4.IH"(1) [OF x] skip_ws_Cons [OF q] by simp
  show ?case
  proof (cases "c = CHR '',''")
    case True
    with "4.prems" x q obtain ws where "parse_elems n d q = Some (ws, r)" by auto
    from "4.IH"(2) [OF x _ q True this] l show ?thesis by simp
  next
    case False
    with "4.prems" x q l show ?thesis by (auto split: if_splits)
  qed
next
  case (6 n d s)
  obtain c0 r0 where s: "skip_ws s = c0 # r0" and c0: "c0 = CHR 0x22"
    using "6.prems" by (cases "skip_ws s") (auto split: if_splits)
  with "6.prems" obtain k r1 where k: "scan_string (Suc (length r0)) r0 = Some (k, r1)"
    by (auto split: option.splits)
  with "6.prems" s c0 have colon: "prefix '':'' (skip_ws r1)" by (auto split: if_splits)
  with "6.prems" s c0 k obtain x r2 where x: "parse_value n d (tl (skip_ws r1)) = Some (x, r2)"
    by (auto split: option.splits)
  have l2: "length r2 < length s"
    using "6.IH"(1) [OF s _ k _ _ x] c0 colon skip_ws_Cons [OF s] scan_string_length [OF k]
      skip_ws_length [of r1] by (auto simp: prefix_def)
  obtain c q where q: "skip_ws r2 = c # q"
    using "6.prems" s c0 k colon x by (cases "skip_ws r2") auto
  have l: "length q < length s" using l2 skip_ws_Cons [OF q] by simp
  show ?case
  proof (cases "c = CHR '',''")
    case True
    with "6.prems" s c0 k colon x q obtain ws where "parse_members n d q = Some (ws, r)" by auto
    then have "length r < length q"
      using "6.IH"(2) [OF s _ k refl _ x refl q True] c0 colon by simp
    with l show ?thesis by simp
  next
    case False
    with "6.prems" s c0 k colon x q l show ?thesis by (auto split: if_splits)
  qed
qed auto

section \<open>The fuel is enough\<close>

lemma parse_fuel:
  "2 * length s + 1 \<le> n \<Longrightarrow> 2 * length s + 1 \<le> m \<Longrightarrow> parse_value n d s = parse_value m d s"
  "2 * length s + 2 \<le> n \<Longrightarrow> 2 * length s + 2 \<le> m \<Longrightarrow> parse_elems n d s = parse_elems m d s"
  "2 * length s + 2 \<le> n \<Longrightarrow> 2 * length s + 2 \<le> m \<Longrightarrow> parse_members n d s = parse_members m d s"
proof (induction n d s and n d s and n d s arbitrary: m and m and m
    rule: parse_value_parse_elems_parse_members.induct)
  case (2 n d s0)
  obtain m' where m: "m = Suc m'" using "2.prems" by (cases m) auto
  show ?case
  proof (cases "skip_ws s0")
    case Nil
    then show ?thesis by (simp add: m)
  next
    case (Cons c q)
    have q: "2 * length q + 2 \<le> n" "2 * length q + 2 \<le> m'"
      using "2.prems" skip_ws_Cons [OF Cons] m by simp_all
    have "c = CHR ''{'' \<Longrightarrow> \<not> max_nesting \<le> d \<Longrightarrow> \<not> prefix ''}'' (skip_ws q) \<Longrightarrow>
        parse_members n (Suc d) q = parse_members m' (Suc d) q"
      using "2.IH"(1) [OF refl Cons _ _ _ q] by blast
    moreover have "c = CHR ''['' \<Longrightarrow> \<not> max_nesting \<le> d \<Longrightarrow> \<not> prefix '']'' (skip_ws q) \<Longrightarrow>
        parse_elems n (Suc d) q = parse_elems m' (Suc d) q"
      using "2.IH"(2) [OF refl Cons _ _ _ _ q] by auto
    ultimately show ?thesis
      unfolding m parse_value.simps Cons Let_def list.case by (auto simp del: scan_string.simps)
  qed
next
  case (4 n d s)
  obtain m' where m: "m = Suc m'" using "4.prems" by (cases m) auto
  have v: "parse_value n d s = parse_value m' d s"
    using "4.prems" m by (intro "4.IH"(1)) auto
  show ?case
  proof (cases "parse_value n d s")
    case (Some xr)
    obtain x r1 where x: "parse_value n d s = Some (x, r1)" using Some by (cases xr) auto
    show ?thesis
    proof (cases "skip_ws r1")
      case (Cons c q)
      have q: "2 * length q + 2 \<le> n" "2 * length q + 2 \<le> m'"
        using "4.prems" parse_consumes(1) [OF x] skip_ws_Cons [OF Cons] m by simp_all
      have "c = CHR '','' \<Longrightarrow> parse_elems n d q = parse_elems m' d q"
        using "4.IH"(2) [OF x refl Cons _ q] by blast
      with x v Cons show ?thesis by (simp add: m)
    qed (use x v in \<open>simp add: m\<close>)
  qed (use v in \<open>simp add: m\<close>)
next
  case (6 n d s)
  obtain m' where m: "m = Suc m'" using "6.prems" by (cases m) auto
  show ?case
  proof (cases "skip_ws s")
    case s: (Cons c0 r0)
    show ?thesis
    proof (cases "c0 = CHR 0x22 \<and> (\<exists>k r1. scan_string (Suc (length r0)) r0 = Some (k, r1) \<and> prefix '':'' (skip_ws r1))")
      case True
      then obtain k r1 where c0: "c0 = CHR 0x22" and k: "scan_string (Suc (length r0)) r0 = Some (k, r1)"
        and colon: "prefix '':'' (skip_ws r1)" by blast
      have l1: "length (tl (skip_ws r1)) < length s"
        using skip_ws_length [of r1] skip_ws_Cons [OF s] scan_string_length [OF k] by simp
      then have b: "2 * length (tl (skip_ws r1)) + 1 \<le> n" "2 * length (tl (skip_ws r1)) + 1 \<le> m'"
        using "6.prems" m by simp_all
      have v: "parse_value n d (tl (skip_ws r1)) = parse_value m' d (tl (skip_ws r1))"
        using "6.IH"(1) [OF s _ k refl _ b] c0 colon by simp
      show ?thesis
      proof (cases "parse_value n d (tl (skip_ws r1))")
        case (Some xr)
        obtain x r2 where x: "parse_value n d (tl (skip_ws r1)) = Some (x, r2)"
          using Some by (cases xr) auto
        show ?thesis
        proof (cases "skip_ws r2")
          case (Cons c q)
          have q: "2 * length q + 2 \<le> n" "2 * length q + 2 \<le> m'"
            using "6.prems" parse_consumes(1) [OF x] skip_ws_Cons [OF Cons] m l1 by simp_all
          have "c = CHR '','' \<Longrightarrow> parse_members n d q = parse_members m' d q"
            using "6.IH"(2) [OF s _ k refl _ x refl Cons _ q] c0 colon by simp
          with s k c0 colon x v Cons show ?thesis by (simp add: m del: scan_string.simps)
        qed (use s k c0 colon x v in \<open>simp add: m del: scan_string.simps\<close>)
      qed (use s k c0 colon v in \<open>simp add: m del: scan_string.simps\<close>)
    qed (use s in \<open>auto simp: m simp del: scan_string.simps split: option.splits\<close>)
  qed (simp add: m)
qed auto

lemma parse_json_fuel:
  "2 * length s + 1 \<le> n \<Longrightarrow>
     parse_json s = (case parse_value n 0 s of
        Some (v, r) \<Rightarrow> if skip_ws r = [] then Some v else None | None \<Rightarrow> None)"
  unfolding parse_json_def by (subst parse_fuel(1) [of s n "2 * length s + 2"]) simp_all

end
