(* ===== verification/JX_Decision.thy ===== *)
theory JX_Decision
  imports JX_Json
begin

text \<open>
  \<open>runtime/llm/parser.go\<close>: turning the raw text of a model into a \<open>Decision\<close>. The stages are the
  source's: \<open>clean_llm_output\<close> strips fences and prose, \<open>parse_and_validate\<close> decodes the JSON document
  into the struct and applies the safety rules, \<open>extract_json\<close> is the second chance with the regular
  expression, and \<open>fallback_decision\<close> the answer when everything failed. Decoding follows
  \<open>encoding/json\<close>: fields in document order, exact name first and then a case-folded match, null leaves
  a field unchanged, and a value of the wrong type makes the whole call fail.
\<close>

section \<open>Data\<close>

record decision =
  d_Analysis :: string
  d_Action :: string
  d_Command :: string
  d_Reason :: string
  d_Confidence :: f64

definition empty_decision :: decision where
  "empty_decision = \<lparr>d_Analysis = [], d_Action = [], d_Command = [], d_Reason = [], d_Confidence = Fin 0\<rparr>"

datatype invalid_reason = NoValidJson | UnmarshalError | MissingAnalysis | InvalidAction string

datatype parse_error = ErrInvalidDecision (err_raw: string) (err_reason: invalid_reason)

definition valid_actions :: "string list" where
  "valid_actions = [''log'', ''alert'', ''suggest'', ''execute'']"

section \<open>Numbers and field names\<close>

text \<open>The rational a JSON number literal denotes, and \<open>strconv.ParseFloat\<close>, which fails on overflow.\<close>

definition exp_val :: "string \<Rightarrow> int" where
  "exp_val s =
     (if s = [] then 0
      else if prefix ''-'' (tl s) then - digits_val (tl (tl s))
      else if prefix ''+'' (tl s) then digits_val (tl (tl s))
      else digits_val (tl s))"

definition num_rat :: "string \<Rightarrow> rat" where
  "num_rat t =
     (let u = (if prefix ''-'' t then tl t else t);
          (i, r1) = take_digits u;
          (f, r2) = (if prefix ''.'' r1 then take_digits (tl r1) else ([], r1));
          q = of_int (digits_val (i @ f)) * 10 powi (exp_val r2 - int (length f))
      in if prefix ''-'' t then - q else q)"

definition json_float :: "string \<Rightarrow> f64 option" where
  "json_float t = (case rnd (num_rat t) of Fin q \<Rightarrow> Some (Fin q) | _ \<Rightarrow> None)"

text \<open>\<open>foldName\<close>: equality up to Unicode simple folding; the long s and the Kelvin sign fold to ASCII.\<close>

fun fold_name :: "string \<Rightarrow> string" where
  "fold_name [] = []"
| "fold_name (c # cs) =
     (if prefix [CHR 0xC5, CHR 0xBF] (c # cs) then CHR ''s'' # fold_name (drop 1 cs)
      else if prefix [CHR 0xE2, CHR 0x84, CHR 0xAA] (c # cs) then CHR ''k'' # fold_name (drop 2 cs)
      else lower_char c # fold_name cs)"

section \<open>Decoding into the struct\<close>

datatype field = FAnalysis | FAction | FCommand | FReason | FConfidence

definition field_names :: "(string \<times> field) list" where
  "field_names =
     [(''analysis'', FAnalysis), (''action'', FAction), (''command'', FCommand),
      (''reason'', FReason), (''confidence'', FConfidence)]"

definition find_field :: "string \<Rightarrow> field option" where
  "find_field k =
     (case map_of field_names k of Some f \<Rightarrow> Some f
      | None \<Rightarrow> map_of field_names (fold_name k))"

text \<open>A string field takes a string, ignores null and refuses everything else.\<close>

definition set_string :: "(string \<Rightarrow> decision) \<Rightarrow> decision \<Rightarrow> json \<Rightarrow> decision \<times> bool" where
  "set_string upd d v = (case v of JStr s \<Rightarrow> (upd s, True) | JNull \<Rightarrow> (d, True) | _ \<Rightarrow> (d, False))"

definition set_field :: "decision \<Rightarrow> field \<Rightarrow> json \<Rightarrow> decision \<times> bool" where
  "set_field d f v =
     (case f of
        FAnalysis \<Rightarrow> set_string (\<lambda>s. d\<lparr>d_Analysis := s\<rparr>) d v
      | FAction \<Rightarrow> set_string (\<lambda>s. d\<lparr>d_Action := s\<rparr>) d v
      | FCommand \<Rightarrow> set_string (\<lambda>s. d\<lparr>d_Command := s\<rparr>) d v
      | FReason \<Rightarrow> set_string (\<lambda>s. d\<lparr>d_Reason := s\<rparr>) d v
      | FConfidence \<Rightarrow>
          (case v of
             JNum t \<Rightarrow> (case json_float t of Some x \<Rightarrow> (d\<lparr>d_Confidence := x\<rparr>, True) | None \<Rightarrow> (d, False))
           | JNull \<Rightarrow> (d, True)
           | _ \<Rightarrow> (d, False)))"

fun decode_members :: "(string \<times> json) list \<Rightarrow> decision \<times> bool \<Rightarrow> decision \<times> bool" where
  "decode_members [] acc = acc"
| "decode_members ((k, v) # ms) (d, ok) =
     (case find_field k of
        None \<Rightarrow> decode_members ms (d, ok)
      | Some f \<Rightarrow> (case set_field d f v of (d', ok') \<Rightarrow> decode_members ms (d', ok \<and> ok')))"

definition unmarshal_decision :: "string \<Rightarrow> decision option" where
  "unmarshal_decision s =
     (case parse_json s of
        Some (JObj ms) \<Rightarrow>
          (case decode_members ms (empty_decision, True) of (d, ok) \<Rightarrow> if ok then Some d else None)
      | Some JNull \<Rightarrow> Some empty_decision
      | _ \<Rightarrow> None)"

text \<open>
  \<open>json.Unmarshal\<close> into \<open>map[string]any\<close>: any object whose numbers are representable, or null, which
  leaves the map nil.
\<close>

fun json_numbers_ok :: "json \<Rightarrow> bool" where
  "json_numbers_ok (JNum t) = (json_float t \<noteq> None)"
| "json_numbers_ok (JArr vs) = list_all json_numbers_ok vs"
| "json_numbers_ok (JObj ms) = list_all (\<lambda>(k, v). json_numbers_ok v) ms"
| "json_numbers_ok _ = True"

definition unmarshal_map :: "string \<Rightarrow> bool" where
  "unmarshal_map s =
     (case parse_json s of Some (JObj ms) \<Rightarrow> json_numbers_ok (JObj ms) | Some JNull \<Rightarrow> True | _ \<Rightarrow> False)"

section \<open>The stages of \<open>ParseDecision\<close>\<close>

definition fence :: string where "fence = [CHR 0x60, CHR 0x60, CHR 0x60]"

definition strip_before :: "string \<Rightarrow> string" where
  "strip_before s = (case index_of s ''{'' of Some i \<Rightarrow> if 0 < i then drop i s else s | None \<Rightarrow> s)"

definition strip_after :: "string \<Rightarrow> string" where
  "strip_after s =
     (case last_index s (CHR ''}'') of Some i \<Rightarrow> if i < length s - 1 then take (i + 1) s else s | None \<Rightarrow> s)"

definition clean_llm_output :: "string \<Rightarrow> string" where
  "clean_llm_output s0 =
     (let s = trim_space s0;
          s = trim_prefix s (fence @ ''json'');
          s = trim_prefix s fence;
          s = trim_suffix s fence;
          s = strip_before s;
          s = strip_after s
      in trim_space s)"

text \<open>All matches of the regular expression that accepts an object without inner braces.\<close>

function find_objects :: "string \<Rightarrow> string list" where
  "find_objects [] = []"
| "find_objects (c # cs) =
     (if c = CHR ''{'' then
        let body = takeWhile (\<lambda>x. x \<notin> set ''{}'') cs; rest = dropWhile (\<lambda>x. x \<notin> set ''{}'') cs
        in if prefix ''}'' rest then (c # body @ ''}'') # find_objects (tl rest) else find_objects cs
      else find_objects cs)"
  by pat_completeness auto
termination
proof (relation "measure length")
  fix c :: char and cs body rest :: string
  assume "rest = dropWhile (\<lambda>x. x \<notin> set ''{}'') cs"
  then have "length (tl rest) \<le> length cs"
    using length_dropWhile_le [of "\<lambda>x. x \<notin> set ''{}''" cs] by simp
  then show "(tl rest, c # cs) \<in> measure length" by simp
qed auto

definition extract_json :: "string \<Rightarrow> string option" where
  "extract_json s = find unmarshal_map (find_objects s)"

definition validate_decision :: "decision \<Rightarrow> invalid_reason + decision" where
  "validate_decision d =
     (if trim_space (d_Analysis d) = [] then Inl MissingAnalysis
      else if d_Action d \<notin> set valid_actions then Inl (InvalidAction (d_Action d))
      else if d_Action d = ''execute'' \<and> f_lt (d_Confidence d) (Fin (3 / 4))
        then Inr (d\<lparr>d_Action := ''suggest'', d_Command := []\<rparr>)
        else Inr d)"

definition parse_and_validate :: "string \<Rightarrow> invalid_reason + decision" where
  "parse_and_validate s =
     (case unmarshal_decision s of None \<Rightarrow> Inl UnmarshalError
      | Some d0 \<Rightarrow>
          let d1 = d0\<lparr>d_Action := to_lower (trim_space (d_Action d0))\<rparr>;
              d2 = (if f_eq (d_Confidence d1) (Fin 0) then d1\<lparr>d_Confidence := Fin (1 / 2)\<rparr> else d1)
          in validate_decision d2)"

definition fallback_decision :: "string \<Rightarrow> decision" where
  "fallback_decision raw =
     \<lparr>d_Analysis = ''Impossible d'analyser la r'' @ e_acute @ ''ponse LLM'',
      d_Action = ''log'', d_Command = [],
      d_Reason = ''Fallback '' @ em_dash @ '' r'' @ e_acute @ ''ponse brute : '' @ take_runes 80 raw,
      d_Confidence = Fin 0\<rparr>"

definition parse_decision :: "string \<Rightarrow> decision \<times> parse_error option" where
  "parse_decision raw =
     (let cleaned = clean_llm_output raw in
      case parse_and_validate cleaned of
        Inr d \<Rightarrow> (d, None)
      | Inl _ \<Rightarrow>
          (case extract_json cleaned of
             None \<Rightarrow> (fallback_decision raw, Some (ErrInvalidDecision raw NoValidJson))
           | Some x \<Rightarrow>
               (case parse_and_validate x of
                  Inl e \<Rightarrow> (fallback_decision raw, Some (ErrInvalidDecision raw e))
                | Inr d \<Rightarrow> (d, None))))"

section \<open>What a decision that was accepted satisfies\<close>

text \<open>The rules the source enforces: a known action, an analysis, and confidence behind an execution.\<close>

definition valid_decision :: "decision \<Rightarrow> bool" where
  "valid_decision d \<longleftrightarrow>
     d_Action d \<in> set valid_actions \<and> trim_space (d_Analysis d) \<noteq> []
     \<and> (d_Action d = ''execute'' \<longrightarrow> \<not> f_lt (d_Confidence d) (Fin (3 / 4)))
     \<and> is_fin (d_Confidence d) \<and> \<not> f_eq (d_Confidence d) (Fin 0)"

lemma json_float_fin: "json_float t = Some x \<Longrightarrow> is_fin x"
  by (cases "rnd (num_rat t)") (auto simp: json_float_def)

lemma set_field_fin: "set_field d f v = (d', b) \<Longrightarrow> is_fin (d_Confidence d) \<Longrightarrow> is_fin (d_Confidence d')"
  by (auto simp: set_field_def set_string_def json_float_fin split: field.splits json.splits option.splits)

lemma decode_members_fin:
  "decode_members ms (d, ok) = (d', b) \<Longrightarrow> is_fin (d_Confidence d) \<Longrightarrow> is_fin (d_Confidence d')"
proof (induction ms "(d, ok)" arbitrary: d ok rule: decode_members.induct)
  case (2 k v ms d ok)
  then show ?case by (auto split: option.splits prod.splits) (metis set_field_fin)
qed simp

lemma unmarshal_decision_fin: "unmarshal_decision s = Some d \<Longrightarrow> is_fin (d_Confidence d)"
  by (auto simp: unmarshal_decision_def empty_decision_def split: option.splits json.splits prod.splits
      if_splits dest: decode_members_fin)

lemma validate_decision_valid:
  "validate_decision d = Inr d' \<Longrightarrow> is_fin (d_Confidence d) \<Longrightarrow> \<not> f_eq (d_Confidence d) (Fin 0) \<Longrightarrow>
     valid_decision d'"
  by (auto simp: validate_decision_def valid_decision_def valid_actions_def split: if_splits)

lemma parse_and_validate_valid: "parse_and_validate s = Inr d \<Longrightarrow> valid_decision d"
  by (auto simp: parse_and_validate_def Let_def dest!: unmarshal_decision_fin split: option.splits if_splits
      intro: validate_decision_valid)

lemma parse_decision_cases:
  "(\<exists>d. parse_decision raw = (d, None) \<and> valid_decision d)
     \<or> (\<exists>e. parse_decision raw = (fallback_decision raw, Some (ErrInvalidDecision raw e)))"
  by (auto simp: parse_decision_def Let_def split: sum.splits option.splits dest: parse_and_validate_valid)

lemma valid_confidence_ge:
  "valid_decision d \<Longrightarrow> d_Action d = ''execute'' \<Longrightarrow> f_le (Fin (3 / 4)) (d_Confidence d)"
  by (cases "d_Confidence d") (auto simp: valid_decision_def)

section \<open>Prose around the object is stripped\<close>

text \<open>
  A text that is an object (from its first opening brace to its last closing brace) surrounded by prose
  without further braces. The stages remove only bytes outside the object.
\<close>

lemma space_at_brace:
  assumes "\<forall>p \<in> set ps. p \<noteq> [] \<and> b \<notin> set p"
  shows "space_at ps (u @ b # v) \<le> length u"
  using assms
proof (induction ps)
  case (Cons p ps)
  show ?case
  proof (cases "prefix p (u @ b # v)")
    case True
    have b: "b \<notin> set p" using Cons.prems by simp
    have "prefix p u"
    proof (rule ccontr)
      assume "\<not> prefix p u"
      with True obtain us where us: "p = u @ us" "prefix us (b # v)" unfolding prefix_append by blast
      with \<open>\<not> prefix p u\<close> b show False by (cases us) simp_all
    qed
    with True show ?thesis by (simp add: prefix_length_le)
  next
    case False
    with Cons show ?thesis by simp
  qed
qed simp

lemma trim_with_brace:
  assumes "\<forall>p \<in> set ps. p \<noteq> [] \<and> b \<notin> set p"
  shows "\<exists>u'. suffix u' u \<and> trim_with ps (u @ b # v) = u' @ b # v"
proof (induction "length u" arbitrary: u rule: less_induct)
  case less
  let ?k = "space_at ps (u @ b # v)"
  show ?case
  proof (cases "?k = 0")
    case True
    then show ?thesis by (intro exI [of _ u]) (simp add: trim_with_id)
  next
    case False
    have k: "?k \<le> length u" using assms by (rule space_at_brace)
    have d: "drop ?k (u @ b # v) = drop ?k u @ b # v" using k by simp
    from False k have "length (drop ?k u) < length u" by simp
    from less [OF this] obtain u' where "suffix u' (drop ?k u)"
      and t: "trim_with ps (drop ?k u @ b # v) = u' @ b # v" by blast
    then have "suffix u' u" using suffix_drop suffix_order.trans by blast
    moreover have "trim_with ps (u @ b # v) = u' @ b # v"
      using False t d by (subst trim_with.simps) simp
    ultimately show ?thesis by blast
  qed
qed

lemma go_spaces_braces:
  "\<forall>p \<in> set go_spaces. p \<noteq> [] \<and> CHR ''{'' \<notin> set p"
  "\<forall>p \<in> set (map rev go_spaces). p \<noteq> [] \<and> CHR ''}'' \<notin> set p"
  by (simp_all add: go_spaces_def)

lemma trim_space_object:
  "\<exists>u' v'. suffix u' u \<and> prefix v' v \<and>
     trim_space (u @ CHR ''{'' # m @ CHR ''}'' # v) = u' @ CHR ''{'' # m @ CHR ''}'' # v'"
proof -
  obtain u' where u: "suffix u' u"
    "trim_left_space (u @ CHR ''{'' # (m @ CHR ''}'' # v)) = u' @ CHR ''{'' # (m @ CHR ''}'' # v)"
    unfolding trim_left_space_def using trim_with_brace [OF go_spaces_braces(1)] by blast
  obtain w where w: "suffix w (rev v)"
    "trim_with (map rev go_spaces) (rev v @ CHR ''}'' # rev (u' @ CHR ''{'' # m))
       = w @ CHR ''}'' # rev (u' @ CHR ''{'' # m)"
    using trim_with_brace [OF go_spaces_braces(2)] by blast
  have "trim_right_space (u' @ CHR ''{'' # m @ CHR ''}'' # v) = u' @ CHR ''{'' # m @ CHR ''}'' # rev w"
    unfolding trim_right_space_def using w(2) by simp
  moreover have "prefix (rev w) v" using w(1) by (simp add: suffix_to_prefix)
  ultimately show ?thesis using u by (auto simp: trim_space_def)
qed

lemma prefix_avoiding:
  "b \<notin> set p \<Longrightarrow> prefix p (u @ b # v) \<Longrightarrow> prefix p u"
  by (auto simp: prefix_append prefix_Cons)

lemma trim_prefix_object:
  "b \<notin> set p \<Longrightarrow> \<exists>u'. suffix u' u \<and> trim_prefix (u @ b # v) p = u' @ b # v"
proof (cases "prefix p (u @ b # v)")
  case True
  assume "b \<notin> set p"
  then have "prefix p u" using True by (rule prefix_avoiding)
  then have "drop (length p) (u @ b # v) = drop (length p) u @ b # v" by (simp add: prefix_length_le)
  with True show ?thesis by (intro exI [of _ "drop (length p) u"]) (simp add: trim_prefix_def suffix_drop)
next
  case False
  then show ?thesis by (intro exI [of _ u]) (simp add: trim_prefix_def)
qed

lemma trim_suffix_object:
  "b \<notin> set p \<Longrightarrow> \<exists>v'. prefix v' v \<and> trim_suffix (u @ b # v) p = u @ b # v'"
proof (cases "suffix p (u @ b # v)")
  case True
  assume b: "b \<notin> set p"
  have "prefix (rev p) (rev v @ b # rev u)" using True by (simp add: suffix_to_prefix)
  with b have "prefix (rev p) (rev v)" using prefix_avoiding [of b "rev p" "rev v" "rev u"] by simp
  then have len: "length p \<le> length v" using prefix_length_le by fastforce
  then have "take (length (u @ b # v) - length p) (u @ b # v) = u @ b # take (length v - length p) v"
    by (simp add: Suc_diff_le)
  with True show ?thesis
    by (intro exI [of _ "take (length v - length p) v"]) (simp add: trim_suffix_def take_is_prefix)
next
  case False
  then show ?thesis by (intro exI [of _ v]) (simp add: trim_suffix_def)
qed

lemma strip_before_object: "CHR ''{'' \<notin> set u \<Longrightarrow> strip_before (u @ CHR ''{'' # v) = CHR ''{'' # v"
proof -
  assume "CHR ''{'' \<notin> set u"
  then have "index_of (u @ CHR ''{'' # v) ''{'' = Some (length u)"
    by (induction u) auto
  then show ?thesis by (simp add: strip_before_def)
qed

lemma strip_after_object: "CHR ''}'' \<notin> set v \<Longrightarrow> strip_after (u @ CHR ''}'' # v) = u @ ''}''"
proof -
  assume "CHR ''}'' \<notin> set v"
  then have "last_index (CHR ''}'' # v) (CHR ''}'') = Some 0"
    using last_index_None [of v "CHR ''}''"] by simp
  then have "last_index (u @ CHR ''}'' # v) (CHR ''}'') = Some (length u)"
    by (induction u) auto
  then show ?thesis by (cases v) (simp_all add: strip_after_def)
qed

lemma trim_space_exact_object: "trim_space (CHR ''{'' # m @ ''}'') = CHR ''{'' # m @ ''}''"
  using trim_space_object [of "[]" "[]" m] by auto

lemma clean_object:
  assumes "CHR ''{'' \<notin> set u" "CHR ''}'' \<notin> set v"
  shows "clean_llm_output (u @ CHR ''{'' # m @ CHR ''}'' # v) = CHR ''{'' # m @ ''}''"
proof -
  obtain u1 v1 where 1: "suffix u1 u" "prefix v1 v"
    "trim_space (u @ CHR ''{'' # m @ CHR ''}'' # v) = u1 @ CHR ''{'' # m @ CHR ''}'' # v1"
    using trim_space_object by blast
  have nb: "CHR ''{'' \<notin> set (fence @ ''json'')" "CHR ''{'' \<notin> set fence" "CHR ''}'' \<notin> set fence"
    by (simp_all add: fence_def)
  obtain u2 where 2: "suffix u2 u1"
    "trim_prefix (u1 @ CHR ''{'' # m @ CHR ''}'' # v1) (fence @ ''json'') = u2 @ CHR ''{'' # m @ CHR ''}'' # v1"
    using trim_prefix_object [OF nb(1)] by blast
  obtain u3 where 3: "suffix u3 u2"
    "trim_prefix (u2 @ CHR ''{'' # m @ CHR ''}'' # v1) fence = u3 @ CHR ''{'' # m @ CHR ''}'' # v1"
    using trim_prefix_object [OF nb(2)] by blast
  obtain v2 where 4: "prefix v2 v1"
    "trim_suffix ((u3 @ CHR ''{'' # m) @ CHR ''}'' # v1) fence = (u3 @ CHR ''{'' # m) @ CHR ''}'' # v2"
    using trim_suffix_object [OF nb(3)] by blast
  have "set u3 \<subseteq> set u" "set v2 \<subseteq> set v"
    using 1(1,2) 2(1) 3(1) 4(1) by (meson order_trans set_mono_prefix set_mono_suffix)+
  with assms have "CHR ''{'' \<notin> set u3" "CHR ''}'' \<notin> set v2" by blast+
  then show ?thesis
    unfolding clean_llm_output_def Let_def 1(3) 2(2) 3(2)
    using 4(2) strip_before_object [of u3 "m @ CHR ''}'' # v2"] strip_after_object [of v2 "CHR ''{'' # m"]
      trim_space_exact_object [of m]
    by simp
qed

section \<open>Properties\<close>

text \<open>C4: whatever text the model returns, \<open>ParseDecision\<close> yields either no error and a decision that obeys
  every rule of the source (known action, non-blank analysis, confidence of at least 0.75 behind an
  execution, a non-zero finite confidence), or an error that carries the raw text together with the safe
  fallback, which only logs.\<close>
theorem parse_decision_safe:
  "(\<exists>d. parse_decision raw = (d, None) \<and> valid_decision d)
     \<or> (\<exists>e. parse_decision raw = (fallback_decision raw, Some (ErrInvalidDecision raw e))
           \<and> d_Action (fallback_decision raw) = ''log'' \<and> d_Command (fallback_decision raw) = [])"
  using parse_decision_cases [of raw] by (auto simp: fallback_decision_def)

text \<open>an \<open>execute\<close> decision comes only out of a successful parse, and then the confidence the model
  gave is at least 0.75.\<close>
theorem execute_needs_confidence:
  "parse_decision raw = (d, e) \<Longrightarrow> d_Action d = ''execute'' \<Longrightarrow> e = None \<and> f_le (Fin (3 / 4)) (d_Confidence d)"
  using parse_decision_cases [of raw] valid_confidence_ge [of d] by (auto simp: fallback_decision_def)

definition sample_execute :: string where
  "sample_execute =
     ''{\"analysis\":\"disk\",\"action\":\"EXECUTE\",\"command\":\"df -h\",\"confidence\":0.875}''"

lemma parse_sample_execute:
  "parse_decision sample_execute =
     (\<lparr>d_Analysis = ''disk'', d_Action = ''execute'', d_Command = ''df -h'', d_Reason = [],
       d_Confidence = Fin (7 / 8)\<rparr>, None)"
  by code_simp

theorem execute_needs_confidence_witness:
  "d_Action (fst (parse_decision sample_execute)) = ''execute''
     \<and> f_le (Fin (3 / 4)) (d_Confidence (fst (parse_decision sample_execute)))"
  using execute_needs_confidence [OF parse_sample_execute] by (simp add: parse_sample_execute)

text \<open>C33: prose and Markdown fences around the object do not change the answer: when an object (from its
  opening to its closing brace) parses, the same object with any text before it that has no opening brace
  and any text after it that has no closing brace parses to the same decision.\<close>
theorem parse_decision_ignores_prose:
  assumes "parse_decision (CHR ''{'' # m @ ''}'') = (d, None)"
    and "CHR ''{'' \<notin> set u" and "CHR ''}'' \<notin> set v"
  shows "parse_decision (u @ (CHR ''{'' # m @ ''}'') @ v) = (d, None)"
proof -
  have "clean_llm_output (u @ (CHR ''{'' # m @ ''}'') @ v) = CHR ''{'' # m @ ''}''"
    using clean_object [OF assms(2,3), of m] by simp
  moreover have "clean_llm_output (CHR ''{'' # m @ ''}'') = CHR ''{'' # m @ ''}''"
    using clean_object [of "[]" "[]" m] by simp
  ultimately show ?thesis using assms(1)
    by (auto simp: parse_decision_def Let_def split: sum.splits option.splits)
qed

theorem parse_decision_ignores_prose_witness:
  "\<exists>d. parse_decision (''Here: '' @ sample_execute @ '' Bye'') = (d, None) \<and> d_Command d = ''df -h''"
proof -
  let ?m = "tl (butlast sample_execute)"
  have m: "sample_execute = CHR ''{'' # ?m @ ''}''" by code_simp
  have "parse_decision (''Here: '' @ (CHR ''{'' # ?m @ ''}'') @ '' Bye'') =
    (\<lparr>d_Analysis = ''disk'', d_Action = ''execute'', d_Command = ''df -h'', d_Reason = [],
       d_Confidence = Fin (7 / 8)\<rparr>, None)"
    by (rule parse_decision_ignores_prose) (use parse_sample_execute in \<open>simp_all add: m [symmetric]\<close>)
  then show ?thesis unfolding m [symmetric] by simp
qed

text \<open>a decision whose action is not \<open>execute\<close> keeps the command the model attached to it, whatever its
  confidence: the parser clears the command only when it downgrades an execution.\<close>
theorem non_execute_command_survives:
  "unmarshal_decision s = Some d \<Longrightarrow> trim_space (d_Analysis d) \<noteq> [] \<Longrightarrow>
     to_lower (trim_space (d_Action d)) \<in> {''log'', ''alert'', ''suggest''} \<Longrightarrow>
     \<exists>d'. parse_and_validate s = Inr d' \<and> d_Command d' = d_Command d
        \<and> d_Action d' = to_lower (trim_space (d_Action d))"
  by (auto simp: parse_and_validate_def validate_decision_def valid_actions_def Let_def)

definition sample_log_command :: string where
  "sample_log_command =
     ''{\"analysis\":\"calm\",\"action\":\"log\",\"command\":\"docker ps\",\"confidence\":0.125}''"

theorem non_execute_command_survives_witness:
  "\<exists>d'. parse_and_validate sample_log_command = Inr d' \<and> d_Command d' = ''docker ps'' \<and> d_Action d' = ''log''"
proof -
  have u: "unmarshal_decision sample_log_command =
     Some \<lparr>d_Analysis = ''calm'', d_Action = ''log'', d_Command = ''docker ps'', d_Reason = [],
       d_Confidence = Fin (1 / 8)\<rparr>"
    by code_simp
  have n: "to_lower (trim_space ''log'') = ''log''" "trim_space ''calm'' \<noteq> []" by code_simp+
  show ?thesis using non_execute_command_survives [OF u] n by simp
qed

end
