(* ===== verification/JX_Http.thy ===== *)
theory JX_Http
  imports JX_Strings
begin

text \<open>
  HTTP as the clients of the runtime see it. The network is the environment: a request ends in a
  request that could not be built, a transport error, or a response whose body can be read or not.
  The definitions that make requests take the outcome as an argument.
\<close>

datatype http_result =
    HttpRequestError string
  | HttpTransportError string
  | HttpResponse (http_status: int) (http_body: "string + string")

abbreviation status_ok :: int where "status_ok \<equiv> 200"
abbreviation status_no_content :: int where "status_no_content \<equiv> 204"
abbreviation status_not_found :: int where "status_not_found \<equiv> 404"

end
