(* ===== verification/JX_Ollama.thy ===== *)
theory JX_Ollama
  imports JX_Circuit JX_Decision JX_Http
begin

text \<open>
  The clients of the Ollama server: \<open>runtime/llm/ollama.go\<close> (chat, with retries behind the circuit
  breaker), \<open>runtime/llm/embedder.go\<close> (embeddings) and \<open>runtime/llm/health.go\<close> (start-up check). The
  server, the clock and the cancellation of the context are the environment: each attempt is given what
  it met there. Log lines are not modelled.
\<close>

section \<open>The chat call\<close>

record ollama_message =
  om_Role :: string
  om_Content :: string

record ollama_request =
  or_URL :: string
  or_Model :: string
  or_Messages :: "ollama_message list"
  or_Stream :: bool

definition think_request :: "string \<Rightarrow> string \<Rightarrow> string \<Rightarrow> string \<Rightarrow> ollama_request" where
  "think_request baseURL model systemPrompt userPrompt =
     \<lparr>or_URL = baseURL @ ''/api/chat'', or_Model = model,
      or_Messages = [\<lparr>om_Role = ''system'', om_Content = systemPrompt\<rparr>,
                     \<lparr>om_Role = ''user'', om_Content = userPrompt\<rparr>],
      or_Stream = False\<rparr>"

datatype think_error =
    CreateRequest string
  | TransportFailed string
  | BadStatus int
  | ReadFailed string
  | UnmarshalFailed
  | EmptyEmbedding

text \<open>
  Decoding \<open>{"message": {"role": _, "content": _}}\<close>: the accumulator is the content read so far and
  whether every field had the right type; a repeated key overwrites.
\<close>

definition named_field :: "string \<Rightarrow> string \<Rightarrow> bool" where
  "named_field name k \<longleftrightarrow> k = name \<or> fold_name k = name"

fun decode_message :: "(string \<times> json) list \<Rightarrow> string \<times> bool \<Rightarrow> string \<times> bool" where
  "decode_message [] acc = acc"
| "decode_message ((k, v) # ms) (c, ok) =
     (if named_field ''content'' k then
        (case v of JStr s \<Rightarrow> decode_message ms (s, ok) | JNull \<Rightarrow> decode_message ms (c, ok)
         | _ \<Rightarrow> decode_message ms (c, False))
      else if named_field ''role'' k then
        (case v of JStr s \<Rightarrow> decode_message ms (c, ok) | JNull \<Rightarrow> decode_message ms (c, ok)
         | _ \<Rightarrow> decode_message ms (c, False))
      else decode_message ms (c, ok))"

fun decode_chat :: "(string \<times> json) list \<Rightarrow> string \<times> bool \<Rightarrow> string \<times> bool" where
  "decode_chat [] acc = acc"
| "decode_chat ((k, v) # ms) (c, ok) =
     (if named_field ''message'' k then
        (case v of JObj fs \<Rightarrow> decode_chat ms (decode_message fs (c, ok))
         | JNull \<Rightarrow> decode_chat ms (c, ok) | _ \<Rightarrow> decode_chat ms (c, False))
      else decode_chat ms (c, ok))"

definition unmarshal_chat :: "string \<Rightarrow> string option" where
  "unmarshal_chat s =
     (case parse_json s of
        Some (JObj ms) \<Rightarrow> (case decode_chat ms ([], True) of (c, ok) \<Rightarrow> if ok then Some c else None)
      | Some JNull \<Rightarrow> Some []
      | _ \<Rightarrow> None)"

definition ollama_think :: "http_result \<Rightarrow> think_error + string" where
  "ollama_think res =
     (case res of
        HttpRequestError e \<Rightarrow> Inl (CreateRequest e)
      | HttpTransportError e \<Rightarrow> Inl (TransportFailed e)
      | HttpResponse status body \<Rightarrow>
          if status \<noteq> status_ok then Inl (BadStatus status)
          else (case body of Inl e \<Rightarrow> Inl (ReadFailed e)
                | Inr raw \<Rightarrow> (case unmarshal_chat raw of None \<Rightarrow> Inl UnmarshalFailed
                                | Some content \<Rightarrow> Inr content)))"

section \<open>Retries\<close>

record retry_config =
  rc_MaxAttempts :: int
  rc_Delay :: duration
  rc_Jitter :: duration

definition default_retry_config :: retry_config where
  "default_retry_config = \<lparr>rc_MaxAttempts = 3, rc_Delay = 2 * second, rc_Jitter = 1000 * millisecond\<rparr>"

text \<open>
  The pause before the next attempt; \<open>draw\<close> is what \<open>rand.Intn\<close> returned for its argument. \<open>None\<close> is the
  panic of \<open>rand.Intn\<close> when its argument is not positive, that is for a jitter below a millisecond.
\<close>

definition sleep_duration :: "retry_config \<Rightarrow> (int \<Rightarrow> int) \<Rightarrow> duration option" where
  "sleep_duration r draw =
     (if rc_Jitter r \<le> 0 then Some (rc_Delay r)
      else let n = go_div (rc_Jitter r) millisecond
           in if n \<le> 0 then None else Some (wrap64 (rc_Delay r + wrap64 (draw n * millisecond))))"

datatype think_failure =
    CircuitOpenError
  | ContextError string
  | AttemptFailed int think_error
  | AttemptParse int parse_error

text \<open>What one attempt meets: a cancelled context, the outcome of the request, the clock on a failure.\<close>

record attempt_env =
  ae_cancelled :: "string option"
  ae_http :: http_result
  ae_now :: time

fun think_loop ::
  "(int \<Rightarrow> attempt_env) \<Rightarrow> time \<Rightarrow> int \<Rightarrow> int \<Rightarrow> nat \<Rightarrow> think_failure option \<Rightarrow> circuit_breaker
     \<Rightarrow> (decision \<times> int \<times> think_failure option) \<times> circuit_breaker" where
  "think_loop env tend mx attempt 0 lastErr cb =
     ((fallback_decision ''all attempts failed'', mx, lastErr), cb_record_failure tend cb)"
| "think_loop env tend mx attempt (Suc k) lastErr cb =
     (case ae_cancelled (env attempt) of
        Some e \<Rightarrow>
          ((fallback_decision ''context cancelled'', attempt, Some (ContextError e)),
           cb_record_failure (ae_now (env attempt)) cb)
      | None \<Rightarrow>
          (case ollama_think (ae_http (env attempt)) of
             Inl e \<Rightarrow>
               think_loop env tend mx (attempt + 1) k (Some (AttemptFailed attempt e))
                 (cb_record_failure (ae_now (env attempt)) cb)
           | Inr raw \<Rightarrow>
               (case parse_decision raw of
                  (d, Some e) \<Rightarrow> think_loop env tend mx (attempt + 1) k (Some (AttemptParse attempt e)) cb
                | (d, None) \<Rightarrow> ((d, attempt, None), cb_record_success cb))))"

text \<open>\<open>ThinkWithDecision\<close>: \<open>now\<close> is the clock at the breaker's check, \<open>tend\<close> after the last attempt.\<close>

definition think_with_decision ::
  "time \<Rightarrow> (int \<Rightarrow> attempt_env) \<Rightarrow> time \<Rightarrow> retry_config \<Rightarrow> circuit_breaker
     \<Rightarrow> (decision \<times> int \<times> think_failure option) \<times> circuit_breaker" where
  "think_with_decision now env tend retry cb =
     (case cb_allow now cb of
        (Some _, cb') \<Rightarrow> ((fallback_decision ''circuit breaker open'', 0, Some CircuitOpenError), cb')
      | (None, cb') \<Rightarrow> think_loop env tend (rc_MaxAttempts retry) 1 (nat (rc_MaxAttempts retry)) None cb')"

section \<open>Embeddings\<close>

text \<open>
  The response \<open>{"embedding": [...]}\<close>. The components keep their JSON literal (the runtime only counts
  them and forwards them); a literal beyond the range of \<open>float32\<close> makes decoding fail, null is 0.
\<close>

definition float32_ok :: "string \<Rightarrow> bool" where
  "float32_ok t \<longleftrightarrow> \<bar>num_rat t\<bar> < 2 ^ 128 - 2 ^ 103"

fun decode_floats :: "json list \<Rightarrow> string list \<times> bool \<Rightarrow> string list \<times> bool" where
  "decode_floats [] acc = acc"
| "decode_floats (v # vs) (xs, ok) =
     (case v of
        JNum t \<Rightarrow> decode_floats vs (xs @ [t], ok \<and> float32_ok t)
      | JNull \<Rightarrow> decode_floats vs (xs @ [''0''], ok)
      | _ \<Rightarrow> decode_floats vs (xs @ [''0''], False))"

fun decode_embedding :: "(string \<times> json) list \<Rightarrow> string list \<times> bool \<Rightarrow> string list \<times> bool" where
  "decode_embedding [] acc = acc"
| "decode_embedding ((k, v) # ms) (xs, ok) =
     (if named_field ''embedding'' k then
        (case v of JArr vs \<Rightarrow> decode_embedding ms (decode_floats vs ([], ok))
         | JNull \<Rightarrow> decode_embedding ms ([], ok) | _ \<Rightarrow> decode_embedding ms (xs, False))
      else decode_embedding ms (xs, ok))"

definition unmarshal_embedding :: "string \<Rightarrow> string list option" where
  "unmarshal_embedding s =
     (case parse_json s of
        Some (JObj ms) \<Rightarrow> (case decode_embedding ms ([], True) of (xs, ok) \<Rightarrow> if ok then Some xs else None)
      | Some JNull \<Rightarrow> Some []
      | _ \<Rightarrow> None)"

datatype embed_failure = EmbedCircuitOpen | EmbedFailed think_error

definition embed :: "time \<Rightarrow> http_result \<Rightarrow> time \<Rightarrow> circuit_breaker
    \<Rightarrow> (embed_failure + string list) \<times> circuit_breaker" where
  "embed now res tfail cb0 =
     (case cb_allow now cb0 of
        (Some _, cb) \<Rightarrow> (Inl EmbedCircuitOpen, cb)
      | (None, cb) \<Rightarrow>
          (case res of
             HttpRequestError e \<Rightarrow> (Inl (EmbedFailed (CreateRequest e)), cb)
           | HttpTransportError e \<Rightarrow> (Inl (EmbedFailed (TransportFailed e)), cb_record_failure tfail cb)
           | HttpResponse status body \<Rightarrow>
               if status \<noteq> status_ok
               then (Inl (EmbedFailed (BadStatus status)), cb_record_failure tfail cb)
               else (case body of
                  Inl e \<Rightarrow> (Inl (EmbedFailed (ReadFailed e)), cb_record_failure tfail cb)
                | Inr raw \<Rightarrow>
                    (case unmarshal_embedding raw of
                       None \<Rightarrow> (Inl (EmbedFailed UnmarshalFailed), cb_record_failure tfail cb)
                     | Some xs \<Rightarrow>
                         if xs = [] then (Inl (EmbedFailed EmptyEmbedding), cb_record_failure tfail cb)
                         else (Inr xs, cb_record_success cb)))))"

section \<open>The start-up check\<close>

record health_status =
  hs_Online :: bool
  hs_Version :: string
  hs_Models :: "string list"
  hs_Error :: string

text \<open>Decoding \<open>{"models": [{"name": _}]}\<close>.\<close>

fun decode_model_name :: "(string \<times> json) list \<Rightarrow> string \<times> bool \<Rightarrow> string \<times> bool" where
  "decode_model_name [] acc = acc"
| "decode_model_name ((k, v) # ms) (c, ok) =
     (if named_field ''name'' k then
        (case v of JStr s \<Rightarrow> decode_model_name ms (s, ok) | JNull \<Rightarrow> decode_model_name ms (c, ok)
         | _ \<Rightarrow> decode_model_name ms (c, False))
      else decode_model_name ms (c, ok))"

fun decode_models :: "json list \<Rightarrow> string list \<times> bool \<Rightarrow> string list \<times> bool" where
  "decode_models [] acc = acc"
| "decode_models (v # vs) (xs, ok) =
     (case v of
        JObj fs \<Rightarrow> (case decode_model_name fs ([], ok) of (n, ok') \<Rightarrow> decode_models vs (xs @ [n], ok'))
      | JNull \<Rightarrow> decode_models vs (xs @ [[]], ok)
      | _ \<Rightarrow> decode_models vs (xs @ [[]], False))"

fun decode_tags :: "(string \<times> json) list \<Rightarrow> string list \<times> bool \<Rightarrow> string list \<times> bool" where
  "decode_tags [] acc = acc"
| "decode_tags ((k, v) # ms) (xs, ok) =
     (if named_field ''models'' k then
        (case v of JArr vs \<Rightarrow> decode_tags ms (decode_models vs ([], ok))
         | JNull \<Rightarrow> decode_tags ms ([], ok) | _ \<Rightarrow> decode_tags ms (xs, False))
      else decode_tags ms (xs, ok))"

text \<open>\<open>json.NewDecoder(...).Decode\<close> reads one value and ignores what follows it.\<close>

definition decode_tags_body :: "string \<Rightarrow> string list option" where
  "decode_tags_body s =
     (case parse_value (2 * length s + 2) 0 s of
        Some (JObj ms, _) \<Rightarrow> (case decode_tags ms ([], True) of (xs, ok) \<Rightarrow> if ok then Some xs else None)
      | Some (JNull, _) \<Rightarrow> Some []
      | _ \<Rightarrow> None)"

definition offline :: "string \<Rightarrow> health_status" where
  "offline msg = \<lparr>hs_Online = False, hs_Version = [], hs_Models = [], hs_Error = msg\<rparr>"

definition check_ollama :: "string \<Rightarrow> string \<Rightarrow> http_result \<Rightarrow> health_status" where
  "check_ollama baseURL model res =
     (case res of
        HttpRequestError e \<Rightarrow> offline (''Ollama inaccessible sur '' @ baseURL @ '' : '' @ e)
      | HttpTransportError e \<Rightarrow> offline (''Ollama inaccessible sur '' @ baseURL @ '' : '' @ e)
      | HttpResponse status body \<Rightarrow>
          if status \<noteq> status_ok
          then offline (''Ollama r'' @ e_acute @ ''pond '' @ show_int status @ '' sur '' @ baseURL)
          else (case (case body of Inl e \<Rightarrow> None | Inr raw \<Rightarrow> decode_tags_body raw) of
             None \<Rightarrow> offline (''r'' @ e_acute @ ''ponse Ollama invalide'')
           | Some models \<Rightarrow>
               \<lparr>hs_Online = True, hs_Version = [], hs_Models = models,
                hs_Error =
                  (if model \<in> set models then []
                   else ''mod'' @ e_grave @ ''le '' @ [CHR 0x27] @ model @ [CHR 0x27] @ '' non trouv'' @ e_acute
                     @ '' '' @ em_dash @ '' mod'' @ e_grave @ ''les disponibles : ['' @ join '' '' models @ '']'')\<rparr>))"

section \<open>The breaker around the chat call\<close>

text \<open>The breaker sees only recorded outcomes: a call is a run of its operations, so its invariant is kept.\<close>

lemma think_loop_breaker_run:
  "\<exists>es. snd (think_loop env tend mx attempt k lastErr cb) = cb_run cb es"
proof (induction k arbitrary: attempt lastErr cb)
  case 0
  have "cb_record_failure tend cb = cb_run cb [EFailure tend]" by (simp add: cb_run_def)
  then show ?case by (auto intro: exI [of _ "[EFailure tend]"])
next
  case (Suc k)
  have f: "\<exists>es. cb_record_failure t cb = cb_run cb es" for t
    by (intro exI [of _ "[EFailure t]"]) (simp add: cb_run_def)
  have s: "\<exists>es. cb_record_success cb = cb_run cb es"
    by (intro exI [of _ "[ESuccess]"]) (simp add: cb_run_def)
  have c: "\<exists>es. cb_run (cb_record_failure t cb) ds = cb_run cb es" for t ds
    by (intro exI [of _ "EFailure t # ds"]) (simp add: cb_run_Cons)
  show ?case
  proof (cases "ollama_think (ae_http (env attempt))")
    case (Inl e)
    then show ?thesis
      using f Suc [of "attempt + 1" "Some (AttemptFailed attempt e)" "cb_record_failure (ae_now (env attempt)) cb"] c
      by (auto split: option.splits)
  next
    case (Inr raw)
    then show ?thesis using f s Suc [of "attempt + 1"]
      by (auto split: option.splits prod.splits)
  qed
qed

lemma think_breaker_inv: "cb_inv cb \<Longrightarrow> cb_inv (snd (think_with_decision now env tend retry cb))"
proof -
  assume inv: "cb_inv cb"
  have a: "cb_inv (snd (cb_allow now cb))" using cb_inv_step [OF inv, of "EAllow now"] by simp
  show ?thesis
  proof (cases "fst (cb_allow now cb)")
    case None
    then have "snd (think_with_decision now env tend retry cb)
        = snd (think_loop env tend (rc_MaxAttempts retry) 1 (nat (rc_MaxAttempts retry)) None (snd (cb_allow now cb)))"
      by (cases "cb_allow now cb") (simp add: think_with_decision_def)
    with think_loop_breaker_run [of env tend] a show ?thesis by (metis cb_inv_run)
  next
    case (Some e)
    with a show ?thesis by (cases "cb_allow now cb") (simp add: think_with_decision_def)
  qed
qed

text \<open>The shape of every answer.\<close>

lemma think_loop_result:
  "think_loop env tend mx attempt k lastErr cb = ((d, n, err), cb') \<Longrightarrow>
     (err = None \<and> valid_decision d \<and> attempt \<le> n \<and> n < attempt + int k \<and> cb_failures cb' = 0
        \<and> (\<exists>raw. ollama_think (ae_http (env n)) = Inr raw \<and> parse_decision raw = (d, None)))
     \<or> ((\<exists>why. d = fallback_decision why) \<and> (k = 0 \<longrightarrow> err = lastErr) \<and> (0 < k \<longrightarrow> err \<noteq> None))"
proof (induction k arbitrary: attempt lastErr cb)
  case (Suc k)
  show ?case
  proof (cases "ae_cancelled (env attempt)")
    case (Some e)
    with Suc.prems show ?thesis by auto
  next
    case nc: None
    show ?thesis
    proof (cases "ollama_think (ae_http (env attempt))")
      case (Inl e)
      with nc Suc.prems have "think_loop env tend mx (attempt + 1) k (Some (AttemptFailed attempt e))
          (cb_record_failure (ae_now (env attempt)) cb) = ((d, n, err), cb')" by simp
      from Suc.IH [OF this] show ?thesis by (cases k) auto
    next
      case (Inr raw)
      show ?thesis
      proof (cases "snd (parse_decision raw)")
        case None
        then have p: "parse_decision raw = (fst (parse_decision raw), None)" by (metis prod.collapse)
        with nc Inr Suc.prems have "d = fst (parse_decision raw)" "n = attempt" "err = None"
          "cb' = cb_record_success cb" by (auto split: prod.splits)
        with p Inr parse_decision_cases [of raw] show ?thesis
          by (auto simp: cb_record_success_def Let_def)
      next
        case (Some e)
        then have p: "parse_decision raw = (fst (parse_decision raw), Some e)" by (metis prod.collapse)
        with nc Inr Suc.prems have "think_loop env tend mx (attempt + 1) k
          (Some (AttemptParse attempt e)) cb = ((d, n, err), cb')" by (auto split: prod.splits)
        from Suc.IH [OF this] show ?thesis by (cases k) auto
      qed
    qed
  qed
qed auto

text \<open>When every request fails the loop records one failure per attempt and one more at the end.\<close>

lemma think_loop_all_fail:
  "(\<And>i. attempt \<le> i \<Longrightarrow> i < attempt + int k \<Longrightarrow>
      ae_cancelled (env i) = None \<and> (\<exists>e. ollama_think (ae_http (env i)) = Inl e)) \<Longrightarrow>
   snd (think_loop env tend mx attempt k lastErr cb)
     = cb_run cb (map EFailure (map (\<lambda>i. ae_now (env (attempt + int i))) [0..<k] @ [tend]))"
proof (induction k arbitrary: attempt lastErr cb)
  case 0
  show ?case by (simp add: cb_run_def)
next
  case (Suc k)
  from Suc.prems [of attempt] obtain e where c: "ae_cancelled (env attempt) = None"
    and e: "ollama_think (ae_http (env attempt)) = Inl e" by auto
  have shift: "map (\<lambda>i. ae_now (env (attempt + int i))) [0..<Suc k]
      = ae_now (env attempt) # map (\<lambda>i. ae_now (env (attempt + 1 + int i))) [0..<k]"
    by (simp add: upt_conv_Cons map_Suc_upt [symmetric] comp_def algebra_simps del: upt_Suc map_Suc_upt)
  show ?case
    using c e Suc.IH [of "attempt + 1" "Some (AttemptFailed attempt e)" "cb_record_failure (ae_now (env attempt)) cb"]
      Suc.prems
    by (simp add: shift cb_run_Cons del: upt_Suc)
qed

lemma think_answer:
  assumes "0 < rc_MaxAttempts retry"
    and "think_with_decision now env tend retry cb = ((d, n, err), cb')"
  shows "(err = None \<and> valid_decision d \<and> 1 \<le> n \<and> n \<le> rc_MaxAttempts retry \<and> cb_failures cb' = 0)
     \<or> (err \<noteq> None \<and> (\<exists>why. d = fallback_decision why) \<and> d_Action d = ''log'' \<and> d_Command d = [])"
proof (cases "cb_allow now cb")
  case (Pair refusal cb1)
  show ?thesis
  proof (cases refusal)
    case None
    with assms(2) Pair have "think_loop env tend (rc_MaxAttempts retry) 1 (nat (rc_MaxAttempts retry)) None cb1
        = ((d, n, err), cb')" by (simp add: think_with_decision_def)
    from think_loop_result [OF this] assms(1) show ?thesis by (auto simp: fallback_decision_def)
  next
    case (Some e)
    with assms(2) Pair show ?thesis
      by (intro disjI2) (auto simp: think_with_decision_def fallback_decision_def)
  qed
qed

section \<open>Properties\<close>


lemma first_answer:
  assumes "cb_allow now cb = (None, cb')" "1 \<le> rc_MaxAttempts retry" "ae_cancelled (env 1) = None"
    and "ollama_think (ae_http (env 1)) = Inr raw" "parse_decision raw = (d, None)"
  shows "think_with_decision now env tend retry cb = ((d, 1, None), cb_record_success cb')"
proof -
  obtain k where "nat (rc_MaxAttempts retry) = Suc k" using assms(2) by (cases "nat (rc_MaxAttempts retry)") auto
  with assms show ?thesis by (simp add: think_with_decision_def)
qed

definition chat_ok :: "string \<Rightarrow> http_result" where
  "chat_ok body = HttpResponse 200 (Inr body)"

definition sample_chat :: string where
  "sample_chat = replace_char (CHR ''~'') (CHR 0x5C)
     ''{\"message\":{\"role\":\"assistant\",\"content\":\"{~\"analysis~\":~\"a~\",~\"action~\":~\"log~\"}\"}}''"

definition sample_content :: string where
  "sample_content = ''{\"analysis\":\"a\",\"action\":\"log\"}''"

lemma sample_chat_reads: "ollama_think (chat_ok sample_chat) = Inr sample_content"
  by code_simp

lemma sample_content_parses:
  "parse_decision sample_content =
     (\<lparr>d_Analysis = ''a'', d_Action = ''log'', d_Command = [], d_Reason = [], d_Confidence = Fin (1 / 2)\<rparr>, None)"
  by code_simp

definition sample_env :: "int \<Rightarrow> attempt_env" where
  "sample_env i = \<lparr>ae_cancelled = None,
     ae_http = (if i = 1 then HttpTransportError ''refused'' else chat_ok sample_chat), ae_now = i\<rparr>"

lemma sample_think:
  "think_with_decision 0 sample_env 9 default_retry_config default_circuit_breaker =
     ((\<lparr>d_Analysis = ''a'', d_Action = ''log'', d_Command = [], d_Reason = [], d_Confidence = Fin (1 / 2)\<rparr>, 2, None),
      default_circuit_breaker\<lparr>cb_lastFailure := 1\<rparr>)"
  by (simp add: think_with_decision_def sample_env_def sample_chat_reads sample_content_parses default_retry_config_def
      default_circuit_breaker_def new_circuit_breaker_def cb_allow_def cb_record_failure_def cb_record_success_def
      ollama_think_def [of "HttpTransportError e" for e] eval_nat_numeral Let_def)


text \<open>While the breaker is open and its pause has not elapsed, neither the chat call nor the embedding
  call contacts the server: the answer does not depend on what a request would have met, no attempt is
  counted, and the breaker is unchanged.\<close>
theorem open_breaker_blocks_calls:
  assumes "cb_tripped cb" "\<not> cb_elapsed now cb"
  shows "think_with_decision now env tend retry cb
       = ((fallback_decision ''circuit breaker open'', 0, Some CircuitOpenError), cb)
     \<and> embed now res tfail cb = (Inl EmbedCircuitOpen, cb)"
proof -
  have r: "fst (cb_allow now cb) \<noteq> None" using assms cb.refuse_iff by blast
  with cb.refuse_same have s: "snd (cb_allow now cb) = cb" by blast
  from r s obtain e where "cb_allow now cb = (Some e, cb)" by (cases "cb_allow now cb") auto
  then show ?thesis by (simp add: think_with_decision_def embed_def)
qed

theorem open_breaker_blocks_calls_witness:
  "embed 5 (HttpTransportError []) 6 (default_circuit_breaker\<lparr>cb_state := StateOpen, cb_lastFailure := 1\<rparr>)
     = (Inl EmbedCircuitOpen, default_circuit_breaker\<lparr>cb_state := StateOpen, cb_lastFailure := 1\<rparr>)"
  using open_breaker_blocks_calls
    [of "default_circuit_breaker\<lparr>cb_state := StateOpen, cb_lastFailure := 1\<rparr>" 5 sample_env 0 default_retry_config]
  by (simp add: cb_tripped_def cb_elapsed_def default_circuit_breaker_def new_circuit_breaker_def
      min_duration_def max_duration_def)

text \<open>one call during an outage counts as \<open>MaxAttempts + 1\<close> failures, one per request and one for the
  call, so with the default settings (three attempts, quota three) a single failed call opens the
  breaker, before the next decision is even attempted.\<close>
theorem one_failed_call_trips:
  assumes "cb_state cb = StateClosed" "cb_failures cb = 0" "0 < rc_MaxAttempts retry"
    and "cb_maxFailures cb \<le> rc_MaxAttempts retry + 1"
    and "\<And>i. 1 \<le> i \<Longrightarrow> i \<le> rc_MaxAttempts retry \<Longrightarrow>
           ae_cancelled (env i) = None \<and> (\<exists>e. ollama_think (ae_http (env i)) = Inl e)"
  shows "cb_failures (snd (think_with_decision now env tend retry cb)) = rc_MaxAttempts retry + 1
     \<and> cb_state (snd (think_with_decision now env tend retry cb)) = StateOpen"
proof -
  let ?ts = "map (\<lambda>i. ae_now (env (1 + int i))) [0..<nat (rc_MaxAttempts retry)] @ [tend]"
  have "think_with_decision now env tend retry cb
      = think_loop env tend (rc_MaxAttempts retry) 1 (nat (rc_MaxAttempts retry)) None cb"
    using assms(1) by (simp add: think_with_decision_def cb_allow_def)
  moreover have "snd (think_loop env tend (rc_MaxAttempts retry) 1 (nat (rc_MaxAttempts retry)) None cb)
      = cb_run cb (map EFailure ?ts)"
    by (rule think_loop_all_fail) (use assms(3,5) in auto)
  ultimately have run: "snd (think_with_decision now env tend retry cb) = cb_run cb (map EFailure ?ts)" by simp
  have "cb_state (cb_run cb (map EFailure ?ts)) = StateOpen"
    using assms(1,2) by (rule cb_failures_trip) (use assms(3,4) in auto)
  moreover have "cb_failures (cb_run cb (map EFailure ?ts)) = rc_MaxAttempts retry + 1"
    unfolding cb_failures_run_failures using assms(2,3) by simp
  ultimately show ?thesis unfolding run by simp
qed

theorem one_failed_call_trips_witness:
  "cb_state (snd (think_with_decision 0 (\<lambda>i. \<lparr>ae_cancelled = None, ae_http = HttpTransportError [], ae_now = i\<rparr>)
     4 default_retry_config default_circuit_breaker)) = StateOpen"
  by (rule one_failed_call_trips [THEN conjunct2])
    (simp_all add: default_circuit_breaker_def new_circuit_breaker_def default_retry_config_def ollama_think_def)

text \<open>an embedding is accepted only if the breaker admitted the call, the server answered 200 with a
  decodable and non-empty vector; then the failure counter is reset and the breaker is not open. Every
  failure of the request itself leaves a recorded failure behind.\<close>
theorem embed_outcomes:
  "case embed now res tfail cb of
     (Inr xs, cb') \<Rightarrow> xs \<noteq> [] \<and> fst (cb_allow now cb) = None \<and> cb_failures cb' = 0 \<and> \<not> cb_tripped cb'
       \<and> (\<exists>raw. res = HttpResponse 200 (Inr raw) \<and> unmarshal_embedding raw = Some xs)
   | (Inl EmbedCircuitOpen, cb') \<Rightarrow> cb' = cb \<and> cb_tripped cb
   | (Inl (EmbedFailed (CreateRequest _)), cb') \<Rightarrow> cb' = snd (cb_allow now cb)
   | (Inl (EmbedFailed _), cb') \<Rightarrow> cb' = cb_record_failure tfail (snd (cb_allow now cb))"
proof (cases "cb_allow now cb")
  case (Pair refusal cb1)
  show ?thesis
  proof (cases refusal)
    case (Some e)
    with Pair cb.refuse_iff [of now cb] cb.refuse_same [of now cb] show ?thesis by (simp add: embed_def)
  next
    case None
    with Pair cb.admit_not_tripped [of now cb] have nt: "\<not> cb_tripped cb1" by simp
    have "cb_failures (cb_record_success cb1) = 0" "\<not> cb_tripped (cb_record_success cb1)"
      using cb.success_not_tripped [OF nt] by (simp_all add: cb_record_success_def Let_def)
    with Pair None show ?thesis
      by (auto simp: embed_def split: http_result.splits sum.splits option.splits)
  qed
qed

text \<open>with no attempt configured (\<open>MaxAttempts\<close> not positive) a closed breaker lets the call through
  and the caller receives the fallback decision with a nil error.\<close>
theorem no_attempts_fallback_without_error:
  assumes "rc_MaxAttempts retry \<le> 0" "cb_state cb = StateClosed"
  shows "fst (think_with_decision now env tend retry cb)
     = (fallback_decision ''all attempts failed'', rc_MaxAttempts retry, None)"
  using assms by (simp add: think_with_decision_def cb_allow_def)

theorem no_attempts_fallback_without_error_witness:
  "snd (snd (fst (think_with_decision 0 sample_env 0 (default_retry_config\<lparr>rc_MaxAttempts := 0\<rparr>)
      default_circuit_breaker))) = None"
  using no_attempts_fallback_without_error
    [of "default_retry_config\<lparr>rc_MaxAttempts := 0\<rparr>" default_circuit_breaker 0 sample_env 0]
  by (simp add: default_circuit_breaker_def new_circuit_breaker_def)

end
