(* ===== verification/JX_Memory.thy ===== *)
theory JX_Memory
  imports JX_Strings
begin

text \<open>
  \<open>runtime/memory/state.go\<close> and \<open>proc.go\<close>: the snapshots and decisions the runtime remembers, and the
  JSON-file store \<open>State\<close> with its bounded histories. Each method holds the store's lock for its whole
  body, so a store is a value and a method a function on it. \<open>None\<close> as the result of a read is the panic
  of \<open>make\<close> on a negative length. Reading and writing the file goes through the codec of
  \<open>encoding/json\<close>, an argument of \<open>js_load\<close> and \<open>js_save\<close>; the codec itself is in \<open>JX_Codec\<close>.
\<close>

section \<open>Data\<close>

record proc_info =
  pi_PID :: int
  pi_Name :: string
  pi_MemMB :: "64 word"

record snapshot =
  sn_Timestamp :: time
  sn_CPUPercent :: f64
  sn_MemUsed :: "64 word"
  sn_MemTotal :: "64 word"
  sn_MemPercent :: f64
  sn_SwapUsed :: "64 word"
  sn_SwapTotal :: "64 word"
  sn_SwapPercent :: f64
  sn_DiskUsed :: "64 word"
  sn_DiskTotal :: "64 word"
  sn_DiskPercent :: f64
  sn_NetRecvMBps :: f64
  sn_NetSentMBps :: f64
  sn_LoadAvg1 :: f64
  sn_LoadAvg5 :: f64
  sn_LoadAvg15 :: f64
  sn_TopProcs :: "proc_info list"

definition zero_snapshot :: snapshot where
  "zero_snapshot =
     \<lparr>sn_Timestamp = 0, sn_CPUPercent = Fin 0, sn_MemUsed = 0, sn_MemTotal = 0, sn_MemPercent = Fin 0,
      sn_SwapUsed = 0, sn_SwapTotal = 0, sn_SwapPercent = Fin 0, sn_DiskUsed = 0, sn_DiskTotal = 0,
      sn_DiskPercent = Fin 0, sn_NetRecvMBps = Fin 0, sn_NetSentMBps = Fin 0, sn_LoadAvg1 = Fin 0,
      sn_LoadAvg5 = Fin 0, sn_LoadAvg15 = Fin 0, sn_TopProcs = []\<rparr>"

record cycle_record =
  cr_Snapshot :: snapshot
  cr_Action :: string
  cr_Analysis :: string
  cr_Reason :: string
  cr_Command :: string
  cr_CycleNum :: int
  cr_Timestamp :: time
  cr_TriggerCPU :: f64
  cr_TriggerRAM :: f64
  cr_TriggerDisk :: f64
  cr_Confidence :: f64

definition new_cycle_record :: "snapshot \<Rightarrow> string \<Rightarrow> string \<Rightarrow> string \<Rightarrow> string \<Rightarrow> cycle_record" where
  "new_cycle_record snap action analysis reason command =
     \<lparr>cr_Snapshot = snap, cr_Action = action, cr_Analysis = analysis, cr_Reason = reason,
      cr_Command = command, cr_CycleNum = 0, cr_Timestamp = sn_Timestamp snap,
      cr_TriggerCPU = Fin 0, cr_TriggerRAM = Fin 0, cr_TriggerDisk = Fin 0, cr_Confidence = Fin 0\<rparr>"

section \<open>The JSON store\<close>

definition max_history :: nat where "max_history = 20"
definition current_state_version :: int where "current_state_version = 1"

record json_state =
  js_filepath :: string
  js_Version :: int
  js_History :: "snapshot list"
  js_Cycles :: "cycle_record list"
  js_CycleNum :: int

definition empty_state :: "string \<Rightarrow> json_state" where
  "empty_state path = \<lparr>js_filepath = path, js_Version = 0, js_History = [], js_Cycles = [], js_CycleNum = 0\<rparr>"

definition js_add :: "snapshot \<Rightarrow> json_state \<Rightarrow> json_state" where
  "js_add snap s0 =
     (let s = s0\<lparr>js_History := js_History s0 @ [snap]\<rparr>
      in if max_history < length (js_History s)
         then s\<lparr>js_History := drop (length (js_History s) - max_history) (js_History s)\<rparr> else s)"

definition js_add_cycle :: "cycle_record \<Rightarrow> json_state \<Rightarrow> json_state" where
  "js_add_cycle record s0 =
     (let n = js_CycleNum s0 + 1;
          s = s0\<lparr>js_CycleNum := n, js_Cycles := js_Cycles s0 @ [record\<lparr>cr_CycleNum := n\<rparr>]\<rparr>
      in if max_history < length (js_Cycles s)
         then s\<lparr>js_Cycles := drop (length (js_Cycles s) - max_history) (js_Cycles s)\<rparr> else s)"

definition js_current_cycle :: "json_state \<Rightarrow> int" where
  "js_current_cycle s = js_CycleNum s"

text \<open>\<open>Last\<close> and \<open>LastCycles\<close>: clamp to what there is, then copy the tail.\<close>

definition go_last :: "int \<Rightarrow> 'a list \<Rightarrow> 'a list option" where
  "go_last n xs =
     (let m = (if int (length xs) < n then int (length xs) else n)
      in if m < 0 then None else Some (drop (length xs - nat m) xs))"

definition js_last :: "int \<Rightarrow> json_state \<Rightarrow> snapshot list option" where
  "js_last n s = go_last n (js_History s)"

definition js_last_cycles :: "int \<Rightarrow> json_state \<Rightarrow> cycle_record list option" where
  "js_last_cycles n s = go_last n (js_Cycles s)"

text \<open>
  The file. \<open>encode\<close> is \<open>json.MarshalIndent\<close>; \<open>decode\<close> is \<open>json.Unmarshal\<close> into a given state and reports
  whether it succeeded, since a decoding error can leave the fields read before it. \<open>js_save\<close> returns
  the bytes that \<open>os.WriteFile\<close> is asked to write, and \<open>None\<close> when the state cannot be encoded.
\<close>

definition js_save :: "(json_state \<Rightarrow> string option) \<Rightarrow> json_state \<Rightarrow> (string \<times> string) option" where
  "js_save encode s = map_option (Pair (js_filepath s)) (encode s)"

definition js_migrate_from :: "int \<Rightarrow> json_state \<Rightarrow> json_state" where
  "js_migrate_from v s = (if current_state_version \<le> v then s else s\<lparr>js_Version := current_state_version\<rparr>)"

definition js_load :: "(string \<Rightarrow> json_state \<Rightarrow> json_state \<times> bool) \<Rightarrow> string option \<Rightarrow> json_state \<Rightarrow> json_state" where
  "js_load decode file s =
     (case file of
        None \<Rightarrow> s\<lparr>js_Version := current_state_version\<rparr>
      | Some data \<Rightarrow>
          (case decode data s of
             (s', ok) \<Rightarrow>
               if \<not> ok then s'\<lparr>js_History := [], js_Cycles := [], js_Version := current_state_version\<rparr>
               else js_migrate_from (js_Version s') s'))"

definition new_state :: "(string \<Rightarrow> json_state \<Rightarrow> json_state \<times> bool) \<Rightarrow> (string \<Rightarrow> string option) \<Rightarrow> string \<Rightarrow> json_state" where
  "new_state decode fs path = js_load decode (fs path) (empty_state path)"

section \<open>Facts\<close>

lemma js_add_history: "js_History (js_add x s) = last_n max_history (js_History s @ [x])"
  by (auto simp: js_add_def last_n_def Let_def)

lemma js_add_frame [simp]:
  "js_Cycles (js_add x s) = js_Cycles s" "js_CycleNum (js_add x s) = js_CycleNum s"
  "js_Version (js_add x s) = js_Version s" "js_filepath (js_add x s) = js_filepath s"
  by (simp_all add: js_add_def Let_def)

lemma js_add_cycle_cycles:
  "js_Cycles (js_add_cycle r s) = last_n max_history (js_Cycles s @ [r\<lparr>cr_CycleNum := js_CycleNum s + 1\<rparr>])"
  by (auto simp: js_add_cycle_def last_n_def Let_def)

lemma js_add_cycle_frame [simp]:
  "js_History (js_add_cycle r s) = js_History s" "js_CycleNum (js_add_cycle r s) = js_CycleNum s + 1"
  "js_Version (js_add_cycle r s) = js_Version s" "js_filepath (js_add_cycle r s) = js_filepath s"
  by (simp_all add: js_add_cycle_def Let_def)

lemma go_last_eq: "0 \<le> n \<Longrightarrow> go_last n xs = Some (last_n (nat n) xs)"
  by (auto simp: go_last_def last_n_def Let_def nat_le_iff)

lemma go_last_negative: "n < 0 \<Longrightarrow> go_last n xs = None"
  by (simp add: go_last_def)

text \<open>The histories are bounded and the cycle numbers of the remembered decisions are consecutive.\<close>

definition js_inv :: "json_state \<Rightarrow> bool" where
  "js_inv s \<longleftrightarrow>
     length (js_History s) \<le> max_history \<and> length (js_Cycles s) \<le> max_history
     \<and> map cr_CycleNum (js_Cycles s)
         = map (\<lambda>i. js_CycleNum s - int (length (js_Cycles s)) + 1 + int i) [0..<length (js_Cycles s)]"

lemma js_inv_empty: "js_inv (empty_state p)"
  by (simp add: js_inv_def empty_state_def)

lemma js_inv_add: "js_inv s \<Longrightarrow> js_inv (js_add x s)"
  by (simp add: js_inv_def js_add_history)

lemma map_last_n: "map f (last_n n xs) = last_n n (map f xs)"
  by (simp add: last_n_def drop_map)

lemma js_inv_add_cycle: "js_inv s \<Longrightarrow> js_inv (js_add_cycle r s)"
proof -
  assume inv: "js_inv s"
  let ?k = "length (js_Cycles s)" and ?N = "js_CycleNum s"
  let ?all = "map (\<lambda>i. ?N - int ?k + 1 + int i) [0..<Suc ?k]"
  have "map cr_CycleNum (js_Cycles s @ [r\<lparr>cr_CycleNum := ?N + 1\<rparr>]) = ?all"
    using inv by (simp add: js_inv_def)
  then have m: "map cr_CycleNum (js_Cycles (js_add_cycle r s)) = last_n max_history ?all"
    by (simp only: js_add_cycle_cycles map_last_n)
  have len: "length (js_Cycles (js_add_cycle r s)) = min max_history (Suc ?k)"
    by (simp add: js_add_cycle_cycles)
  have "last_n max_history ?all
      = map (\<lambda>i. (?N + 1) - int (min max_history (Suc ?k)) + 1 + int i) [0..<min max_history (Suc ?k)]"
    by (rule nth_equalityI) (auto simp: last_n_def nth_append min_def simp del: upt_Suc)
  then show ?thesis
    using inv unfolding js_inv_def m len by (simp add: js_add_history)
qed

end
