(* ===== verification/JX_Print.thy ===== *)
theory JX_Print
  imports JX_Json
begin

text \<open>
  The part of \<open>encoding/json\<close> that writes: \<open>json.Marshal\<close>, \<open>MarshalIndent\<close> and \<open>Encoder.Encode\<close> turn a
  value into the bytes the runtime stores or sends. A string is escaped the way \<open>appendString\<close> does with
  HTML escaping on, which is the default of all three: quotes, backslashes, control bytes and \<open><>&\<close> become
  escapes, the two line separators of Unicode too, and a byte that is not valid UTF-8 becomes the escape of
  the replacement character. One printer, \<open>json_print\<close>, serves the compact and the indented style.

  The main lemma, \<open>parse_json_print\<close>, says that reading what was written gives the value back, up to
  the replacement of invalid UTF-8 inside its strings.
\<close>

section \<open>Strings\<close>

definition hex_digit :: "nat \<Rightarrow> char" where
  "hex_digit d = char_of (if d < 10 then 0x30 + d else 0x61 + (d - 10))"

definition html_safe :: "char \<Rightarrow> bool" where
  "html_safe c \<longleftrightarrow> 0x20 \<le> byte c \<and> c \<noteq> CHR 0x22 \<and> c \<noteq> CHR 0x5C \<and> c \<noteq> CHR ''<'' \<and> c \<noteq> CHR ''>'' \<and> c \<noteq> CHR ''&''"

text \<open>One byte below 0x80.\<close>

definition escape_byte :: "char \<Rightarrow> string" where
  "escape_byte c =
     (if html_safe c then [c]
      else if c = CHR 0x22 \<or> c = CHR 0x5C then [CHR 0x5C, c]
      else if c = CHR 0x08 then [CHR 0x5C, CHR ''b'']
      else if c = CHR 0x0C then [CHR 0x5C, CHR ''f'']
      else if c = CHR 0x0A then [CHR 0x5C, CHR ''n'']
      else if c = CHR 0x0D then [CHR 0x5C, CHR ''r'']
      else if c = CHR 0x09 then [CHR 0x5C, CHR ''t'']
      else [CHR 0x5C, CHR ''u'', CHR ''0'', CHR ''0'', hex_digit (byte c div 16), hex_digit (byte c mod 16)])"

text \<open>A rune of more than one byte, which is copied unless it is one of the two line separators.\<close>

definition escape_rune :: "string \<Rightarrow> string" where
  "escape_rune r =
     (if r = [CHR 0xE2, CHR 0x80, CHR 0xA8] then CHR 0x5C # ''u2028''
      else if r = [CHR 0xE2, CHR 0x80, CHR 0xA9] then CHR 0x5C # ''u2029''
      else r)"

fun escape_string :: "string \<Rightarrow> string" where
  "escape_string [] = []"
| "escape_string (c # r) =
     (if byte c < 0x80 then escape_byte c @ escape_string r
      else let k = rune_len (c # r) in
        if k = 1 then (CHR 0x5C # ''ufffd'') @ escape_string r
        else escape_rune (take k (c # r)) @ escape_string (drop (k - 1) r))"

text \<open>What a reader gets back: invalid bytes are replaced.\<close>

fun clean_utf8 :: "string \<Rightarrow> string" where
  "clean_utf8 [] = []"
| "clean_utf8 (c # r) =
     (if byte c < 0x80 then c # clean_utf8 r
      else let k = rune_len (c # r) in
        if k = 1 then replacement @ clean_utf8 r
        else take k (c # r) @ clean_utf8 (drop (k - 1) r))"

text \<open>\<open>utf8.ValidString\<close>.\<close>

fun valid_utf8 :: "string \<Rightarrow> bool" where
  "valid_utf8 [] = True"
| "valid_utf8 (c # r) =
     (if byte c < 0x80 then valid_utf8 r
      else let k = rune_len (c # r) in k \<noteq> 1 \<and> valid_utf8 (drop (k - 1) r))"

definition quote_json :: "string \<Rightarrow> string" where
  "quote_json s = CHR 0x22 # escape_string s @ [CHR 0x22]"

lemma rune_len_Cons: "1 \<le> rune_len (c # r)" "rune_len (c # r) \<le> Suc (length r)"
  using rune_len_bounds [of "c # r"] by simp_all

lemma clean_valid: "valid_utf8 s \<Longrightarrow> clean_utf8 s = s"
proof (induction s rule: valid_utf8.induct)
  case (2 c r)
  show ?case
  proof (cases "byte c < 0x80")
    case False
    let ?k = "rune_len (c # r)"
    have "take ?k (c # r) @ drop (?k - 1) r = c # r"
      using rune_len_Cons(1) [of c r] by (cases ?k) auto
    with False 2 show ?thesis by (auto simp: Let_def simp del: rune_len.simps)
  qed (use 2 in simp)
qed simp

section \<open>Values\<close>

text \<open>
  \<open>sep l\<close> is what \<open>MarshalIndent\<close> puts before an element of nesting level \<open>l\<close> and before the bracket that
  closes level \<open>l\<close>; \<open>colon\<close> separates a key from its value. An empty array or object stays on one line.
\<close>

fun json_print :: "(nat \<Rightarrow> string) \<Rightarrow> string \<Rightarrow> nat \<Rightarrow> json \<Rightarrow> string" where
  "json_print sep colon l JNull = ''null''"
| "json_print sep colon l (JBool b) = (if b then ''true'' else ''false'')"
| "json_print sep colon l (JNum t) = t"
| "json_print sep colon l (JStr s) = quote_json s"
| "json_print sep colon l (JArr vs) =
     (if vs = [] then ''[]''
      else ''['' @ sep (Suc l) @ join ('','' @ sep (Suc l)) (map (json_print sep colon (Suc l)) vs) @ sep l @ '']'')"
| "json_print sep colon l (JObj ms) =
     (if ms = [] then ''{}''
      else ''{'' @ sep (Suc l)
        @ join ('','' @ sep (Suc l)) (map (\<lambda>(k, v). quote_json k @ colon @ json_print sep colon (Suc l) v) ms)
        @ sep l @ ''}'')"

definition json_text :: "json \<Rightarrow> string" where
  "json_text j = json_print (\<lambda>_. []) '':'' 0 j"

definition indent_sep :: "nat \<Rightarrow> string" where
  "indent_sep l = nl @ concat (replicate l ''  '')"

text \<open>\<open>json.MarshalIndent(v, "", "  ")\<close>, and the line that \<open>Encoder.Encode\<close> writes.\<close>

definition json_indent :: "json \<Rightarrow> string" where
  "json_indent j = json_print indent_sep '': '' 0 j"

definition json_line :: "json \<Rightarrow> string" where
  "json_line j = json_text j @ nl"

text \<open>What a reader gets back from a whole value, how deep it nests, and when its numbers are well written.\<close>

fun clean_json :: "json \<Rightarrow> json" where
  "clean_json (JStr s) = JStr (clean_utf8 s)"
| "clean_json (JArr vs) = JArr (map clean_json vs)"
| "clean_json (JObj ms) = JObj (map (\<lambda>(k, v). (clean_utf8 k, clean_json v)) ms)"
| "clean_json j = j"

fun json_depth :: "json \<Rightarrow> nat" where
  "json_depth (JArr vs) = Suc (foldr max (map json_depth vs) 0)"
| "json_depth (JObj ms) = Suc (foldr max (map (\<lambda>(k, v). json_depth v) ms) 0)"
| "json_depth j = 0"

definition number_ok :: "string \<Rightarrow> bool" where
  "number_ok t \<longleftrightarrow> scan_number t = Some (t, [])"

fun numbers_ok :: "json \<Rightarrow> bool" where
  "numbers_ok (JNum t) = number_ok t"
| "numbers_ok (JArr vs) = list_all numbers_ok vs"
| "numbers_ok (JObj ms) = list_all (\<lambda>(k, v). numbers_ok v) ms"
| "numbers_ok j = True"

fun strings_valid :: "json \<Rightarrow> bool" where
  "strings_valid (JStr s) = valid_utf8 s"
| "strings_valid (JArr vs) = list_all strings_valid vs"
| "strings_valid (JObj ms) = list_all (\<lambda>(k, v). valid_utf8 k \<and> strings_valid v) ms"
| "strings_valid j = True"

lemma clean_json_valid: "strings_valid j \<Longrightarrow> clean_json j = j"
proof (induction j rule: clean_json.induct)
  case (2 vs)
  then show ?case by (simp add: list_all_iff map_idI)
next
  case (3 ms)
  have "(\<lambda>(k, v). (clean_utf8 k, clean_json v)) m = m" if "m \<in> set ms" for m
    using 3 that by (cases m) (auto simp: list_all_iff clean_valid)
  then show ?case by (simp add: map_idI)
qed (simp_all add: clean_valid)

section \<open>Reading back a string\<close>

lemma scan_string_quote: "scan_string (Suc n) (CHR 0x22 # q) = Some ([], q)"
  by simp

lemma scan_string_plain:
  "0x20 \<le> byte c \<Longrightarrow> byte c < 0x80 \<Longrightarrow> c \<noteq> CHR 0x22 \<Longrightarrow> c \<noteq> CHR 0x5C \<Longrightarrow>
     scan_string (Suc n) (c # s) = map_option (\<lambda>(t, q). (c # t, q)) (scan_string n s)"
  by (simp add: Let_def)

lemma scan_string_escape:
  "scan_escape s = Some (e, s') \<Longrightarrow>
     scan_string (Suc n) (CHR 0x5C # s) = map_option (\<lambda>(t, q). (e @ t, q)) (scan_string n s')"
  by simp

text \<open>Only the first bytes of a string decide how long its first rune is.\<close>

lemma rune_len_cases:
  assumes "2 \<le> rune_len (c # cs)"
  obtains (Two) c1 r where "cs = c1 # r" "0xC2 \<le> byte c" "byte c \<le> 0xDF" "is_cont c1"
  | (Three) c1 c2 r where "cs = c1 # c2 # r" "0xE0 \<le> byte c" "byte c \<le> 0xEF" "is_cont c1" "is_cont c2"
      "byte c = 0xE0 \<longrightarrow> 0xA0 \<le> byte c1" "byte c = 0xED \<longrightarrow> byte c1 \<le> 0x9F"
  | (Four) c1 c2 c3 r where "cs = c1 # c2 # c3 # r" "0xF0 \<le> byte c" "byte c \<le> 0xF4" "is_cont c1" "is_cont c2"
      "is_cont c3" "byte c = 0xF0 \<longrightarrow> 0x90 \<le> byte c1" "byte c = 0xF4 \<longrightarrow> byte c1 \<le> 0x8F"
proof -
  consider "0xC2 \<le> byte c \<and> byte c \<le> 0xDF" | "0xE0 \<le> byte c \<and> byte c \<le> 0xEF"
    | "0xF0 \<le> byte c \<and> byte c \<le> 0xF4"
    using assms by (auto simp: Let_def split: if_splits)
  then show thesis
  proof cases
    case 1
    with assms Two show thesis by (auto simp: Let_def split: list.splits if_splits)
  next
    case 2
    with assms Three show thesis by (auto simp: Let_def split: list.splits if_splits)
  next
    case 3
    with assms Four show thesis by (auto simp: Let_def split: list.splits if_splits)
  qed
qed

lemma rune_len_take: "2 \<le> rune_len (c # s) \<Longrightarrow> rune_len (take (rune_len (c # s)) (c # s) @ t) = rune_len (c # s)"
  by (erule rune_len_cases) (simp_all add: Let_def)

lemma rune_len_high: "2 \<le> rune_len (c # s) \<Longrightarrow> 0x80 \<le> byte c"
  by (erule rune_len_cases) simp_all

lemma scan_string_rune:
  assumes "2 \<le> rune_len (c # r)"
  shows "scan_string (Suc n) (take (rune_len (c # r)) (c # r) @ s)
    = map_option (\<lambda>(t, q). (take (rune_len (c # r)) (c # r) @ t, q)) (scan_string n s)"
proof -
  let ?k = "rune_len (c # r)"
  obtain k' where k: "?k = Suc k'" using assms by (cases ?k) auto
  have hd: "take ?k (c # r) = c # take k' r" by (simp add: k del: rune_len.simps)
  have b: "0x80 \<le> byte c" using assms by (rule rune_len_high)
  then have ne: "c \<noteq> CHR 0x22" "c \<noteq> CHR 0x5C" by auto
  have len: "rune_len (c # take k' r @ s) = ?k"
    using rune_len_take [OF assms, of s] by (simp only: hd append_Cons)
  have l: "length (c # take k' r) = ?k"
    using rune_len_Cons(2) [of c r] k by simp
  have "take ?k (c # take k' r @ s) = c # take k' r" "drop ?k (c # take k' r @ s) = s"
    using l by (metis append_Cons append_eq_conv_conj, metis append_Cons append_eq_conv_conj)
  with ne b len assms show ?thesis
    unfolding hd append_Cons by (simp add: Let_def del: rune_len.simps take_Cons drop_Cons)
qed

lemma hex_val_digit [simp]: "d < 16 \<Longrightarrow> hex_val (hex_digit d) = Some d"
  by (auto simp: hex_val_def hex_digit_def Let_def take_bit_nat_def)

lemma scan_escape_u00:
  assumes "byte c < 0x80"
  shows "scan_escape (CHR ''u'' # CHR ''0'' # CHR ''0'' # hex_digit (byte c div 16) # hex_digit (byte c mod 16) # s)
    = Some ([c], s)"
proof -
  have h: "hex_val (CHR ''0'') = Some 0" by (simp add: hex_val_def)
  have "byte c div 16 < 16" using assms by simp
  then have "hex4 (CHR ''0'' # CHR ''0'' # hex_digit (byte c div 16) # hex_digit (byte c mod 16) # s) = Some (byte c, s)"
    by (simp add: h)
  with assms show ?thesis
    by (simp add: scan_escape_def scan_u_def utf8_encode_def)
qed

lemma escape_byte_back:
  assumes "byte c < 0x80"
  shows "\<exists>a r. escape_byte c = a # r
    \<and> (\<forall>n s. scan_string (Suc n) (escape_byte c @ s) = map_option (\<lambda>(t, q). (c # t, q)) (scan_string n s))"
proof (cases "html_safe c")
  case True
  then have "0x20 \<le> byte c" "c \<noteq> CHR 0x22" "c \<noteq> CHR 0x5C" by (simp_all add: html_safe_def)
  with assms True show ?thesis by (simp add: escape_byte_def scan_string_plain del: scan_string.simps)
next
  case False
  consider "c \<in> {CHR 0x22, CHR 0x5C, CHR 0x08, CHR 0x0C, CHR 0x0A, CHR 0x0D, CHR 0x09}"
    | "c \<notin> {CHR 0x22, CHR 0x5C, CHR 0x08, CHR 0x0C, CHR 0x0A, CHR 0x0D, CHR 0x09}" by blast
  then show ?thesis
  proof cases
    case 1
    with False show ?thesis
      by (auto simp: escape_byte_def scan_escape_def scan_string_escape simp del: scan_string.simps)
  next
    case 2
    with False have "escape_byte c = [CHR 0x5C, CHR ''u'', CHR ''0'', CHR ''0'',
        hex_digit (byte c div 16), hex_digit (byte c mod 16)]"
      by (simp add: escape_byte_def)
    with scan_string_escape [OF scan_escape_u00 [OF assms]] show ?thesis
      by (simp del: scan_string.simps)
  qed
qed

lemma scan_escape_ufffd: "scan_escape (''ufffd'' @ s) = Some (replacement, s)"
  by (simp add: scan_escape_def scan_u_def hex_val_def utf8_encode_def char_of_def bit_nat_def)

lemma scan_escape_u2028: "scan_escape (''u2028'' @ s) = Some ([CHR 0xE2, CHR 0x80, CHR 0xA8], s)"
  by (simp add: scan_escape_def scan_u_def hex_val_def utf8_encode_def char_of_def bit_nat_def)

lemma scan_escape_u2029: "scan_escape (''u2029'' @ s) = Some ([CHR 0xE2, CHR 0x80, CHR 0xA9], s)"
  by (simp add: scan_escape_def scan_u_def hex_val_def utf8_encode_def char_of_def bit_nat_def)

lemma escape_rune_back:
  assumes "2 \<le> rune_len (c # r)"
  shows "scan_string (Suc n) (escape_rune (take (rune_len (c # r)) (c # r)) @ s)
    = map_option (\<lambda>(t, q). (take (rune_len (c # r)) (c # r) @ t, q)) (scan_string n s)"
proof -
  let ?u = "take (rune_len (c # r)) (c # r)"
  consider "?u = [CHR 0xE2, CHR 0x80, CHR 0xA8]" | "?u = [CHR 0xE2, CHR 0x80, CHR 0xA9]"
    | "escape_rune ?u = ?u" unfolding escape_rune_def by argo
  then show ?thesis
  proof cases
    case 1
    show ?thesis unfolding 1 using scan_string_escape [OF scan_escape_u2028]
      by (simp add: escape_rune_def del: scan_string.simps)
  next
    case 2
    show ?thesis unfolding 2 using scan_string_escape [OF scan_escape_u2029]
      by (simp add: escape_rune_def del: scan_string.simps)
  next
    case 3
    then show ?thesis using scan_string_rune [OF assms] by (simp only:)
  qed
qed

lemma escape_rune_nonempty: "2 \<le> rune_len (c # r) \<Longrightarrow> 1 \<le> length (escape_rune (take (rune_len (c # r)) (c # r)))"
  by (cases "rune_len (c # r)") (auto simp: escape_rune_def simp del: rune_len.simps)

text \<open>Reading the body of a string that was escaped, with any fuel longer than the text.\<close>

lemma scan_escape_string:
  "length (escape_string s) < n \<Longrightarrow>
     scan_string n (escape_string s @ CHR 0x22 # q) = Some (clean_utf8 s, q)"
proof (induction s arbitrary: n rule: escape_string.induct)
  case 1
  then show ?case by (cases n) simp_all
next
  case (2 c r)
  obtain m where n: "n = Suc m" using "2.prems" by (cases n) auto
  show ?case
  proof (cases "byte c < 0x80")
    case True
    from escape_byte_back [OF True] have l: "1 \<le> length (escape_byte c)"
      and b: "\<And>s. scan_string (Suc m) (escape_byte c @ s) = map_option (\<lambda>(t, q). (c # t, q)) (scan_string m s)"
      by auto
    have "scan_string m (escape_string r @ CHR 0x22 # q) = Some (clean_utf8 r, q)"
      using "2.IH"(1) [OF True] "2.prems" True l n by simp
    with True n b show ?thesis by (simp del: scan_string.simps)
  next
    case False
    let ?k = "rune_len (c # r)"
    show ?thesis
    proof (cases "?k = 1")
      case True
      have "scan_string m (escape_string r @ CHR 0x22 # q) = Some (clean_utf8 r, q)"
        using "2.IH"(2) [OF False refl True] "2.prems" False True n by (simp del: rune_len.simps)
      with False True n scan_string_escape [OF scan_escape_ufffd] show ?thesis
        by (simp del: scan_string.simps rune_len.simps)
    next
      case k: False
      then have k2: "2 \<le> ?k" using rune_len_Cons(1) [of c r] by simp
      have "scan_string m (escape_string (drop (?k - 1) r) @ CHR 0x22 # q) = Some (clean_utf8 (drop (?k - 1) r), q)"
        using "2.IH"(3) [OF False refl k] "2.prems" False k n escape_rune_nonempty [OF k2]
        by (simp add: Let_def del: rune_len.simps take_Cons)
      with False k n escape_rune_back [OF k2] show ?thesis
        by (simp add: Let_def del: scan_string.simps rune_len.simps take_Cons)
    qed
  qed
qed

lemma scan_quoted:
  "scan_string (Suc (length (escape_string s @ CHR 0x22 # q))) (escape_string s @ CHR 0x22 # q)
    = Some (clean_utf8 s, q)"
  by (rule scan_escape_string) simp

section \<open>Reading back a number\<close>

text \<open>What may follow a number so that the reader stops at its end.\<close>

definition ends_number :: "string \<Rightarrow> bool" where
  "ends_number q \<longleftrightarrow> (case q of [] \<Rightarrow> True | c # _ \<Rightarrow> \<not> is_digit c \<and> c \<notin> set ''.eE'')"

lemma take_digits_end:
  assumes "take_digits s = (d, [])" "ends_number q"
  shows "take_digits (s @ q) = (d, q)"
proof -
  have all: "\<forall>x\<in>set s. is_digit x" using assms(1) by (auto simp: take_digits_def dropWhile_eq_Nil_conv)
  then have d: "d = s" using assms(1) by (simp add: take_digits_def takeWhile_eq_all_conv [THEN iffD2])
  have "takeWhile is_digit q = []" "dropWhile is_digit q = q"
    using assms(2) by (cases q; simp add: ends_number_def)+
  with all d show ?thesis by (simp add: take_digits_def takeWhile_append2 dropWhile_append2)
qed

lemma take_digits_more: "take_digits s = (d, c # r) \<Longrightarrow> take_digits (s @ q) = (d, c # r @ q)"
proof -
  assume a: "take_digits s = (d, c # r)"
  then have "dropWhile is_digit s = c # r" "takeWhile is_digit s = d" by (simp_all add: take_digits_def)
  moreover from this have "\<not> (\<forall>x\<in>set s. is_digit x)" by (metis dropWhile_eq_Nil_conv list.distinct(1))
  ultimately show ?thesis by (auto simp: take_digits_def takeWhile_append dropWhile_append)
qed

lemma take_digits_append:
  "take_digits s = (d, r) \<Longrightarrow> ends_number q \<Longrightarrow> take_digits (s @ q) = (d, r @ q)"
  using take_digits_end take_digits_more by (cases r) auto

lemma scan_int_append: "scan_int s = Some (i, r) \<Longrightarrow> ends_number q \<Longrightarrow> scan_int (s @ q) = Some (i, r @ q)"
  using take_digits_append [of s i r q]
  by (cases s) (auto simp: scan_int_def take_digits_def split: if_splits)

lemma scan_frac_append: "scan_frac s = Some (f, r) \<Longrightarrow> ends_number q \<Longrightarrow> scan_frac (s @ q) = Some (f, r @ q)"
  using take_digits_append [of "tl s" _ r q]
  by (cases s; cases q) (auto simp: scan_frac_def ends_number_def split: if_splits prod.splits)

lemma scan_exp_append: "scan_exp s = Some (e, r) \<Longrightarrow> ends_number q \<Longrightarrow> scan_exp (s @ q) = Some (e, r @ q)"
proof -
  assume a: "scan_exp s = Some (e, r)" and q: "ends_number q"
  show ?thesis
  proof (cases "prefix ''e'' s \<or> prefix ''E'' s")
    case False
    with a have "e = []" "r = s" by (auto simp: scan_exp_def)
    with False q show ?thesis by (cases s; cases q) (auto simp: scan_exp_def ends_number_def)
  next
    case True
    then obtain c s' where s: "s = c # s'" and c: "c = CHR ''e'' \<or> c = CHR ''E''"
      by (cases s) auto
    let ?sg = "if prefix ''+'' s' \<or> prefix ''-'' s' then [hd s'] else []"
    obtain d r' where t: "take_digits (drop (length ?sg) s') = (d, r')" by fastforce
    have d: "d \<noteq> []" "e = c # ?sg @ d" "r = r'"
      using a t s c by (auto simp: scan_exp_def Let_def split: if_splits)
    have "s' \<noteq> []" using t d by (cases s') (auto simp: take_digits_def)
    then have sg: "(if prefix ''+'' (s' @ q) \<or> prefix ''-'' (s' @ q) then [hd (s' @ q)] else []) = ?sg"
      by (cases s') auto
    have "drop (length ?sg) (s' @ q) = drop (length ?sg) s' @ q"
      using \<open>s' \<noteq> []\<close> by (cases s') auto
    with take_digits_append [OF t q] sg d s c show ?thesis
      by (auto simp: scan_exp_def Let_def split: if_splits)
  qed
qed

lemma scan_number_parts:
  assumes "scan_number t = Some (u, r)"
  obtains i r1 f r2 e where
    "scan_int (drop (length (if prefix ''-'' t then ''-'' else [])) t) = Some (i, r1)"
    "scan_frac r1 = Some (f, r2)" "scan_exp r2 = Some (e, r)"
    "(if prefix ''-'' t then ''-'' else []) @ i @ f @ e = u"
  using assms by (auto simp: scan_number_def Let_def split: option.splits)

lemma scan_number_append:
  assumes "number_ok t" "ends_number q"
  shows "scan_number (t @ q) = Some (t, q)"
proof -
  let ?sg = "if prefix ''-'' t then ''-'' else []"
  obtain i r1 f r2 e where i: "scan_int (drop (length ?sg) t) = Some (i, r1)" and f: "scan_frac r1 = Some (f, r2)"
    and e: "scan_exp r2 = Some (e, [])" and t: "?sg @ i @ f @ e = t"
    using assms(1) by (auto simp: number_ok_def elim: scan_number_parts)
  have ne: "t \<noteq> []" using i by (auto simp: scan_int_def)
  then have sg: "(if prefix ''-'' (t @ q) then ''-'' else []) = ?sg" by (cases t) auto
  have dr: "drop (length ?sg) (t @ q) = drop (length ?sg) t @ q" using ne by (cases t) auto
  show ?thesis
    unfolding scan_number_def Let_def sg dr
    using scan_int_append [OF i assms(2)] scan_frac_append [OF f assms(2)] scan_exp_append [OF e assms(2)] t
    by simp
qed

lemma number_ok_start: "number_ok t \<Longrightarrow> \<exists>c r. t = c # r \<and> (c = CHR ''-'' \<or> is_digit c)"
  by (cases t) (auto simp: number_ok_def scan_number_def scan_int_def is_digit_def split: if_splits option.splits)

section \<open>Reading back a value\<close>

abbreviation white :: "string \<Rightarrow> bool" where "white w \<equiv> list_all json_space w"

lemma skip_ws_white [simp]: "white w \<Longrightarrow> skip_ws (w @ s) = skip_ws s"
  by (induction w) (simp_all add: skip_ws_def)

lemma skip_ws_stop [simp]: "\<not> json_space c \<Longrightarrow> skip_ws (c # s) = c # s"
  by (simp add: skip_ws_def)

lemma json_space_simps [simp]:
  "\<not> json_space (CHR '','')" "\<not> json_space (CHR '':'')" "\<not> json_space (CHR '']'')" "\<not> json_space (CHR ''}'')"
  "\<not> json_space (CHR ''['')" "\<not> json_space (CHR ''{'')" "\<not> json_space (CHR 0x22)" "\<not> json_space (CHR ''t'')"
  "\<not> json_space (CHR ''f'')" "\<not> json_space (CHR ''n'')" "\<not> json_space (CHR ''-'')"
  "is_digit c \<Longrightarrow> \<not> json_space c"
  by (auto simp: json_space_def is_digit_def)

lemma parse_value_white: "white w \<Longrightarrow> parse_value n d (w @ s) = parse_value n d s"
  by (cases n) (simp_all del: scan_string.simps)

lemma parse_members_white: "white w \<Longrightarrow> parse_members n d (w @ s) = parse_members n d s"
  by (cases n) (simp_all del: scan_string.simps)

lemma ends_number_Cons [simp]: "ends_number (c # q) \<longleftrightarrow> \<not> is_digit c \<and> c \<notin> set ''.eE''"
  by (simp add: ends_number_def)

lemma ends_number_white: "white w \<Longrightarrow> ends_number (c # q) \<Longrightarrow> ends_number (w @ c # q)"
  by (cases w) (auto simp: json_space_def is_digit_def)

lemma parse_elems_join:
  assumes "\<And>v q n. v \<in> set vs \<Longrightarrow> ends_number q \<Longrightarrow> 2 * length (pr v @ q) + 1 \<le> n \<Longrightarrow>
      parse_value n d (pr v @ q) = Some (cl v, q)"
    and "white a" "white b" "vs \<noteq> []"
    and "2 * length (a @ join ('','' @ a) (map pr vs) @ b @ CHR '']'' # q) + 2 \<le> n"
  shows "parse_elems n d (a @ join ('','' @ a) (map pr vs) @ b @ CHR '']'' # q) = Some (map cl vs, q)"
  using assms
proof (induction vs arbitrary: n)
  case (Cons v vs)
  obtain m where n: "n = Suc m" using Cons.prems(5) by (cases n) auto
  show ?case
  proof (cases "vs = []")
    case True
    have "parse_value m d (pr v @ b @ CHR '']'' # q) = Some (cl v, b @ CHR '']'' # q)"
      using Cons.prems(3,5) True n by (intro Cons.prems(1)) (auto intro: ends_number_white simp: is_digit_def)
    with True Cons.prems(2,3) n show ?thesis
      by (simp add: parse_value_white)
  next
    case False
    let ?t = "a @ join ('','' @ a) (map pr vs) @ b @ CHR '']'' # q"
    have j: "join (CHR '','' # a) (pr v # map pr vs) = pr v @ CHR '','' # a @ join (CHR '','' # a) (map pr vs)"
      using False by (cases vs) simp_all
    have v: "parse_value m d (pr v @ CHR '','' # ?t) = Some (cl v, CHR '','' # ?t)"
      using Cons.prems(5) n j by (intro Cons.prems(1)) (auto simp: is_digit_def)
    have "parse_elems m d ?t = Some (map cl vs, q)"
      using Cons.prems(2-5) False n j by (intro Cons.IH Cons.prems(1)) auto
    with v Cons.prems(2) n show ?thesis
      by (simp add: parse_value_white j)
  qed
qed simp

lemma parse_members_Suc:
  assumes "ends_number r" "2 * length (pr v @ r) + 1 \<le> m" "white w"
    and "\<And>q n. ends_number q \<Longrightarrow> 2 * length (pr v @ q) + 1 \<le> n \<Longrightarrow> parse_value n d (pr v @ q) = Some (cl v, q)"
  shows "parse_members (Suc m) d (quote_json k @ (CHR '':'' # w) @ pr v @ r) =
    (case skip_ws r of [] \<Rightarrow> None
     | c # q \<Rightarrow>
         if c = CHR '','' then map_option (\<lambda>(ms, q'). ((clean_utf8 k, cl v) # ms, q')) (parse_members m d q)
         else if c = CHR ''}'' then Some ([(clean_utf8 k, cl v)], q) else None)"
proof -
  have v: "parse_value m d (w @ pr v @ r) = Some (cl v, r)"
    using assms by (simp add: parse_value_white)
  let ?r0 = "escape_string k @ CHR 0x22 # CHR '':'' # w @ pr v @ r"
  have "quote_json k @ (CHR '':'' # w) @ pr v @ r = CHR 0x22 # ?r0" by (simp add: quote_json_def)
  moreover have "scan_string (Suc (length ?r0)) ?r0 = Some (clean_utf8 k, CHR '':'' # w @ pr v @ r)"
    by (rule scan_quoted)
  ultimately show ?thesis
    by (simp only: parse_members.simps skip_ws_stop json_space_simps not_False_eq_True list.case simp_thms if_False
        option.case prod.case) (simp add: v)
qed

lemma parse_members_join:
  assumes "\<And>k v q n. (k, v) \<in> set ms \<Longrightarrow> ends_number q \<Longrightarrow> 2 * length (pr v @ q) + 1 \<le> n \<Longrightarrow>
      parse_value n d (pr v @ q) = Some (cl v, q)"
    and "white a" "white b" "white w" "ms \<noteq> []"
    and "2 * length (a @ join ('','' @ a) (map (\<lambda>(k, v). quote_json k @ (CHR '':'' # w) @ pr v) ms) @ b @ CHR ''}'' # q) + 2 \<le> n"
  shows "parse_members n d (a @ join ('','' @ a) (map (\<lambda>(k, v). quote_json k @ (CHR '':'' # w) @ pr v) ms) @ b @ CHR ''}'' # q)
    = Some (map (\<lambda>(k, v). (clean_utf8 k, cl v)) ms, q)"
  using assms
proof (induction ms arbitrary: n)
  case (Cons kv ms)
  obtain k v where kv: "kv = (k, v)" by (cases kv)
  obtain m where n: "n = Suc m" using Cons.prems(6) by (cases n) auto
  let ?pm = "\<lambda>(k, v). quote_json k @ (CHR '':'' # w) @ pr v"
  have step: "parse_members (Suc m) d (quote_json k @ (CHR '':'' # w) @ pr v @ r) =
    (case skip_ws r of [] \<Rightarrow> None
     | c # q \<Rightarrow>
         if c = CHR '','' then map_option (\<lambda>(ms, q'). ((clean_utf8 k, cl v) # ms, q')) (parse_members m d q)
         else if c = CHR ''}'' then Some ([(clean_utf8 k, cl v)], q) else None)"
    if "ends_number r" "2 * length (pr v @ r) + 1 \<le> m" for r
    using that Cons.prems(4) Cons.prems(1) [of k v] kv by (intro parse_members_Suc) auto
  show ?case
  proof (cases "ms = []")
    case True
    have "2 * length (pr v @ b @ CHR ''}'' # q) + 1 \<le> m" using Cons.prems(6) kv n True by simp
    from step [OF _ this] Cons.prems(2,3) kv n True show ?thesis
      by (simp add: parse_members_white ends_number_white is_digit_def)
  next
    case False
    let ?t = "a @ join ('','' @ a) (map ?pm ms) @ b @ CHR ''}'' # q"
    have j: "join (CHR '','' # a) (x # map ?pm ms) = x @ CHR '','' # a @ join (CHR '','' # a) (map ?pm ms)" for x
      using False by (cases ms) simp_all
    have r: "2 * length (pr v @ CHR '','' # ?t) + 1 \<le> m" using Cons.prems(6) kv n j by simp
    have "parse_members m d ?t = Some (map (\<lambda>(k, v). (clean_utf8 k, cl v)) ms, q)"
    proof (rule Cons.IH)
      fix k v q n assume "(k, v) \<in> set ms" "ends_number q" "2 * length (pr v @ q) + 1 \<le> n"
      then show "parse_value n d (pr v @ q) = Some (cl v, q)"
        by (intro Cons.prems(1) [where k = k]) simp_all
    qed (use Cons.prems(2-6) False kv n j in auto)
    with step [OF _ r] Cons.prems(2) kv n j show ?thesis
      by (simp add: parse_members_white is_digit_def)
  qed
qed simp

text \<open>The two styles only differ in white space.\<close>

locale json_style =
  fixes sep :: "nat \<Rightarrow> string" and gap :: string
  assumes sep_white: "white (sep l)" and gap_white: "white gap"
begin

abbreviation pr :: "nat \<Rightarrow> json \<Rightarrow> string" where "pr l j \<equiv> json_print sep (CHR '':'' # gap) l j"

lemma sep_Cons [simp]: "skip_ws (sep l @ s) = skip_ws s"
  by (simp add: sep_white)

lemma print_start: "numbers_ok j \<Longrightarrow> \<exists>c r. pr l j = c # r \<and> \<not> json_space c \<and> c \<noteq> CHR '']'' \<and> c \<noteq> CHR ''}''"
proof (cases j)
  case (JNum t)
  assume "numbers_ok j"
  with JNum number_ok_start [of t] obtain c r where "t = c # r" "c = CHR ''-'' \<or> is_digit c" by fastforce
  moreover from this have "\<not> json_space c" "c \<noteq> CHR '']''" "c \<noteq> CHR ''}''" by (auto simp: is_digit_def)
  ultimately show ?thesis using JNum by simp
qed (simp_all add: quote_json_def)

lemma depth_le: "v \<in> set vs \<Longrightarrow> f v \<le> foldr max (map f vs) (0 :: nat)"
  by (induction vs) auto

lemma parse_print:
  "numbers_ok j \<Longrightarrow> d + json_depth j \<le> max_nesting \<Longrightarrow> ends_number q \<Longrightarrow> 2 * length (pr l j @ q) + 1 \<le> n \<Longrightarrow>
     parse_value n d (pr l j @ q) = Some (clean_json j, q)"
proof (induction j arbitrary: l d q n)
  case JNull
  then obtain m where n: "n = Suc m" by (cases n) auto
  show ?case unfolding n by (simp add: Let_def)
next
  case (JBool b)
  then obtain m where n: "n = Suc m" by (cases n) auto
  show ?case unfolding n by (simp add: Let_def)
next
  case (JNum t)
  then obtain m where n: "n = Suc m" by (cases n) auto
  obtain c r where t: "t = c # r" and c: "c = CHR ''-'' \<or> is_digit c"
    using JNum.prems(1) number_ok_start [of t] by auto
  have "c \<notin> set ''{[tfn'' \<and> c \<noteq> CHR 0x22 \<and> \<not> json_space c" using c by (auto simp: is_digit_def)
  moreover have "scan_number (c # r @ q) = Some (t, q)"
    using scan_number_append [of t q] JNum.prems(1,3) t by simp
  ultimately show ?case using n t by (auto simp: Let_def simp del: scan_string.simps)
next
  case (JStr s)
  then obtain m where n: "n = Suc m" by (cases n) auto
  have e: "pr l (JStr s) @ q = CHR 0x22 # escape_string s @ CHR 0x22 # q" by (simp add: quote_json_def)
  show ?case unfolding n e using scan_quoted [of s q] by (simp add: Let_def del: scan_string.simps)
next
  case (JArr vs)
  then obtain m where n: "n = Suc m" by (cases n) auto
  have d: "\<not> max_nesting \<le> d" using JArr.prems(2) by simp
  show ?case
  proof (cases "vs = []")
    case True
    with n d show ?thesis by (simp add: Let_def)
  next
    case False
    let ?r = "sep (Suc l) @ join ('','' @ sep (Suc l)) (map (pr (Suc l)) vs) @ sep l @ CHR '']'' # q"
    have e: "pr l (JArr vs) @ q = CHR ''['' # ?r" using False by simp
    have "parse_elems m (Suc d) ?r = Some (map clean_json vs, q)"
    proof (rule parse_elems_join)
      fix v q n assume v: "v \<in> set vs" and q: "ends_number q" "2 * length (pr (Suc l) v @ q) + 1 \<le> n"
      have "numbers_ok v" using JArr.prems(1) v by (simp add: list_all_iff)
      moreover have "Suc d + json_depth v \<le> max_nesting"
        using JArr.prems(2) depth_le [OF v, of json_depth] by simp
      ultimately show "parse_value n (Suc d) (pr (Suc l) v @ q) = Some (clean_json v, q)"
        by (rule JArr.IH [OF v _ _ q])
    qed (use JArr.prems(4) e n False in \<open>auto simp: sep_white\<close>)
    moreover have "\<not> prefix '']'' (skip_ws ?r)"
    proof -
      obtain v vs' where vs: "vs = v # vs'" using False by (cases vs) auto
      with JArr.prems(1) have "numbers_ok v" by simp
      from print_start [OF this, of "Suc l"] obtain c r where "pr (Suc l) v = c # r" "\<not> json_space c" "c \<noteq> CHR '']''"
        by blast
      with vs show ?thesis by (cases vs') simp_all
    qed
    ultimately show ?thesis unfolding n e using d by (simp add: Let_def del: scan_string.simps)
  qed
next
  case (JObj ms)
  then obtain m where n: "n = Suc m" by (cases n) auto
  have d: "\<not> max_nesting \<le> d" using JObj.prems(2) by simp
  show ?case
  proof (cases "ms = []")
    case True
    with n d show ?thesis by (simp add: Let_def)
  next
    case False
    let ?pm = "\<lambda>(k, v). quote_json k @ (CHR '':'' # gap) @ pr (Suc l) v"
    let ?r = "sep (Suc l) @ join ('','' @ sep (Suc l)) (map ?pm ms) @ sep l @ CHR ''}'' # q"
    have e: "pr l (JObj ms) @ q = CHR ''{'' # ?r" using False by simp
    have "parse_members m (Suc d) ?r = Some (map (\<lambda>(k, v). (clean_utf8 k, clean_json v)) ms, q)"
    proof (rule parse_members_join)
      fix k v q n assume v: "(k, v) \<in> set ms" and q: "ends_number q" "2 * length (pr (Suc l) v @ q) + 1 \<le> n"
      have "numbers_ok v" using JObj.prems(1) v by (auto simp: list_all_iff)
      moreover have "Suc d + json_depth v \<le> max_nesting"
        using JObj.prems(2) depth_le [OF v, of "\<lambda>(k, v). json_depth v"] by simp
      ultimately show "parse_value n (Suc d) (pr (Suc l) v @ q) = Some (clean_json v, q)"
        using JObj.IH [OF v, of v "Suc d" q "Suc l" n] q by simp
    qed (use JObj.prems(4) e n False in \<open>auto simp: sep_white gap_white\<close>)
    moreover have "\<not> prefix ''}'' (skip_ws ?r)"
    proof -
      obtain k v ms' where "ms = (k, v) # ms'" using False by (cases ms) auto
      then show ?thesis by (cases ms') (simp_all add: quote_json_def)
    qed
    ultimately show ?thesis unfolding n e using d by (simp add: Let_def del: scan_string.simps)
  qed
qed

lemma parse_json_print:
  assumes "numbers_ok j" "json_depth j \<le> max_nesting"
  shows "parse_json (pr l j) = Some (clean_json j)" "parse_json (pr l j @ nl) = Some (clean_json j)"
proof -
  have "parse_value (2 * length (pr l j @ q) + 2) 0 (pr l j @ q) = Some (clean_json j, q)" if "ends_number q" for q
    using assms that by (intro parse_print) simp_all
  from this [of "[]"] this [of nl]
  show "parse_json (pr l j) = Some (clean_json j)" "parse_json (pr l j @ nl) = Some (clean_json j)"
    by (simp_all add: parse_json_def ends_number_def is_digit_def skip_ws_def json_space_def)
qed

end

interpretation compact: json_style "\<lambda>_. []" "[]"
  by unfold_locales simp_all

interpretation indented: json_style indent_sep "'' ''"
  by unfold_locales (simp_all add: indent_sep_def json_space_def list_all_iff)

end
