(* ===== verification/JX_FloatText.thy ===== *)
theory JX_FloatText
  imports JX_Decision JX_Print
begin

text \<open>
  How \<open>encoding/json\<close> writes a \<open>float64\<close> (\<open>floatEncoder\<close>): the shortest decimal that reads back as the
  same value, as \<open>strconv.AppendFloat\<close> with precision -1 finds it, in plain notation between \<open>1e-6\<close> and
  \<open>1e21\<close> and with an exponent outside. NaN and the infinities cannot be written.

  \<open>dec_at q n\<close> is the decimal of \<open>n\<close> digits next to \<open>q\<close> that reads back as \<open>q\<close>, if there is one; the
  search takes the first \<open>n\<close> that has one. In fact 17 digits are always enough; the bound of the search is
  the length at which every \<open>float64\<close> has an exact decimal, so that \<open>shortest_reads\<close> is proved without
  an error analysis.
\<close>

section \<open>The shortest decimal\<close>

text \<open>The decimal exponent of a positive rational: \<open>10^(k-1) \<le> a\<close> and at best \<open>10^k \<le> a < 10^(k+1)\<close>.\<close>

function ilog10 :: "int \<Rightarrow> int" where
  "ilog10 n = (if n < 10 then 0 else 1 + ilog10 (n div 10))"
  by pat_completeness auto
termination
  by (relation "measure nat") auto

declare ilog10.simps [simp del]

definition fexp10 :: "rat \<Rightarrow> int" where
  "fexp10 a =
     (let (n, d) = quotient_of a;
          k = ilog10 n - ilog10 d
      in if 10 powi k \<le> a then k else k - 1)"

definition reads_as :: "rat \<Rightarrow> int \<Rightarrow> int \<Rightarrow> bool" where
  "reads_as q c e \<longleftrightarrow> 0 < c \<and> rnd (of_int c * 10 powi e) = Fin q"

definition dec_at :: "rat \<Rightarrow> int \<Rightarrow> (int \<times> int) option" where
  "dec_at q n =
     (let e = fexp10 q + 1 - n;
          x = q * 10 powi (- e);
          near = rhe x;
          other = (if near = \<lfloor>x\<rfloor> then near + 1 else near - 1)
      in if reads_as q near e then Some (near, e)
         else if reads_as q other e then Some (other, e) else None)"

definition max_digits :: int where "max_digits = 1400"

function shortest :: "rat \<Rightarrow> int \<Rightarrow> (int \<times> int) option" where
  "shortest q n =
     (case dec_at q n of Some ce \<Rightarrow> Some ce
      | None \<Rightarrow> if max_digits \<le> n then None else shortest q (n + 1))"
  by pat_completeness auto
termination
  by (relation "measure (\<lambda>(q, n). nat (max_digits - n))") auto

declare shortest.simps [simp del]

section \<open>Its text\<close>

function dec_digits :: "int \<Rightarrow> string" where
  "dec_digits n = (if n < 10 then [digit_char (nat n)] else dec_digits (n div 10) @ [digit_char (nat (n mod 10))])"
  by pat_completeness auto
termination
  by (relation "measure nat") auto

declare dec_digits.simps [simp del]

definition strip_zeros :: "string \<Rightarrow> string" where
  "strip_zeros s = rev (dropWhile (\<lambda>c. c = CHR ''0'') (rev s))"

abbreviation zeros :: "nat \<Rightarrow> string" where "zeros n \<equiv> replicate n (CHR ''0'')"

text \<open>The digits \<open>ds\<close> stand for \<open>0.ds * 10^dp\<close>; \<open>%f\<close> and \<open>%e\<close> with as many digits as needed.\<close>

definition fixed_text :: "string \<Rightarrow> int \<Rightarrow> string" where
  "fixed_text ds dp =
     (if 0 < dp then take (nat dp) ds @ zeros (nat dp - length ds) else ''0'')
     @ (if dp < int (length ds) then CHR ''.'' # zeros (nat (- dp)) @ drop (nat dp) ds else [])"

text \<open>\<open>encoding/json\<close> rewrites \<open>e-09\<close> to \<open>e-9\<close>, so the exponent has no leading zero.\<close>

definition exponent_text :: "string \<Rightarrow> int \<Rightarrow> string" where
  "exponent_text ds dp =
     hd ds # (if tl ds = [] then [] else CHR ''.'' # tl ds)
     @ CHR ''e'' # (if dp - 1 < 0 then CHR ''-'' else CHR ''+'') # dec_digits \<bar>dp - 1\<bar>"

definition small_limit :: f64 where "small_limit = rnd (1 / 10 ^ 6)"
definition large_limit :: f64 where "large_limit = rnd (10 ^ 21)"

definition pos_text :: "rat \<Rightarrow> string option" where
  "pos_text q =
     (case shortest q 1 of None \<Rightarrow> None
      | Some (c, e) \<Rightarrow>
          let ds = dec_digits c; dp = int (length ds) + e
          in Some (if f_lt (Fin q) small_limit \<or> f_ge (Fin q) large_limit
                   then exponent_text (strip_zeros ds) dp else fixed_text (strip_zeros ds) dp))"

fun float_text :: "f64 \<Rightarrow> string option" where
  "float_text (Fin q) =
     (if q = 0 then Some ''0''
      else if q < 0 then map_option (\<lambda>t. CHR ''-'' # t) (pos_text (- q)) else pos_text q)"
| "float_text _ = None"

section \<open>A decimal that reads back exists\<close>

lemma ilog10_bounds: "0 < n \<Longrightarrow> 0 \<le> ilog10 n \<and> 10 ^ nat (ilog10 n) \<le> n \<and> n < 10 ^ Suc (nat (ilog10 n))"
proof (induction n rule: ilog10.induct)
  case (1 n)
  show ?case
  proof (cases "n < 10")
    case True
    with 1 show ?thesis by (simp add: ilog10.simps [of n])
  next
    case False
    let ?l = "ilog10 (n div 10)"
    have ih: "0 \<le> ?l" "10 ^ nat ?l \<le> n div 10" "n div 10 < 10 ^ Suc (nat ?l)" using 1 False by auto
    then have "10 * 10 ^ nat ?l \<le> n" "n < 10 * 10 ^ Suc (nat ?l)" by linarith+
    moreover have "nat (1 + ?l) = Suc (nat ?l)" using ih(1) by simp
    ultimately show ?thesis using False ih(1) by (simp add: ilog10.simps [of n])
  qed
qed

lemma dec_digits_show: "0 \<le> n \<Longrightarrow> dec_digits n = show_nat (nat n)"
proof (induction n rule: dec_digits.induct)
  case (1 n)
  then show ?case
    by (simp add: dec_digits.simps [of n] show_nat.simps [of "nat n"] nat_div_distrib nat_mod_distrib)
qed

lemma fexp10_lower: "0 < a \<Longrightarrow> 10 powi fexp10 a \<le> a"
proof -
  assume a: "0 < a"
  obtain n d where nd: "quotient_of a = (n, d)" by (cases "quotient_of a")
  then have d: "0 < d" by (rule quotient_of_denom_pos)
  have aeq: "a = of_int n / of_int d" using nd by (rule quotient_of_div)
  with a d have n: "0 < n" by (simp add: zero_less_divide_iff)
  have b: "10 ^ nat (ilog10 n) \<le> (of_int n :: rat)" "(of_int d :: rat) < 10 ^ Suc (nat (ilog10 d))"
    using ilog10_bounds [OF n] ilog10_bounds [OF d] of_int_le_iff [of "10 ^ nat (ilog10 n)" n, where 'a = rat]
      of_int_less_iff [of d "10 ^ Suc (nat (ilog10 d))", where 'a = rat] by simp_all
  have "(10 :: rat) powi (ilog10 n - ilog10 d - 1) = 10 powi (int (nat (ilog10 n)) - int (Suc (nat (ilog10 d))))"
    using ilog10_bounds [OF n] ilog10_bounds [OF d] by (intro arg_cong [where f = "power_int 10"]) linarith
  also have "\<dots> = 10 ^ nat (ilog10 n) / 10 ^ Suc (nat (ilog10 d))"
    by (subst power_int_diff) (simp, simp only: power_int_of_nat)
  also have "\<dots> \<le> a"
    unfolding aeq using b n d by (intro frac_le) auto
  finally show ?thesis by (simp add: fexp10_def nd Let_def)
qed

lemma repr_dyadic:
  assumes "0 < q" "rnd q = Fin q"
  obtains m where "q = of_int m * 2 powi (- 1074)" "q < 2 powi 1024"
proof -
  let ?E = "max (fexp q) (- 1022)"
  have q: "round_pos q = q" "\<not> 1024 \<le> fexp q"
    using assms by (auto simp: rnd_def Let_def split: if_splits)
  have "q = of_int (rhe (q / ulp q)) * 2 powi (?E - 52)"
    using q(1) by (simp add: round_pos_def ulp_def)
  also have "(2::rat) powi (?E - 52) = 2 powi int (nat (?E + 1022)) * 2 powi (- 1074)"
    by (simp only: powi_rat_mult) (rule arg_cong [where f = "power_int 2"], linarith)
  also have "(2::rat) powi int (nat (?E + 1022)) = of_int (2 ^ nat (?E + 1022))"
    by (simp only: power_int_of_nat of_int_power of_int_numeral)
  finally have "q = of_int (rhe (q / ulp q) * 2 ^ nat (?E + 1022)) * 2 powi (- 1074)" by simp
  moreover have "q < 2 powi (fexp q + 1)" using fexp_bounds [OF assms(1)] by simp
  moreover have "(2::rat) powi (fexp q + 1) \<le> 2 powi 1024"
    using q(2) by (simp only: powi_rat_le_iff)
  ultimately show thesis using that by (meson less_le_trans)
qed

lemma two_ten: "(2::rat) powi (- int a) * 10 ^ (a + k) = 5 ^ a * 10 ^ k"
proof -
  have "(10::rat) ^ a = (2 * 5) ^ a" by simp
  then have "(10::rat) ^ (a + k) = 2 ^ a * (5 ^ a * 10 ^ k)"
    by (simp only: power_add power_mult_distrib mult.assoc)
  then show ?thesis by (simp add: power_int_minus)
qed

lemma ten_cancel: "(10::rat) powi (- e) * 10 powi e = 1"
  by (simp add: power_int_minus)

lemma dec_at_exact:
  assumes "0 < q" "rnd q = Fin q"
  shows "dec_at q max_digits \<noteq> None"
proof -
  obtain m where m: "q = of_int m * 2 powi (- 1074)" and up: "q < 2 powi 1024"
    using repr_dyadic [OF assms] .
  have "(10::rat) powi fexp10 q < 2 powi 1024" using fexp10_lower [OF assms(1)] up by linarith
  also have "(2::rat) powi 1024 \<le> 10 powi 309" by simp
  finally have "fexp10 q < 309"
    by (metis linorder_not_le order_less_le_trans order_less_irrefl power_int_increasing one_le_numeral)
  let ?e = "fexp10 q + 1 - max_digits"
  have e: "1074 \<le> - ?e" using \<open>fexp10 q < 309\<close> by (simp add: max_digits_def)
  then obtain k where k: "- ?e = int (1074 + k)" by (metis int_ops(5) of_nat_numeral zle_iff_zadd)
  have "q * 10 powi (- ?e) = of_int m * (2 powi (- 1074) * 10 ^ (1074 + k))"
    unfolding k power_int_of_nat by (subst m) (simp only: mult.assoc)
  also have "(2::rat) powi (- 1074) * 10 ^ (1074 + k) = 5 ^ 1074 * 10 ^ k"
    using two_ten [of 1074 k] by (simp only: of_nat_numeral)
  finally have "q * 10 powi (- ?e) = of_int (m * (5 ^ 1074 * 10 ^ k))"
    by (simp only: of_int_mult of_int_power of_int_numeral)
  then obtain c where x: "q * 10 powi (- ?e) = of_int c" by blast
  have "0 < (of_int c :: rat)" unfolding x [symmetric] using assms(1) by (simp only: zero_less_mult_iff) simp
  then have "0 < c" by simp
  moreover have "of_int c * 10 powi ?e = q"
    unfolding x [symmetric] by (simp only: mult.assoc ten_cancel mult_1_right)
  ultimately have "reads_as q (rhe (q * 10 powi (- ?e))) ?e"
    unfolding x rhe_of_int reads_as_def using assms(2) by simp
  then show ?thesis by (simp add: dec_at_def Let_def)
qed

lemma dec_at_reads: "dec_at q n = Some (c, e) \<Longrightarrow> reads_as q c e"
  by (auto simp: dec_at_def Let_def split: if_splits)

lemma shortest_reads: "shortest q n = Some (c, e) \<Longrightarrow> reads_as q c e"
proof (induction q n rule: shortest.induct)
  case (1 q n)
  then show ?case by (subst (asm) (2) shortest.simps) (auto split: option.splits if_splits dest: dec_at_reads)
qed

lemma shortest_found: "0 < q \<Longrightarrow> rnd q = Fin q \<Longrightarrow> n \<le> max_digits \<Longrightarrow> shortest q n \<noteq> None"
proof (induction q n rule: shortest.induct)
  case (1 q n)
  show ?case
  proof (cases "n = max_digits")
    case True
    with dec_at_exact [OF "1.prems"(1,2)] show ?thesis by (subst shortest.simps) auto
  next
    case False
    with 1 show ?thesis by (subst shortest.simps) (auto split: option.splits)
  qed
qed

section \<open>The text reads back\<close>

lemma digits_val_zeros: "digits_val (s @ zeros n) = digits_val s * 10 ^ n"
proof (induction n)
  case (Suc n)
  have "zeros (Suc n) = zeros n @ ''0''" by (induction n) simp_all
  then have "s @ zeros (Suc n) = (s @ zeros n) @ ''0''" by (simp only: append.assoc)
  then have "digits_val (s @ zeros (Suc n)) = 10 * digits_val (s @ zeros n)"
    by (simp only: digits_val_snoc) simp
  with Suc show ?case by simp
qed simp

lemma digits_val_leading: "digits_val (zeros n @ s) = digits_val s"
proof -
  have "foldl (\<lambda>n c. 10 * n + (int (byte c) - 0x30)) 0 (zeros n) = 0" by (induction n) simp_all
  then show ?thesis by (simp add: digits_val_def)
qed

lemma strip_zeros_split: "\<exists>z. s = strip_zeros s @ zeros z"
proof -
  have "takeWhile (\<lambda>c. c = CHR ''0'') t = zeros (length (takeWhile (\<lambda>c. c = CHR ''0'') t))" for t
    by (induction t) simp_all
  then have "s = strip_zeros s @ zeros (length (takeWhile (\<lambda>c. c = CHR ''0'') (rev s)))"
    unfolding strip_zeros_def by (metis rev_append rev_replicate rev_rev_ident takeWhile_dropWhile_id)
  then show ?thesis ..
qed

lemma show_nat_head: "0 < n \<Longrightarrow> \<exists>c r. show_nat n = c # r \<and> is_digit c \<and> c \<noteq> CHR ''0''"
proof (induction n rule: show_nat.induct)
  case (1 n)
  show ?case
  proof (cases "n < 10")
    case True
    have "byte (digit_char n) \<noteq> byte (CHR ''0'')" using 1(2) True by simp
    then have "digit_char n \<noteq> CHR ''0''" by metis
    with True show ?thesis by (simp add: show_nat.simps [of n])
  next
    case False
    with 1 show ?thesis by (fastforce simp: show_nat.simps [of n])
  qed
qed

text \<open>Digits without zeros around them: what the two notations are made of.\<close>

definition good_digits :: "string \<Rightarrow> bool" where
  "good_digits ds \<longleftrightarrow> list_all is_digit ds \<and> ds \<noteq> [] \<and> hd ds \<noteq> CHR ''0''"

lemma strip_show_nat:
  assumes "0 < n"
  obtains z where "show_nat n = strip_zeros (show_nat n) @ zeros z" "good_digits (strip_zeros (show_nat n))"
proof -
  obtain z where z: "show_nat n = strip_zeros (show_nat n) @ zeros z" using strip_zeros_split by blast
  obtain c r where c: "show_nat n = c # r" "c \<noteq> CHR ''0''" using show_nat_head [OF assms] by blast
  have "strip_zeros (show_nat n) \<noteq> []" using z c by (cases z) auto
  moreover from this have "hd (strip_zeros (show_nat n)) = c" using z c by (cases "strip_zeros (show_nat n)") auto
  moreover have "list_all is_digit (strip_zeros (show_nat n))"
    using show_nat_digits [of n] z by (metis list_all_append)
  ultimately show thesis using that z c by (simp add: good_digits_def)
qed

lemma take_digits_all: "list_all is_digit d \<Longrightarrow> ends_number q \<Longrightarrow> take_digits (d @ q) = (d, q)"
  using take_digits_end [of d d q] by (simp add: take_digits_def list_all_iff dropWhile_eq_Nil_conv)

lemma take_digits_stop: "list_all is_digit d \<Longrightarrow> \<not> is_digit c \<Longrightarrow> take_digits (d @ c # q) = (d, c # q)"
  by (simp add: take_digits_def list_all_iff takeWhile_append2 dropWhile_append2)

lemma take_digits_exact: "list_all is_digit d \<Longrightarrow> take_digits d = (d, [])"
  by (simp add: take_digits_def list_all_iff dropWhile_eq_Nil_conv)

text \<open>The value of \<open>i.f\<close> and of \<open>i.fe+x\<close>.\<close>

lemma num_rat_plain:
  assumes "list_all is_digit i" "i \<noteq> []" "list_all is_digit f"
  shows "num_rat (i @ (if f = [] then [] else CHR ''.'' # f)) = of_int (digits_val (i @ f)) * 10 powi (- int (length f))"
proof -
  have "\<not> prefix ''-'' i" using is_digit_no_sign [OF assms(1)] by blast
  then have "\<not> prefix ''-'' (i @ t)" for t using assms(2) by (cases i) simp_all
  with assms show ?thesis
    by (simp add: num_rat_def take_digits_exact take_digits_stop is_digit_def exp_val_def)
qed

lemma num_rat_exp:
  assumes "list_all is_digit i" "i \<noteq> []" "list_all is_digit f"
  shows "num_rat (i @ (if f = [] then [] else CHR ''.'' # f) @ CHR ''e'' # (if x < 0 then CHR ''-'' else CHR ''+'')
      # show_nat (nat \<bar>x\<bar>)) = of_int (digits_val (i @ f)) * 10 powi (x - int (length f))"
proof -
  have "\<not> prefix ''-'' i" using is_digit_no_sign [OF assms(1)] by blast
  then have "\<not> prefix ''-'' (i @ t)" for t using assms(2) by (cases i) simp_all
  with assms show ?thesis
    by (simp add: num_rat_def take_digits_stop is_digit_def exp_val_def digits_val_show_nat)
qed

definition int_part_ok :: "string \<Rightarrow> bool" where
  "int_part_ok i \<longleftrightarrow> list_all is_digit i \<and> i \<noteq> [] \<and> (hd i = CHR ''0'' \<longrightarrow> i = ''0'')"

lemma scan_int_ok: "int_part_ok i \<Longrightarrow> ends_number q \<or> (\<exists>r. q = CHR ''.'' # r) \<or> (\<exists>r. q = CHR ''e'' # r) \<Longrightarrow>
    scan_int (i @ q) = Some (i, q)"
proof -
  assume i: "int_part_ok i" and q: "ends_number q \<or> (\<exists>r. q = CHR ''.'' # r) \<or> (\<exists>r. q = CHR ''e'' # r)"
  then obtain c i' where c: "i = c # i'" "is_digit c" "c = CHR ''0'' \<longrightarrow> i' = []"
    by (cases i) (auto simp: int_part_ok_def)
  have "take_digits (i @ q) = (i, q)"
    using i q take_digits_all [of i q] take_digits_stop [of i] by (auto simp: int_part_ok_def is_digit_def)
  with c show ?thesis by (auto simp: scan_int_def)
qed

lemma no_minus: "int_part_ok i \<Longrightarrow> \<not> prefix ''-'' (i @ t)"
  using is_digit_no_sign [of i] by (cases i) (auto simp: int_part_ok_def)

lemma number_ok_plain:
  assumes "int_part_ok i" "list_all is_digit f"
  shows "number_ok (i @ (if f = [] then [] else CHR ''.'' # f))"
proof -
  note no_minus [OF assms(1)]
  with assms scan_int_ok [of i "if f = [] then [] else CHR ''.'' # f"] show ?thesis
    by (auto simp: number_ok_def scan_number_def scan_frac_def scan_exp_def ends_number_def take_digits_exact)
qed

lemma number_ok_exp:
  assumes "int_part_ok i" "list_all is_digit f" "c = CHR ''-'' \<or> c = CHR ''+''"
  shows "number_ok (i @ (if f = [] then [] else CHR ''.'' # f) @ CHR ''e'' # c # show_nat n)"
proof -
  note no_minus [OF assms(1)]
  moreover have "scan_int (i @ (if f = [] then [] else CHR ''.'' # f) @ CHR ''e'' # c # show_nat n)
      = Some (i, (if f = [] then [] else CHR ''.'' # f) @ CHR ''e'' # c # show_nat n)"
    using assms(1) by (intro scan_int_ok) auto
  moreover have "scan_frac ((if f = [] then [] else CHR ''.'' # f) @ CHR ''e'' # c # show_nat n)
      = Some (if f = [] then [] else CHR ''.'' # f, CHR ''e'' # c # show_nat n)"
    using assms(2) by (auto simp: scan_frac_def take_digits_stop is_digit_def)
  moreover have "scan_exp (CHR ''e'' # c # show_nat n) = Some (CHR ''e'' # c # show_nat n, [])"
    using assms(3) show_nat_digits [of n] by (auto simp: scan_exp_def take_digits_exact Let_def)
  ultimately show ?thesis by (simp add: number_ok_def scan_number_def)
qed

lemma digits_drop: "list_all is_digit ds \<Longrightarrow> list_all is_digit (drop n ds) \<and> list_all is_digit (take n ds)"
  by (metis append_take_drop_id list_all_append)

lemma list_all_zeros [simp]: "list_all is_digit (zeros n)"
  by (induction n) (simp_all add: is_digit_def)

lemma fixed_text_value:
  assumes "good_digits ds"
  shows "number_ok (fixed_text ds dp) \<and> \<not> prefix ''-'' (fixed_text ds dp) \<and> num_rat (fixed_text ds dp) = of_int (digits_val ds) * 10 powi (dp - int (length ds))"
proof -
  have ds: "list_all is_digit ds" "ds \<noteq> []" "hd ds \<noteq> CHR ''0''" using assms by (simp_all add: good_digits_def)
  let ?i = "if 0 < dp then take (nat dp) ds @ zeros (nat dp - length ds) else ''0''"
  let ?f = "if dp < int (length ds) then zeros (nat (- dp)) @ drop (nat dp) ds else []"
  have f: "list_all is_digit ?f" using digits_drop [OF ds(1)] by simp
  have e: "fixed_text ds dp = ?i @ (if ?f = [] then [] else CHR ''.'' # ?f)" by (auto simp: fixed_text_def)
  have i: "int_part_ok ?i"
  proof (cases "0 < dp")
    case True
    then obtain k where k: "nat dp = Suc k" by (cases "nat dp") auto
    obtain d r where d: "ds = d # r" using ds(2) by (cases ds) auto
    have "list_all is_digit (take k r)" using ds(1) d digits_drop [of r k] by simp
    with True k d ds show ?thesis by (simp add: int_part_ok_def)
  qed (simp add: int_part_ok_def is_digit_def)
  then have i': "list_all is_digit ?i" "?i \<noteq> []" by (simp_all add: int_part_ok_def del: if_split)
  have v: "of_int (digits_val (?i @ ?f)) * 10 powi (- int (length ?f))
      = (of_int (digits_val ds) * 10 powi (dp - int (length ds)) :: rat)"
  proof -
    consider "dp \<le> 0" | "0 < dp" "dp < int (length ds)" | "int (length ds) \<le> dp" "0 < dp" by linarith
    then show ?thesis
    proof cases
      case 1
      have "digits_val (?i @ ?f) = digits_val (zeros (Suc (nat (- dp))) @ ds)" using 1 ds(2) by (cases ds) simp_all
      also have "\<dots> = digits_val ds" by (rule digits_val_leading)
      finally have "digits_val (?i @ ?f) = digits_val ds" .
      moreover have "int (length ?f) = int (length ds) - dp" using 1 ds(2) by (cases ds) simp_all
      ultimately show ?thesis by simp
    next
      case 2
      then have "?i @ ?f = ds" "int (length ?f) = int (length ds) - dp" by simp_all
      then show ?thesis by simp
    next
      case 3
      have "digits_val (?i @ ?f) = digits_val ds * 10 ^ (nat dp - length ds)"
        using 3 by (simp add: digits_val_zeros)
      moreover have "(10::rat) powi (dp - int (length ds)) = 10 ^ (nat dp - length ds)"
        using 3 by (simp add: power_int_def nat_diff_distrib)
      ultimately show ?thesis using 3 by simp
    qed
  qed
  show ?thesis
    unfolding e using number_ok_plain [OF i f] num_rat_plain [OF i' f] v no_minus [OF i] by (simp only: simp_thms)
qed

lemma exponent_text_value:
  assumes "good_digits ds"
  shows "number_ok (exponent_text ds dp) \<and> \<not> prefix ''-'' (exponent_text ds dp)
    \<and> num_rat (exponent_text ds dp) = of_int (digits_val ds) * 10 powi (dp - int (length ds))"
proof -
  obtain d f where ds: "ds = d # f" "is_digit d" "d \<noteq> CHR ''0''" "list_all is_digit f"
    using assms by (cases ds) (auto simp: good_digits_def)
  have e: "exponent_text ds dp = [d] @ (if f = [] then [] else CHR ''.'' # f)
      @ CHR ''e'' # (if dp - 1 < 0 then CHR ''-'' else CHR ''+'') # show_nat (nat \<bar>dp - 1\<bar>)"
    by (simp add: exponent_text_def ds dec_digits_show)
  have "int_part_ok [d]" using ds by (simp add: int_part_ok_def)
  then have "number_ok (exponent_text ds dp)" unfolding e using ds by (intro number_ok_exp) auto
  moreover have "num_rat (exponent_text ds dp) = of_int (digits_val ([d] @ f)) * 10 powi (dp - 1 - int (length f))"
    unfolding e using ds by (intro num_rat_exp) auto
  moreover have "\<not> prefix ''-'' (exponent_text ds dp)"
    using ds(2) by (auto simp: exponent_text_def ds(1) is_digit_def)
  ultimately show ?thesis using ds by (simp add: algebra_simps)
qed

lemma pos_text_reads:
  assumes "0 < q" "rnd q = Fin q"
  shows "\<exists>t. pos_text q = Some t \<and> number_ok t \<and> \<not> prefix ''-'' t \<and> rnd (num_rat t) = Fin q"
proof -
  obtain c e where s: "shortest q 1 = Some (c, e)"
    using shortest_found [OF assms, of 1] by (auto simp: max_digits_def)
  from shortest_reads [OF this] have c: "0 < c" "rnd (of_int c * 10 powi e) = Fin q" by (simp_all add: reads_as_def)
  let ?s = "show_nat (nat c)"
  let ?ds = "strip_zeros ?s"
  let ?dp = "int (length ?s) + e"
  obtain z where z: "?s = ?ds @ zeros z" and g: "good_digits ?ds" using c(1) strip_show_nat [of "nat c"] by auto
  have "digits_val ?s = c" using c(1) by (simp add: digits_val_show_nat)
  then have v: "digits_val ?ds * 10 ^ z = c" by (metis z digits_val_zeros)
  have l: "length ?s = length ?ds + z" using z by (metis length_append length_replicate)
  have "of_int (digits_val ?ds) * 10 powi (?dp - int (length ?ds)) = (of_int (digits_val ?ds) * (10 ^ z * 10 powi e) :: rat)"
    unfolding l by (simp add: power_int_add)
  also have "\<dots> = of_int (digits_val ?ds * 10 ^ z) * 10 powi e" by simp
  finally have "of_int (digits_val ?ds) * 10 powi (?dp - int (length ?ds)) = (of_int c * 10 powi e :: rat)"
    unfolding v .
  with fixed_text_value [OF g, of ?dp] exponent_text_value [OF g, of ?dp] c(2) show ?thesis
    unfolding pos_text_def s Let_def option.case prod.case dec_digits_show [OF less_imp_le [OF c(1)]]
    by (auto split: if_split)
qed

lemma number_minus:
  assumes "number_ok t" "\<not> prefix ''-'' t"
  shows "number_ok (CHR ''-'' # t)" "num_rat (CHR ''-'' # t) = - num_rat t"
proof -
  have "scan_number t = Some (t, [])" using assms(1) by (simp add: number_ok_def)
  with assms(2) have "scan_number (CHR ''-'' # t) = Some (CHR ''-'' # t, [])"
    by (auto simp: scan_number_def Let_def split: option.splits)
  then show "number_ok (CHR ''-'' # t)" by (simp add: number_ok_def)
  show "num_rat (CHR ''-'' # t) = - num_rat t"
    using assms(2) by (simp add: num_rat_def Let_def split: prod.split)
qed

lemma float_text_reads:
  assumes "is_f64 x" "is_fin x"
  shows "\<exists>t. float_text x = Some t \<and> number_ok t \<and> json_float t = Some x"
proof -
  obtain q where x: "x = Fin q" using assms(2) by (cases x) auto
  have r: "rnd q = Fin q" using assms(1) x by simp
  consider "q = 0" | "0 < q" | "q < 0" by linarith
  then show ?thesis
  proof cases
    case 1
    have "number_ok ''0''" "num_rat ''0'' = 0" by code_simp+
    with x 1 show ?thesis by (simp add: json_float_def)
  next
    case 2
    with pos_text_reads [OF 2 r] x show ?thesis by (auto simp: json_float_def)
  next
    case 3
    have "rnd (- q) = Fin (- q)" using r by (simp add: rnd_minus)
    with 3 pos_text_reads [of "- q"] obtain t where t: "pos_text (- q) = Some t" "number_ok t" "\<not> prefix ''-'' t"
      "rnd (num_rat t) = Fin (- q)" by auto
    from number_minus [OF t(2,3)] 3 x t show ?thesis by (simp add: json_float_def rnd_minus)
  qed
qed

lemma float_text_none: "float_text NaN = None" "float_text PInf = None" "float_text NInf = None"
  by simp_all

end
