(* ===== verification/JX_Time.thy ===== *)
theory JX_Time
  imports JX_FloatText "HOL-Library.Monad_Syntax"
begin

text \<open>
  Times in text: \<open>Time.MarshalJSON\<close> writes a time as RFC 3339 with the nanoseconds it needs, and
  \<open>Time.UnmarshalJSON\<close> reads it (\<open>time/format_rfc3339.go\<close>). A time is the count of nanoseconds since the
  first day of year 1 in UTC, as in the rest of the development; the text is in the zone of the host,
  which is given by \<open>zone\<close>, its offset in minutes at a time. The calendar counts days from the first day
  of year 0.

  \<open>parse_time_text\<close>: the text of a time reads back as that time, whatever the zone.
\<close>

section \<open>The calendar\<close>

definition leap_year :: "int \<Rightarrow> bool" where
  "leap_year y \<longleftrightarrow> y mod 4 = 0 \<and> (y mod 100 \<noteq> 0 \<or> y mod 400 = 0)"

definition days_in :: "int \<Rightarrow> int \<Rightarrow> int" where
  "days_in y m = (if m = 2 then (if leap_year y then 29 else 28) else if m \<in> {4, 6, 9, 11} then 30 else 31)"

text \<open>The days before a year and, within it, before a month.\<close>

definition year_start :: "int \<Rightarrow> int" where
  "year_start y = 365 * y + (y + 3) div 4 - (y + 99) div 100 + (y + 399) div 400"

definition month_start :: "int \<Rightarrow> int \<Rightarrow> int" where
  "month_start y m = sum_list (map (days_in y) (upto 1 (m - 1)))"

lemma div_step: "0 < n \<Longrightarrow> (a + 1) div n = a div n + (if (a + 1) mod n = 0 then 1 else (0 :: int))"
proof -
  assume n: "0 < n"
  obtain q r where qr: "a div n = q" "a mod n = r" by blast
  have a: "a = n * q + r" using mult_div_mod_eq [of n a] unfolding qr by simp
  have r: "0 \<le> r" "r < n" using pos_mod_sign [OF n, of a] pos_mod_bound [OF n, of a] unfolding qr by simp_all
  show ?thesis
  proof (cases "r = n - 1")
    case True
    then have "a + 1 = n * (q + 1)" by (simp add: a algebra_simps)
    then have "(a + 1) div n = q + 1" "(a + 1) mod n = 0" using n by simp_all
    then show ?thesis by (simp add: qr)
  next
    case False
    have e: "a + 1 = n * q + (r + 1)" by (simp add: a)
    have "(r + 1) div n = 0" "(r + 1) mod n = r + 1" using r False by simp_all
    then have "(a + 1) div n = q" "(a + 1) mod n = r + 1" using n by (simp_all only: e) simp_all
    then show ?thesis using r(1) by (simp add: qr)
  qed
qed

lemma year_arith:
  "A' = A + (if p then 1 else 0) \<Longrightarrow> B' = B + (if q then 1 else 0) \<Longrightarrow> C' = C + (if r then 1 else 0) \<Longrightarrow>
     (r \<Longrightarrow> q) \<Longrightarrow> (q \<Longrightarrow> p) \<Longrightarrow>
     365 * y + 365 + A' - B' + C' = (365 * y + A - B + C) + (if p \<and> (\<not> q \<or> r) then 366 else (365 :: int))"
  by (cases p; cases q; cases r) simp_all

lemma year_start_step: "year_start (y + 1) = year_start y + (if leap_year y then 366 else 365)"
proof -
  have e: "y + 1 + 3 = y + 3 + 1" "y + 1 + 99 = y + 99 + 1" "y + 1 + 399 = y + 399 + 1" by simp_all
  have m: "(y + 3 + 1) mod 4 = y mod 4" "(y + 99 + 1) mod 100 = y mod 100" "(y + 399 + 1) mod 400 = y mod 400"
    by simp_all
  have d: "(y + 3 + 1) div 4 = (y + 3) div 4 + (if y mod 4 = 0 then 1 else 0)"
    "(y + 99 + 1) div 100 = (y + 99) div 100 + (if y mod 100 = 0 then 1 else 0)"
    "(y + 399 + 1) div 400 = (y + 399) div 400 + (if y mod 400 = 0 then 1 else 0)"
    using div_step [of 4 "y + 3", unfolded m, OF zero_less_numeral]
      div_step [of 100 "y + 99", unfolded m, OF zero_less_numeral]
      div_step [of 400 "y + 399", unfolded m, OF zero_less_numeral] by (simp_all only:)
  have i: "y mod 400 = 0 \<Longrightarrow> y mod 100 = 0" "y mod 100 = 0 \<Longrightarrow> y mod 4 = 0"
    using mod_mod_cancel [of 100 400 y] mod_mod_cancel [of 4 100 y] by auto
  show ?thesis
    unfolding year_start_def leap_year_def e distrib_left mult_1_right
    by (rule year_arith [OF d i])
qed

lemma year_start_upper: "0 \<le> y \<Longrightarrow> year_start y \<le> 366 * y"
proof (induction y rule: int_ge_induct)
  case base
  show ?case by (simp add: year_start_def)
next
  case (step y)
  then show ?case by (simp add: year_start_step)
qed

function find_year :: "int \<Rightarrow> int \<Rightarrow> int" where
  "find_year d y = (if year_start (y + 1) \<le> d then find_year d (y + 1) else y)"
  by pat_completeness auto
termination
  by (relation "measure (\<lambda>(d, y). nat (d - year_start y))") (simp_all add: year_start_step split: if_splits)

declare find_year.simps [simp del]

function find_month :: "int \<Rightarrow> int \<Rightarrow> int \<Rightarrow> int \<times> int" where
  "find_month y m r = (if m < 12 \<and> days_in y m \<le> r then find_month y (m + 1) (r - days_in y m) else (m, r))"
  by pat_completeness auto
termination
  by (relation "measure (\<lambda>(y, m, r). nat (12 - m))") auto

declare find_month.simps [simp del]

lemma find_year_spec: "year_start y \<le> d \<Longrightarrow> year_start (find_year d y) \<le> d \<and> d < year_start (find_year d y + 1) \<and> y \<le> find_year d y"
proof (induction d y rule: find_year.induct)
  case (1 d y)
  then show ?case by (cases "year_start (y + 1) \<le> d") (auto simp: find_year.simps [of d y])
qed

lemma year_start_low: "0 \<le> d \<Longrightarrow> year_start (d div 366) \<le> d"
proof -
  assume "0 \<le> d"
  then have "year_start (d div 366) \<le> 366 * (d div 366)" by (intro year_start_upper) (simp add: pos_imp_zdiv_nonneg_iff)
  also have "\<dots> \<le> d" by presburger
  finally show ?thesis .
qed

lemma month_start_step: "1 \<le> m \<Longrightarrow> month_start y (m + 1) = month_start y m + days_in y m"
  by (simp add: month_start_def upto_rec2)

lemma find_month_spec:
  "1 \<le> m \<Longrightarrow> m \<le> 12 \<Longrightarrow> 0 \<le> r \<Longrightarrow> month_start y m + r < month_start y 13 \<Longrightarrow> find_month y m r = (m', r') \<Longrightarrow>
     1 \<le> m' \<and> m' \<le> 12 \<and> 0 \<le> r' \<and> r' < days_in y m' \<and> month_start y m' + r' = month_start y m + r"
proof (induction y m r rule: find_month.induct)
  case (1 y m r)
  have "m = 12 \<Longrightarrow> month_start y 13 = month_start y m + days_in y m" using month_start_step [of 12 y] by simp
  with 1 month_start_step [of m y] show ?case
    by (cases "m < 12 \<and> days_in y m \<le> r") (auto simp: find_month.simps [of y m r])
qed

lemma year_length: "month_start y 13 = (if leap_year y then 366 else 365)"
  by (simp add: month_start_def days_in_def upto_rec1)

text \<open>The date of a day.\<close>

definition civil :: "int \<Rightarrow> int \<times> int \<times> int" where
  "civil d = (let y = find_year d (d div 366); (m, r) = find_month y 1 (d - year_start y) in (y, m, r + 1))"

definition day_number :: "int \<Rightarrow> int \<Rightarrow> int \<Rightarrow> int" where
  "day_number y m dd = year_start y + month_start y m + (dd - 1)"

lemma civil_spec:
  assumes "0 \<le> d" "civil d = (y, m, dd)"
  shows "0 \<le> y \<and> 1 \<le> m \<and> m \<le> 12 \<and> 1 \<le> dd \<and> dd \<le> days_in y m \<and> day_number y m dd = d"
proof -
  let ?y = "find_year d (d div 366)"
  obtain m' r where f: "find_month ?y 1 (d - year_start ?y) = (m', r)" by (cases "find_month ?y 1 (d - year_start ?y)")
  with assms(2) have e: "y = ?y" "m = m'" "dd = r + 1" by (simp_all add: civil_def)
  note s = find_year_spec [OF year_start_low [OF assms(1)]]
  have "month_start ?y 1 = 0" by (simp add: month_start_def)
  moreover have "d - year_start ?y < month_start ?y 13" using s year_start_step [of ?y] year_length [of ?y] by simp
  ultimately have "1 \<le> m' \<and> m' \<le> 12 \<and> 0 \<le> r \<and> r < days_in ?y m' \<and> month_start ?y m' + r = d - year_start ?y"
    using find_month_spec [OF _ _ _ _ f] s by simp
  moreover have "0 \<le> ?y" using s assms(1) by (meson dual_order.trans pos_imp_zdiv_nonneg_iff zero_less_numeral)
  ultimately show ?thesis by (simp add: e day_number_def)
qed

section \<open>The text\<close>

definition pad :: "nat \<Rightarrow> int \<Rightarrow> string" where
  "pad w n = zero_pad w (dec_digits n)"

definition frac_text :: "int \<Rightarrow> string" where
  "frac_text ns = (let f = strip_zeros (pad 9 ns) in if f = [] then [] else CHR ''.'' # f)"

definition zone_text :: "int \<Rightarrow> string" where
  "zone_text off =
     (if off = 0 then ''Z''
      else (if off < 0 then CHR ''-'' else CHR ''+'') # pad 2 (\<bar>off\<bar> div 60) @ CHR '':'' # pad 2 (\<bar>off\<bar> mod 60))"

text \<open>A year of more than four digits, a negative year and an offset of a day or more are errors.\<close>

definition time_text :: "(time \<Rightarrow> int) \<Rightarrow> time \<Rightarrow> string option" where
  "time_text zone t =
     (let off = zone t; loc = t div second + 60 * off; d = loc div 86400 + 366; s = loc mod 86400
      in if d < 0 \<or> 24 * 60 \<le> \<bar>off\<bar> then None
         else case civil d of (y, m, dd) \<Rightarrow>
           if 9999 < y then None
           else Some (pad 4 y @ CHR ''-'' # pad 2 m @ CHR ''-'' # pad 2 dd @ CHR ''T''
                  # pad 2 (s div 3600) @ CHR '':'' # pad 2 (s div 60 mod 60) @ CHR '':'' # pad 2 (s mod 60)
                  @ frac_text (t mod second) @ zone_text off))"

definition eat :: "char \<Rightarrow> string \<Rightarrow> string option" where
  "eat c s = (case s of [] \<Rightarrow> None | x # r \<Rightarrow> if x = c then Some r else None)"

definition eat_num :: "nat \<Rightarrow> int \<Rightarrow> int \<Rightarrow> string \<Rightarrow> (int \<times> string) option" where
  "eat_num w lo hi s =
     (let v = digits_val (take w s)
      in if w \<le> length s \<and> list_all is_digit (take w s) \<and> lo \<le> v \<and> v \<le> hi then Some (v, drop w s) else None)"

text \<open>The fraction: its first nine digits count.\<close>

definition eat_frac :: "string \<Rightarrow> int \<times> string" where
  "eat_frac s =
     (case s of [] \<Rightarrow> (0, s)
      | c # r \<Rightarrow>
          let ds = takeWhile is_digit r in
          if c \<noteq> CHR ''.'' \<or> ds = [] then (0, s)
          else (digits_val (take 9 (ds @ zeros 9)), dropWhile is_digit r))"

definition eat_zone :: "string \<Rightarrow> int option" where
  "eat_zone s =
     (if s = ''Z'' then Some 0
      else case s of [] \<Rightarrow> None
      | c # r \<Rightarrow>
          if c \<noteq> CHR ''-'' \<and> c \<noteq> CHR ''+'' then None
          else do {
            (h, r) \<leftarrow> eat_num 2 0 23 r;
            r \<leftarrow> eat (CHR '':'') r;
            (m, r) \<leftarrow> eat_num 2 0 59 r;
            if r = [] then Some (if c = CHR ''-'' then - (60 * h + m) else 60 * h + m) else None
          })"

definition parse_time :: "string \<Rightarrow> time option" where
  "parse_time s = do {
     (y, s) \<leftarrow> eat_num 4 0 9999 s;
     s \<leftarrow> eat (CHR ''-'') s;
     (m, s) \<leftarrow> eat_num 2 1 12 s;
     s \<leftarrow> eat (CHR ''-'') s;
     (d, s) \<leftarrow> eat_num 2 1 (days_in y m) s;
     s \<leftarrow> eat (CHR ''T'') s;
     (hh, s) \<leftarrow> eat_num 2 0 23 s;
     s \<leftarrow> eat (CHR '':'') s;
     (mi, s) \<leftarrow> eat_num 2 0 59 s;
     s \<leftarrow> eat (CHR '':'') s;
     (se, s) \<leftarrow> eat_num 2 0 59 s;
     let (ns, s) = eat_frac s;
     off \<leftarrow> eat_zone s;
     Some (((day_number y m d - 366) * 86400 + 3600 * hh + 60 * mi + se - 60 * off) * second + ns)
   }"

section \<open>Reading back\<close>

lemma eat_Cons [simp]: "eat c (c # s) = Some s"
  by (simp add: eat_def)

lemma show_nat_length: "n < 10 ^ w \<Longrightarrow> 0 < w \<Longrightarrow> length (show_nat n) \<le> w"
proof (induction w arbitrary: n)
  case (Suc w)
  show ?case
  proof (cases "n < 10")
    case False
    then have "n div 10 < 10 ^ w" "0 < w" using Suc.prems by (cases w; simp add: less_mult_imp_div_less)+
    with Suc.IH [of "n div 10"] False show ?thesis by (simp add: show_nat.simps [of n])
  qed (simp add: show_nat.simps [of n])
qed simp

lemma pad_facts:
  assumes "0 \<le> n" "n < 10 ^ w" "0 < w"
  shows "length (pad w n) = w" "list_all is_digit (pad w n)" "digits_val (pad w n) = n"
proof -
  have "nat n < 10 ^ w" using assms(1,2) by (simp add: nat_less_iff)
  with show_nat_length assms(3) have "length (show_nat (nat n)) \<le> w" by blast
  then show "length (pad w n) = w" using assms(1) by (simp add: pad_def dec_digits_show)
  show "list_all is_digit (pad w n)" using show_nat_digits [of "nat n"] assms(1) by (simp add: pad_def dec_digits_show)
  show "digits_val (pad w n) = n"
    using assms(1) by (simp add: pad_def dec_digits_show digits_val_leading digits_val_show_nat)
qed

lemma eat_num_pad:
  "0 \<le> n \<Longrightarrow> n < 10 ^ w \<Longrightarrow> 0 < w \<Longrightarrow> lo \<le> n \<Longrightarrow> n \<le> hi \<Longrightarrow> eat_num w lo hi (pad w n @ s) = Some (n, s)"
  using pad_facts [of n w] by (simp add: eat_num_def)

lemma eat_zone_text: "\<bar>off\<bar> < 24 * 60 \<Longrightarrow> eat_zone (zone_text off) = Some off"
  using eat_num_pad [of "\<bar>off\<bar> div 60" 2 0 23] eat_num_pad [of "\<bar>off\<bar> mod 60" 2 0 59 "[]"]
  by (auto simp: zone_text_def eat_zone_def)

lemma zone_text_start: "\<exists>c r. zone_text off = c # r \<and> \<not> is_digit c \<and> c \<noteq> CHR ''.''"
  by (simp add: zone_text_def is_digit_def)

lemma eat_frac_text:
  assumes "0 \<le> ns" "ns < second"
  shows "eat_frac (frac_text ns @ zone_text off) = (ns, zone_text off)"
proof -
  let ?f = "strip_zeros (pad 9 ns)"
  obtain c r where z: "zone_text off = c # r" "\<not> is_digit c" "c \<noteq> CHR ''.''" using zone_text_start by blast
  obtain k where k: "pad 9 ns = ?f @ zeros k" using strip_zeros_split by blast
  have p: "length (pad 9 ns) = 9" "list_all is_digit (pad 9 ns)" "digits_val (pad 9 ns) = ns"
    using pad_facts [of ns 9] assms by simp_all
  have d: "list_all is_digit ?f" using k p(2) by (metis list_all_append)
  show ?thesis
  proof (cases "?f = []")
    case True
    with k have "pad 9 ns = zeros k" by simp
    then have "ns = 0" using p(3) digits_val_leading [of k "[]"] by (simp add: digits_val_def)
    with True z show ?thesis by (simp add: frac_text_def eat_frac_def)
  next
    case False
    have "length ?f + k = 9" using k p(1) by (metis length_append length_replicate)
    then have "take 9 (?f @ zeros 9) = ?f @ zeros k" by (auto simp: min_def)
    then have "digits_val (take 9 (?f @ zeros 9)) = ns" using k p(3) by metis
    moreover have "takeWhile is_digit (?f @ zone_text off) = ?f" "dropWhile is_digit (?f @ zone_text off) = zone_text off"
      using d z by (simp_all add: list_all_iff takeWhile_append2 dropWhile_append2)
    ultimately show ?thesis using False by (simp add: frac_text_def eat_frac_def Let_def)
  qed
qed

lemma clock:
  assumes "0 \<le> x" "x < 86400"
  shows "0 \<le> x div 3600 \<and> x div 3600 \<le> 23 \<and> 0 \<le> x div 60 mod 60 \<and> x div 60 mod 60 \<le> 59 \<and> 0 \<le> x mod 60 \<and> x mod 60 \<le> 59
    \<and> 3600 * (x div 3600) + 60 * (x div 60 mod 60) + x mod (60 :: int) = x"
proof -
  have h: "x div 3600 = x div 60 div 60" using zdiv_zmult2_eq [of 60 x 60] by simp
  have "60 * (x div 60 div 60) + x div 60 mod 60 = x div 60" "60 * (x div 60) + x mod 60 = x" by simp_all
  then have "3600 * (x div 60 div 60) + 60 * (x div 60 mod 60) + x mod 60 = x" by linarith
  moreover have "0 \<le> x mod 60" "x mod 60 \<le> 59" "0 \<le> x div 60 mod 60" "x div 60 mod 60 \<le> 59"
    using pos_mod_bound [of 60 x] pos_mod_bound [of 60 "x div 60"] by simp_all
  ultimately show ?thesis unfolding h using assms by linarith
qed

lemma time_text_eq:
  assumes "civil (loc div 86400 + 366) = (y, m, dd)" "t div second + 60 * zone t = loc" "loc mod 86400 = x"
  shows "time_text zone t =
     (if loc div 86400 + 366 < 0 \<or> 24 * 60 \<le> \<bar>zone t\<bar> then None
      else if 9999 < y then None
      else Some (pad 4 y @ CHR ''-'' # pad 2 m @ CHR ''-'' # pad 2 dd @ CHR ''T''
                  # pad 2 (x div 3600) @ CHR '':'' # pad 2 (x div 60 mod 60) @ CHR '':'' # pad 2 (x mod 60)
                  @ frac_text (t mod second) @ zone_text (zone t)))"
  unfolding time_text_def Let_def assms(2) assms(1,3) prod.case by (rule refl)

lemma parse_time_text:
  assumes "time_text zone t = Some s"
  shows "parse_time s = Some t"
proof -
  define off where "off = zone t"
  define loc where "loc = t div second + 60 * off"
  define x where "x = loc mod 86400"
  obtain y m dd where c: "civil (loc div 86400 + 366) = (y, m, dd)" by (cases "civil (loc div 86400 + 366)") auto
  have s: "s = pad 4 y @ CHR ''-'' # pad 2 m @ CHR ''-'' # pad 2 dd @ CHR ''T''
                  # pad 2 (x div 3600) @ CHR '':'' # pad 2 (x div 60 mod 60) @ CHR '':'' # pad 2 (x mod 60)
                  @ frac_text (t mod second) @ zone_text off"
    and r: "0 \<le> loc div 86400 + 366" "\<bar>off\<bar> < 24 * 60" "y \<le> 9999"
    using assms unfolding time_text_eq [where zone = zone and t = t, OF c loc_def [symmetric, unfolded off_def] x_def [symmetric]]
    by (simp_all add: off_def split: if_split_asm)
  have d: "0 \<le> y" "1 \<le> m" "m \<le> 12" "1 \<le> dd" "dd \<le> days_in y m" "day_number y m dd = loc div 86400 + 366"
    using civil_spec [OF r(1) c] by auto
  have dd: "dd < 10 ^ 2" using d(5) by (simp add: days_in_def split: if_splits)
  have x: "0 \<le> x" "x < 86400" by (simp_all add: x_def)
  define L where "L = loc div 86400"
  have L: "L * 86400 + x = loc" by (simp add: L_def x_def)
  obtain hh mi se where e: "x div 3600 = hh" "x div 60 mod 60 = mi" "x mod 60 = se" by blast
  from clock [OF x] have h: "0 \<le> hh" "hh \<le> 23" "0 \<le> mi" "mi \<le> 59" "0 \<le> se" "se \<le> 59" "3600 * hh + 60 * mi + se = x"
    unfolding e by simp_all
  have eats: "eat_num 4 0 9999 (pad 4 y @ q) = Some (y, q)" "eat_num 2 1 12 (pad 2 m @ q) = Some (m, q)"
    "eat_num 2 1 (days_in y m) (pad 2 dd @ q) = Some (dd, q)" "eat_num 2 0 23 (pad 2 hh @ q) = Some (hh, q)"
    "eat_num 2 0 59 (pad 2 mi @ q) = Some (mi, q)" "eat_num 2 0 59 (pad 2 se @ q) = Some (se, q)" for q
    using d dd r h by (simp_all add: eat_num_pad)
  have frac: "eat_frac (frac_text (t mod second) @ zone_text off) = (t mod second, zone_text off)"
    by (rule eat_frac_text) simp_all
  have "(day_number y m dd - 366) * 86400 + 3600 * hh + 60 * mi + se - 60 * off = loc - 60 * off"
    using h(7) d(6) L by (simp add: L_def [symmetric])
  moreover have "(loc - 60 * off) * second + t mod second = t" by (simp add: loc_def)
  ultimately show ?thesis
    unfolding s e parse_time_def
    by (simp only: eats eat_Cons frac eat_zone_text [OF r(2)] Option.bind.bind_lunit prod.case Let_def)
qed

lemma ascii_valid: "list_all (\<lambda>c. byte c < 0x80) s \<Longrightarrow> valid_utf8 s"
  by (induction s) simp_all

lemma digits_ascii: "list_all is_digit s \<Longrightarrow> list_all (\<lambda>c. byte c < 0x80) s"
  by (induction s) (auto simp: is_digit_def)

lemma pad_ascii: "list_all (\<lambda>c. byte c < 0x80) (pad w n)"
proof -
  have "list_all (\<lambda>c. byte c < 0x80) (dec_digits n)"
  proof (induction n rule: dec_digits.induct)
    case (1 n)
    have "nat (n mod 10) < 10" "n < 10 \<Longrightarrow> nat n < 80" by (simp_all add: nat_less_iff)
    with 1 show ?case by (simp add: dec_digits.simps [of n] digit_char_def take_bit_nat_def)
  qed
  then show ?thesis by (auto simp: pad_def list_all_iff)
qed

lemma time_text_valid: "time_text zone t = Some s \<Longrightarrow> valid_utf8 s"
proof -
  assume t: "time_text zone t = Some s"
  define loc where "loc = t div second + 60 * zone t"
  obtain y m dd where c: "civil (loc div 86400 + 366) = (y, m, dd)" by (metis prod_cases3)
  have strip: "list_all P (strip_zeros x)" if "list_all P x" for P x
    using that strip_zeros_split [of x] by (metis list_all_append)
  have "list_all (\<lambda>c. byte c < 0x80) (frac_text ns)" "list_all (\<lambda>c. byte c < 0x80) (zone_text off)" for ns off
    using strip [OF pad_ascii, of 9 ns] by (simp_all add: frac_text_def zone_text_def pad_ascii Let_def)
  with t have "list_all (\<lambda>c. byte c < 0x80) s"
    unfolding time_text_eq [where zone = zone and t = t, OF c loc_def [symmetric] refl]
    by (auto simp: pad_ascii simp del: pos_mod_sign split: if_split_asm)
  then show ?thesis by (rule ascii_valid)
qed

text \<open>The times that have a text: those of the years 0 to 9999, in a zone less than a day from UTC.\<close>

lemma year_start_mono: "y \<le> y' \<Longrightarrow> year_start y \<le> year_start y'"
proof (induction y' rule: int_ge_induct)
  case (step y')
  then show ?case by (simp add: year_start_step)
qed simp

lemma time_text_defined:
  assumes "\<bar>zone t\<bar> < 24 * 60"
    and "0 \<le> (t div second + 60 * zone t) div 86400 + 366"
    and "(t div second + 60 * zone t) div 86400 + 366 < year_start 10000"
  shows "time_text zone t \<noteq> None"
proof -
  let ?d = "(t div second + 60 * zone t) div 86400 + 366"
  obtain y m dd where c: "civil ?d = (y, m, dd)" by (cases "civil ?d") auto
  have "y = find_year d (d div 366)" if "civil d = (y, m, dd)" for d
    using that by (simp add: civil_def Let_def split: prod.splits)
  from this [OF c] find_year_spec [OF year_start_low [OF assms(2)]] have "year_start y \<le> ?d" by metis
  with assms(3) year_start_mono [of 10000 y] have "y < 10000" by linarith
  moreover have "\<not> 24 * 60 \<le> \<bar>zone t\<bar>" "\<not> ?d < 0" using assms(1,2) by linarith+
  ultimately show ?thesis unfolding time_text_eq [where zone = zone and t = t, OF c refl refl] by simp
qed

end
