(* ===== verification/JX_Codec.thy ===== *)
theory JX_Codec
  imports JX_Time JX_Memory
begin

text \<open>
  How \<open>encoding/json\<close> writes and reads the structs of the runtime. A struct is a table of its fields, in
  the order of the source, built from the field's tag, whether \<open>omitempty\<close> leaves it out, how its value is
  written and read, and the record field it stands for. Reading follows \<open>json.Unmarshal\<close>: keys match
  exactly or up to case, unknown keys are skipped, \<open>null\<close> leaves a field as it is, a value of the wrong
  type is reported after the rest of the document was read (\<open>Misfits\<close>), and an error of a \<open>time.Time\<close>
  stops the reader at once (\<open>Stops\<close>).

  The text of a time is in the zone of the host, the argument \<open>zone\<close>; reading it does not depend on the
  zone. The reader of \<open>Time.UnmarshalJSON\<close> sees the bytes between the quotes before they are unescaped, so
  an escape inside the text of a time, which nothing here writes, would be refused.

  \<open>round_trips\<close> says that a value written by a writer is read back by its reader; \<open>struct_round_trips\<close>
  derives it for a struct from its fields, one \<open>steps_fld\<close> each.
\<close>

section \<open>Reading one value\<close>

datatype verdict = Fits | Misfits | Stops

fun worse :: "verdict \<Rightarrow> verdict \<Rightarrow> verdict" where
  "worse Fits w = w"
| "worse Misfits Fits = Misfits"
| "worse Misfits w = w"
| "worse Stops w = Stops"

definition read_string :: "json \<Rightarrow> string \<Rightarrow> string \<times> verdict" where
  "read_string v old = (case v of JStr s \<Rightarrow> (s, Fits) | JNull \<Rightarrow> (old, Fits) | _ \<Rightarrow> (old, Misfits))"

definition read_num :: "(string \<Rightarrow> 'v option) \<Rightarrow> json \<Rightarrow> 'v \<Rightarrow> 'v \<times> verdict" where
  "read_num p v old =
     (case v of
        JNum t \<Rightarrow> (case p t of Some x \<Rightarrow> (x, Fits) | None \<Rightarrow> (old, Misfits))
      | JNull \<Rightarrow> (old, Fits)
      | _ \<Rightarrow> (old, Misfits))"

text \<open>\<open>strconv.ParseUint(t, 10, 64)\<close>, and the integers of 32 bits.\<close>

definition parse_uint :: "string \<Rightarrow> 64 word option" where
  "parse_uint t = (if t \<noteq> [] \<and> list_all is_digit t \<and> digits_val t < 2 ^ 64 then Some (word_of_int (digits_val t)) else None)"

definition parse_int32 :: "string \<Rightarrow> int option" where
  "parse_int32 t = (case atoi t of Some n \<Rightarrow> if - (2 ^ 31) \<le> n \<and> n < 2 ^ 31 then Some n else None | None \<Rightarrow> None)"

definition read_time :: "json \<Rightarrow> time \<Rightarrow> time \<times> verdict" where
  "read_time v old =
     (case v of
        JNull \<Rightarrow> (old, Fits)
      | JStr s \<Rightarrow> (case parse_time s of Some t \<Rightarrow> (t, Fits) | None \<Rightarrow> (0, Stops))
      | _ \<Rightarrow> (old, Stops))"

text \<open>A slice is refilled from its start: an element is read onto the one it replaces.\<close>

fun read_elems :: "(json \<Rightarrow> 'v \<Rightarrow> 'v \<times> verdict) \<Rightarrow> 'v \<Rightarrow> json list \<Rightarrow> 'v list \<Rightarrow> 'v list \<times> verdict" where
  "read_elems rd zero [] olds = ([], Fits)"
| "read_elems rd zero (v # vs) olds =
     (case rd v (case olds of [] \<Rightarrow> zero | x # _ \<Rightarrow> x) of
        (x, Stops) \<Rightarrow> (x # tl olds, Stops)
      | (x, w) \<Rightarrow> (case read_elems rd zero vs (tl olds) of (xs, w') \<Rightarrow> (x # xs, worse w w')))"

definition read_list :: "(json \<Rightarrow> 'v \<Rightarrow> 'v \<times> verdict) \<Rightarrow> 'v \<Rightarrow> json \<Rightarrow> 'v list \<Rightarrow> 'v list \<times> verdict" where
  "read_list rd zero v old =
     (case v of JArr vs \<Rightarrow> read_elems rd zero vs old | JNull \<Rightarrow> ([], Fits) | _ \<Rightarrow> (old, Misfits))"

section \<open>Writing one value\<close>

definition write_string :: "string \<Rightarrow> json option" where
  "write_string s = Some (JStr s)"

definition write_float :: "f64 \<Rightarrow> json option" where
  "write_float x = map_option JNum (float_text x)"

definition write_int :: "int \<Rightarrow> json option" where
  "write_int i = Some (JNum (show_int i))"

definition write_uint :: "64 word \<Rightarrow> json option" where
  "write_uint w = Some (JNum (show_nat (unat w)))"

definition write_time :: "(time \<Rightarrow> int) \<Rightarrow> time \<Rightarrow> json option" where
  "write_time zone t = map_option JStr (time_text zone t)"

fun write_elems :: "('v \<Rightarrow> json option) \<Rightarrow> 'v list \<Rightarrow> json list option" where
  "write_elems wr [] = Some []"
| "write_elems wr (x # xs) =
     (case wr x of None \<Rightarrow> None | Some j \<Rightarrow> map_option (\<lambda>js. j # js) (write_elems wr xs))"

text \<open>A slice without elements is written as \<open>null\<close>, which is what a nil slice becomes: the runtime makes no
  empty slice of these types that is not nil.\<close>

definition write_list :: "('v \<Rightarrow> json option) \<Rightarrow> 'v list \<Rightarrow> json option" where
  "write_list wr xs = (if xs = [] then Some JNull else map_option JArr (write_elems wr xs))"

section \<open>Structs\<close>

type_synonym 'r field = "string \<times> ('r \<Rightarrow> bool) \<times> ('r \<Rightarrow> json option) \<times> (json \<Rightarrow> 'r \<Rightarrow> 'r \<times> verdict)"

text \<open>A field from its tag, its \<open>omitempty\<close> test, its writer and reader, and the record's selector and update.\<close>

definition fld ::
  "string \<Rightarrow> ('v \<Rightarrow> bool) \<Rightarrow> ('v \<Rightarrow> json option) \<Rightarrow> (json \<Rightarrow> 'v \<Rightarrow> 'v \<times> verdict)
   \<Rightarrow> ('r \<Rightarrow> 'v) \<Rightarrow> (('v \<Rightarrow> 'v) \<Rightarrow> 'r \<Rightarrow> 'r) \<Rightarrow> 'r field" where
  "fld k omit wr rd get upd =
     (k, \<lambda>r. omit (get r), \<lambda>r. wr (get r), \<lambda>j r. case rd j (get r) of (v, w) \<Rightarrow> (upd (\<lambda>_. v) r, w))"

abbreviation always :: "'v \<Rightarrow> bool" where "always \<equiv> \<lambda>_. False"

fun write_fields :: "'r field list \<Rightarrow> 'r \<Rightarrow> (string \<times> json) list option" where
  "write_fields [] r = Some []"
| "write_fields ((k, omit, wr, rd) # fs) r =
     (if omit r then write_fields fs r
      else case wr r of None \<Rightarrow> None | Some j \<Rightarrow> map_option (\<lambda>ms. (k, j) # ms) (write_fields fs r))"

definition write_struct :: "'r field list \<Rightarrow> 'r \<Rightarrow> json option" where
  "write_struct fs r = map_option JObj (write_fields fs r)"

definition find_reader :: "'r field list \<Rightarrow> string \<Rightarrow> (json \<Rightarrow> 'r \<Rightarrow> 'r \<times> verdict) option" where
  "find_reader fs k =
     (let m = map_of (map (\<lambda>(k, _, _, rd). (k, rd)) fs) in
      case m k of Some rd \<Rightarrow> Some rd | None \<Rightarrow> m (fold_name k))"

fun read_fields :: "'r field list \<Rightarrow> (string \<times> json) list \<Rightarrow> 'r \<Rightarrow> 'r \<times> verdict" where
  "read_fields fs [] r = (r, Fits)"
| "read_fields fs ((k, v) # ms) r =
     (case find_reader fs k of
        None \<Rightarrow> read_fields fs ms r
      | Some rd \<Rightarrow>
          (case rd v r of
             (r', Stops) \<Rightarrow> (r', Stops)
           | (r', w) \<Rightarrow> (case read_fields fs ms r' of (r'', w') \<Rightarrow> (r'', worse w w'))))"

definition read_struct :: "'r field list \<Rightarrow> json \<Rightarrow> 'r \<Rightarrow> 'r \<times> verdict" where
  "read_struct fs v r =
     (case v of JObj ms \<Rightarrow> read_fields fs ms r | JNull \<Rightarrow> (r, Fits) | _ \<Rightarrow> (r, Misfits))"

section \<open>Round trips\<close>

text \<open>\<open>v\<close> is written as well-formed JSON of depth at most \<open>d\<close>, and read back from the zero value \<open>z\<close>.\<close>

definition round_trips :: "nat \<Rightarrow> ('v \<Rightarrow> json option) \<Rightarrow> (json \<Rightarrow> 'v \<Rightarrow> 'v \<times> verdict) \<Rightarrow> 'v \<Rightarrow> 'v \<Rightarrow> bool" where
  "round_trips d wr rd z v \<longleftrightarrow>
     (\<exists>j. wr v = Some j \<and> numbers_ok j \<and> json_depth j \<le> d \<and> rd (clean_json j) z = (v, Fits))"

lemma string_round_trips: "valid_utf8 s \<Longrightarrow> round_trips d write_string read_string z s"
  by (simp add: round_trips_def write_string_def read_string_def clean_valid)

lemma float_round_trips: "is_f64 x \<Longrightarrow> is_fin x \<Longrightarrow> round_trips d write_float (read_num json_float) z x"
  using float_text_reads [of x] by (auto simp: round_trips_def write_float_def read_num_def)

lemma number_ok_nat: "number_ok (show_nat n)"
proof (cases "n = 0")
  case True
  then show ?thesis by (simp add: show_nat.simps) code_simp
next
  case False
  then obtain c r where "show_nat n = c # r" "is_digit c" "c \<noteq> CHR ''0''" using show_nat_head [of n] by auto
  then have "int_part_ok (show_nat n)" using show_nat_digits [of n] by (simp add: int_part_ok_def)
  from number_ok_plain [OF this, of "[]"] show ?thesis by simp
qed

lemma number_ok_int: "number_ok (show_int i)"
  using number_ok_nat [of "nat i"] number_minus(1) [OF number_ok_nat, of "nat (- i)"]
    is_digit_no_sign [of "show_nat (nat (- i))"] show_nat_digits [of "nat (- i)"]
  by (simp add: show_int_def)

lemma int_round_trips:
  "- (2 ^ 63) \<le> i \<Longrightarrow> i < 2 ^ 63 \<Longrightarrow> round_trips d write_int (read_num atoi) z i"
  by (simp add: round_trips_def write_int_def read_num_def number_ok_int atoi_show_int)

lemma int32_round_trips:
  "- (2 ^ 31) \<le> i \<Longrightarrow> i < 2 ^ 31 \<Longrightarrow> round_trips d write_int (read_num parse_int32) z i"
  by (simp add: round_trips_def write_int_def read_num_def number_ok_int parse_int32_def atoi_show_int)

lemma uint_round_trips: "round_trips d write_uint (read_num parse_uint) z w"
proof -
  have "int (unat w) < 2 ^ 64" using uint_bounded [of w] by simp
  then have "parse_uint (show_nat (unat w)) = Some w"
    using show_nat_digits [of "unat w"] by (simp add: parse_uint_def digits_val_show_nat)
  then show ?thesis by (simp add: round_trips_def write_uint_def read_num_def number_ok_nat)
qed

lemma time_round_trips: "time_text zone t \<noteq> None \<Longrightarrow> round_trips d (write_time zone) read_time z t"
  using parse_time_text time_text_valid
  by (auto simp: round_trips_def write_time_def read_time_def clean_valid)

lemma list_round_trips:
  assumes "list_all (round_trips d wr rd zero) xs"
  shows "round_trips (Suc d) (write_list wr) (read_list rd zero) [] xs"
proof -
  have "\<exists>js. write_elems wr xs = Some js \<and> list_all numbers_ok js \<and> foldr max (map json_depth js) 0 \<le> d
      \<and> read_elems rd zero (map clean_json js) [] = (xs, Fits)"
    using assms by (induction xs) (auto simp: round_trips_def)
  then show ?thesis by (auto simp: round_trips_def write_list_def read_list_def)
qed

text \<open>One field, and the fields in turn.\<close>

definition step :: "nat \<Rightarrow> 'r field \<Rightarrow> 'r \<Rightarrow> 'r \<Rightarrow> 'r \<Rightarrow> bool" where
  "step d f r s s' \<longleftrightarrow>
     (case f of (k, omit, wr, rd) \<Rightarrow>
        if omit r then s' = s
        else \<exists>j. wr r = Some j \<and> numbers_ok j \<and> json_depth j \<le> d \<and> rd (clean_json j) s = (s', Fits))"

fun steps :: "nat \<Rightarrow> 'r field list \<Rightarrow> 'r \<Rightarrow> 'r \<Rightarrow> 'r \<Rightarrow> bool" where
  "steps d [] r s s' = (s' = s)"
| "steps d (f # fs) r s s' = (\<exists>t. step d f r s t \<and> steps d fs r t s')"

lemma steps_fld:
  assumes "round_trips d wr rd (get s) (get r)" "upd (\<lambda>_. get s) s = s" "omit (get r) \<Longrightarrow> get r = get s"
    and "steps d fs r (upd (\<lambda>_. get r) s) s'"
  shows "steps d (fld k omit wr rd get upd # fs) r s s'"
proof -
  have "step d (fld k omit wr rd get upd) r s (upd (\<lambda>_. get r) s)"
    using assms(1-3) by (auto simp: step_def fld_def round_trips_def)
  with assms(4) show ?thesis by auto
qed

lemma steps_Nil: "s' = s \<Longrightarrow> steps d [] r s s'"
  by simp

definition table_ok :: "'r field list \<Rightarrow> bool" where
  "table_ok fs \<longleftrightarrow> distinct (map fst fs) \<and> list_all valid_utf8 (map fst fs)"

lemma find_reader_table:
  "distinct (map fst fs) \<Longrightarrow> (k, omit, wr, rd) \<in> set fs \<Longrightarrow> find_reader fs k = Some rd"
proof -
  assume "distinct (map fst fs)" "(k, omit, wr, rd) \<in> set fs"
  then have "map_of (map (\<lambda>(k, _, _, rd). (k, rd)) fs) k = Some rd"
    by (intro map_of_is_SomeI) (force simp: o_def case_prod_beta' comp_def)+
  then show ?thesis by (simp add: find_reader_def)
qed

lemma struct_round_trips:
  assumes "table_ok fs" "steps d fs r z r"
  shows "round_trips (Suc d) (write_struct fs) (read_struct fs) z r"
proof -
  have "\<exists>ms. write_fields gs r = Some ms \<and> list_all (\<lambda>(k, v). numbers_ok v) ms
      \<and> foldr max (map (\<lambda>(k, v). json_depth v) ms) 0 \<le> d
      \<and> read_fields fs (map (\<lambda>(k, v). (clean_utf8 k, clean_json v)) ms) s = (s', Fits)"
    if "set gs \<subseteq> set fs" "steps d gs r s s'" for gs s s'
    using that
  proof (induction gs arbitrary: s)
    case (Cons g gs)
    obtain k omit wr rd where g: "g = (k, omit, wr, rd)" by (cases g) auto
    obtain t where t: "step d g r s t" "steps d gs r t s'" using Cons.prems(2) by auto
    from Cons.IH [OF _ t(2)] Cons.prems(1) obtain ms where ms: "write_fields gs r = Some ms"
      "list_all (\<lambda>(k, v). numbers_ok v) ms" "foldr max (map (\<lambda>(k, v). json_depth v) ms) 0 \<le> d"
      "read_fields fs (map (\<lambda>(k, v). (clean_utf8 k, clean_json v)) ms) t = (s', Fits)" by auto
    show ?case
    proof (cases "omit r")
      case True
      with t(1) ms g show ?thesis by (simp add: step_def)
    next
      case False
      with t(1) g obtain j where j: "wr r = Some j" "numbers_ok j" "json_depth j \<le> d"
        "rd (clean_json j) s = (t, Fits)" by (auto simp: step_def)
      have "valid_utf8 k" "find_reader fs k = Some rd"
        using assms(1) Cons.prems(1) g find_reader_table [of fs k omit wr rd]
        by (auto simp: table_ok_def list_all_iff)
      with False g j ms show ?thesis by (simp add: clean_valid)
    qed
  qed simp
  from this [OF subset_refl assms(2)] show ?thesis
    by (auto simp: round_trips_def write_struct_def read_struct_def)
qed

section \<open>The structs of the store\<close>

text \<open>\<open>ProcInfo\<close>, \<open>Snapshot\<close>, \<open>CycleRecord\<close> and \<open>State\<close>, with the tags and options of the source.\<close>

definition f_zero :: "f64 \<Rightarrow> bool" where "f_zero x \<longleftrightarrow> f_eq x (Fin 0)"

definition proc_fields :: "proc_info field list" where
  "proc_fields =
     [fld ''pid'' always write_int (read_num parse_int32) pi_PID pi_PID_update,
      fld ''name'' always write_string read_string pi_Name pi_Name_update,
      fld ''mem_mb'' always write_uint (read_num parse_uint) pi_MemMB pi_MemMB_update]"

definition zero_proc :: proc_info where
  "zero_proc = \<lparr>pi_PID = 0, pi_Name = [], pi_MemMB = 0\<rparr>"

abbreviation float_fld where
  "float_fld k omit \<equiv> fld k omit write_float (read_num json_float)"

abbreviation uint_fld where
  "uint_fld k omit \<equiv> fld k omit write_uint (read_num parse_uint)"

definition snapshot_fields :: "(time \<Rightarrow> int) \<Rightarrow> snapshot field list" where
  "snapshot_fields zone =
     [fld ''timestamp'' always (write_time zone) read_time sn_Timestamp sn_Timestamp_update,
      float_fld ''cpu_percent'' always sn_CPUPercent sn_CPUPercent_update,
      uint_fld ''mem_used_mb'' always sn_MemUsed sn_MemUsed_update,
      uint_fld ''mem_total_mb'' always sn_MemTotal sn_MemTotal_update,
      float_fld ''mem_percent'' always sn_MemPercent sn_MemPercent_update,
      uint_fld ''swap_used_mb'' (\<lambda>w. w = 0) sn_SwapUsed sn_SwapUsed_update,
      uint_fld ''swap_total_mb'' (\<lambda>w. w = 0) sn_SwapTotal sn_SwapTotal_update,
      float_fld ''swap_percent'' f_zero sn_SwapPercent sn_SwapPercent_update,
      uint_fld ''disk_used_gb'' always sn_DiskUsed sn_DiskUsed_update,
      uint_fld ''disk_total_gb'' always sn_DiskTotal sn_DiskTotal_update,
      float_fld ''disk_percent'' always sn_DiskPercent sn_DiskPercent_update,
      float_fld ''net_recv_mbps'' f_zero sn_NetRecvMBps sn_NetRecvMBps_update,
      float_fld ''net_sent_mbps'' f_zero sn_NetSentMBps sn_NetSentMBps_update,
      float_fld ''load_avg1'' f_zero sn_LoadAvg1 sn_LoadAvg1_update,
      float_fld ''load_avg5'' f_zero sn_LoadAvg5 sn_LoadAvg5_update,
      float_fld ''load_avg15'' f_zero sn_LoadAvg15 sn_LoadAvg15_update,
      fld ''top_procs'' (\<lambda>xs. xs = []) (write_list (write_struct proc_fields))
        (read_list (read_struct proc_fields) zero_proc) sn_TopProcs sn_TopProcs_update]"

definition zero_cycle :: cycle_record where
  "zero_cycle =
     \<lparr>cr_Snapshot = zero_snapshot, cr_Action = [], cr_Analysis = [], cr_Reason = [], cr_Command = [],
      cr_CycleNum = 0, cr_Timestamp = 0, cr_TriggerCPU = Fin 0, cr_TriggerRAM = Fin 0,
      cr_TriggerDisk = Fin 0, cr_Confidence = Fin 0\<rparr>"

definition cycle_fields :: "(time \<Rightarrow> int) \<Rightarrow> cycle_record field list" where
  "cycle_fields zone =
     [fld ''snapshot'' always (write_struct (snapshot_fields zone)) (read_struct (snapshot_fields zone))
        cr_Snapshot cr_Snapshot_update,
      fld ''action'' always write_string read_string cr_Action cr_Action_update,
      fld ''analysis'' always write_string read_string cr_Analysis cr_Analysis_update,
      fld ''reason'' always write_string read_string cr_Reason cr_Reason_update,
      fld ''command'' (\<lambda>s. s = []) write_string read_string cr_Command cr_Command_update,
      fld ''cycle_num'' always write_int (read_num atoi) cr_CycleNum cr_CycleNum_update,
      fld ''timestamp'' always (write_time zone) read_time cr_Timestamp cr_Timestamp_update,
      float_fld ''trigger_cpu'' f_zero cr_TriggerCPU cr_TriggerCPU_update,
      float_fld ''trigger_ram'' f_zero cr_TriggerRAM cr_TriggerRAM_update,
      float_fld ''trigger_disk'' f_zero cr_TriggerDisk cr_TriggerDisk_update,
      float_fld ''confidence'' f_zero cr_Confidence cr_Confidence_update]"

definition state_fields :: "(time \<Rightarrow> int) \<Rightarrow> json_state field list" where
  "state_fields zone =
     [fld ''version'' always write_int (read_num atoi) js_Version js_Version_update,
      fld ''history'' always (write_list (write_struct (snapshot_fields zone)))
        (read_list (read_struct (snapshot_fields zone)) zero_snapshot) js_History js_History_update,
      fld ''cycles'' always (write_list (write_struct (cycle_fields zone)))
        (read_list (read_struct (cycle_fields zone)) zero_cycle) js_Cycles js_Cycles_update,
      fld ''cycle_num'' always write_int (read_num atoi) js_CycleNum js_CycleNum_update]"

text \<open>A reader has no use for the zone, so it takes the tables with UTC in it.\<close>

definition utc :: "time \<Rightarrow> int" where
  "utc t = 0"

text \<open>\<open>json.MarshalIndent(s, "", "  ")\<close> and \<open>json.Unmarshal(data, s)\<close>, which refuses what is not JSON before it
  touches \<open>s\<close>.\<close>

definition encode_state :: "(time \<Rightarrow> int) \<Rightarrow> json_state \<Rightarrow> string option" where
  "encode_state zone s = map_option json_indent (write_struct (state_fields zone) s)"

definition decode_state :: "string \<Rightarrow> json_state \<Rightarrow> json_state \<times> bool" where
  "decode_state data s =
     (case parse_json data of
        None \<Rightarrow> (s, False)
      | Some v \<Rightarrow> (case read_struct (state_fields utc) v s of (s', w) \<Rightarrow> (s', w = Fits)))"

lemma read_fields_cong:
  "map (\<lambda>(k, _, _, rd). (k, rd)) fs = map (\<lambda>(k, _, _, rd). (k, rd)) gs \<Longrightarrow> read_fields fs ms r = read_fields gs ms r"
  by (induction ms arbitrary: r) (auto simp: find_reader_def Let_def split: option.split verdict.split prod.split)

lemma read_struct_cong:
  "map (\<lambda>(k, _, _, rd). (k, rd)) fs = map (\<lambda>(k, _, _, rd). (k, rd)) gs \<Longrightarrow> read_struct fs = read_struct gs"
  by (intro ext) (simp add: read_struct_def read_fields_cong [of fs gs] split: json.split)

lemma read_snapshot_zone: "read_struct (snapshot_fields zone) = read_struct (snapshot_fields utc)"
  by (rule read_struct_cong) (simp add: snapshot_fields_def fld_def)

lemma read_cycle_zone: "read_struct (cycle_fields zone) = read_struct (cycle_fields utc)"
  by (rule read_struct_cong) (simp add: cycle_fields_def fld_def read_snapshot_zone [of zone])

lemma read_state_zone: "read_struct (state_fields zone) = read_struct (state_fields utc)"
  by (rule read_struct_cong)
    (simp add: state_fields_def fld_def read_snapshot_zone [of zone] read_cycle_zone [of zone])

section \<open>Values that survive\<close>

definition time_ok :: "(time \<Rightarrow> int) \<Rightarrow> time \<Rightarrow> bool" where
  "time_ok zone t \<longleftrightarrow> time_text zone t \<noteq> None"

definition float_ok :: "f64 \<Rightarrow> bool" where
  "float_ok x \<longleftrightarrow> is_f64 x \<and> is_fin x"

definition int_ok :: "int \<Rightarrow> bool" where
  "int_ok i \<longleftrightarrow> - (2 ^ 63) \<le> i \<and> i < 2 ^ 63"

definition proc_ok :: "proc_info \<Rightarrow> bool" where
  "proc_ok p \<longleftrightarrow> - (2 ^ 31) \<le> pi_PID p \<and> pi_PID p < 2 ^ 31 \<and> valid_utf8 (pi_Name p)"

definition snapshot_ok :: "(time \<Rightarrow> int) \<Rightarrow> snapshot \<Rightarrow> bool" where
  "snapshot_ok zone s \<longleftrightarrow> time_ok zone (sn_Timestamp s)
     \<and> list_all float_ok [sn_CPUPercent s, sn_MemPercent s, sn_SwapPercent s, sn_DiskPercent s, sn_NetRecvMBps s,
         sn_NetSentMBps s, sn_LoadAvg1 s, sn_LoadAvg5 s, sn_LoadAvg15 s]
     \<and> list_all proc_ok (sn_TopProcs s)"

definition cycle_text_ok :: "(time \<Rightarrow> int) \<Rightarrow> cycle_record \<Rightarrow> bool" where
  "cycle_text_ok zone r \<longleftrightarrow> snapshot_ok zone (cr_Snapshot r) \<and> time_ok zone (cr_Timestamp r) \<and> int_ok (cr_CycleNum r)
     \<and> list_all valid_utf8 [cr_Action r, cr_Analysis r, cr_Reason r, cr_Command r]
     \<and> list_all float_ok [cr_TriggerCPU r, cr_TriggerRAM r, cr_TriggerDisk r, cr_Confidence r]"

definition state_ok :: "(time \<Rightarrow> int) \<Rightarrow> json_state \<Rightarrow> bool" where
  "state_ok zone s \<longleftrightarrow> int_ok (js_Version s) \<and> int_ok (js_CycleNum s)
     \<and> list_all (snapshot_ok zone) (js_History s) \<and> list_all (cycle_text_ok zone) (js_Cycles s)"

lemma time_ok_round_trips: "time_ok zone t \<Longrightarrow> round_trips d (write_time zone) read_time z t"
  by (simp add: time_ok_def time_round_trips)

lemma float_ok_round_trips: "float_ok x \<Longrightarrow> round_trips d write_float (read_num json_float) z x"
  by (simp add: float_ok_def float_round_trips)

lemma int_ok_round_trips: "int_ok i \<Longrightarrow> round_trips d write_int (read_num atoi) z i"
  by (simp add: int_ok_def int_round_trips)

lemma f_zero_eq: "f_zero x \<Longrightarrow> x = Fin 0"
  by (cases x) (simp_all add: f_zero_def)

lemmas value_round_trips =
  time_ok_round_trips float_ok_round_trips int_ok_round_trips int32_round_trips uint_round_trips string_round_trips

lemma proc_round_trips: "proc_ok p \<Longrightarrow> round_trips 1 (write_struct proc_fields) (read_struct proc_fields) zero_proc p"
proof -
  assume p: "proc_ok p"
  have "table_ok proc_fields" by code_simp
  moreover have "steps 0 proc_fields p zero_proc p"
    unfolding proc_fields_def zero_proc_def
    by (intro steps_fld steps_Nil) (use p in \<open>simp_all add: value_round_trips proc_ok_def\<close>)
  ultimately show ?thesis using struct_round_trips by fastforce
qed

lemma snapshot_round_trips:
  assumes "snapshot_ok zone s"
  shows "round_trips 3 (write_struct (snapshot_fields zone)) (read_struct (snapshot_fields zone)) zero_snapshot s"
proof -
  have procs: "round_trips 2 (write_list (write_struct proc_fields)) (read_list (read_struct proc_fields) zero_proc) []
      (sn_TopProcs s)"
    using assms list_round_trips [where d = 1 and xs = "sn_TopProcs s"] proc_round_trips
    by (simp add: snapshot_ok_def list_all_iff numeral_2_eq_2)
  have "table_ok (snapshot_fields zone)" unfolding snapshot_fields_def table_ok_def fld_def by code_simp
  moreover have "steps 2 (snapshot_fields zone) s zero_snapshot s"
    unfolding snapshot_fields_def zero_snapshot_def
    by (intro steps_fld steps_Nil)
      (use assms procs in \<open>simp_all add: value_round_trips snapshot_ok_def f_zero_eq\<close>)
  ultimately show ?thesis using struct_round_trips [of "snapshot_fields zone" 2] by simp
qed

lemma cycle_round_trips:
  assumes "cycle_text_ok zone r"
  shows "round_trips 4 (write_struct (cycle_fields zone)) (read_struct (cycle_fields zone)) zero_cycle r"
proof -
  have snap: "round_trips 3 (write_struct (snapshot_fields zone)) (read_struct (snapshot_fields zone)) zero_snapshot (cr_Snapshot r)"
    using assms by (intro snapshot_round_trips) (simp add: cycle_text_ok_def)
  have "table_ok (cycle_fields zone)" unfolding cycle_fields_def table_ok_def fld_def by code_simp
  moreover have "steps 3 (cycle_fields zone) r zero_cycle r"
    unfolding cycle_fields_def zero_cycle_def
    by (intro steps_fld steps_Nil)
      (use assms snap in \<open>simp_all add: value_round_trips cycle_text_ok_def f_zero_eq\<close>)
  ultimately show ?thesis using struct_round_trips [of "cycle_fields zone" 3] by simp
qed

lemma state_round_trips:
  assumes "state_ok zone s"
  shows "round_trips 6 (write_struct (state_fields zone)) (read_struct (state_fields zone)) (empty_state (js_filepath s)) s"
proof -
  have "round_trips (Suc 4) (write_list (write_struct (snapshot_fields zone)))
      (read_list (read_struct (snapshot_fields zone)) zero_snapshot) [] (js_History s)"
    using assms snapshot_round_trips [of zone]
    by (intro list_round_trips) (auto simp: state_ok_def list_all_iff round_trips_def; fastforce)
  moreover have "round_trips (Suc 4) (write_list (write_struct (cycle_fields zone)))
      (read_list (read_struct (cycle_fields zone)) zero_cycle) [] (js_Cycles s)"
    using assms cycle_round_trips [of zone] by (intro list_round_trips) (auto simp: state_ok_def list_all_iff)
  moreover have "table_ok (state_fields zone)" unfolding state_fields_def table_ok_def fld_def by code_simp
  ultimately have "table_ok (state_fields zone) \<and> steps 5 (state_fields zone) s (empty_state (js_filepath s)) s"
    unfolding state_fields_def empty_state_def
    by (intro conjI steps_fld steps_Nil) (use assms in \<open>simp_all add: value_round_trips state_ok_def\<close>)
  then show ?thesis using struct_round_trips [of "state_fields zone" 5] by simp
qed

text \<open>What \<open>Save\<close> writes, \<open>load\<close> reads.\<close>

lemma decode_encode_state:
  assumes "state_ok zone s"
  shows "\<exists>data. encode_state zone s = Some data \<and> decode_state data (empty_state (js_filepath s)) = (s, True)"
proof -
  obtain j where j: "write_struct (state_fields zone) s = Some j" "numbers_ok j" "json_depth j \<le> 6"
    "read_struct (state_fields utc) (clean_json j) (empty_state (js_filepath s)) = (s, Fits)"
    using state_round_trips [OF assms] by (auto simp: round_trips_def read_state_zone [of zone])
  have "json_depth j \<le> max_nesting" using j(3) by (simp add: max_nesting_def)
  from indented.parse_json_print(1) [OF j(2) this, of 0] j show ?thesis
    by (simp add: encode_state_def decode_state_def json_indent_def)
qed

text \<open>A state with a value JSON cannot hold is not encoded: \<open>Save\<close> reports it and leaves the file alone.\<close>

lemma write_struct_None:
  "fld k omit wr rd get upd \<in> set fs \<Longrightarrow> \<not> omit (get r) \<Longrightarrow> wr (get r) = None \<Longrightarrow> write_struct fs r = None"
proof -
  assume a: "fld k omit wr rd get upd \<in> set fs" "\<not> omit (get r)" "wr (get r) = None"
  then have "write_fields fs r = None"
    by (induction fs) (auto simp: fld_def split: option.split)
  then show ?thesis by (simp add: write_struct_def)
qed

lemma write_list_None: "x \<in> set xs \<Longrightarrow> wr x = None \<Longrightarrow> write_list wr xs = None"
proof -
  assume a: "x \<in> set xs" "wr x = None"
  then have "write_elems wr xs = None" by (induction xs) (auto split: option.split)
  with a show ?thesis by (auto simp: write_list_def)
qed

lemma encode_state_nan:
  assumes "x \<in> set (js_History s)" "\<not> is_fin (sn_CPUPercent x)"
  shows "encode_state zone s = None"
proof -
  have cpu: "float_fld ''cpu_percent'' always sn_CPUPercent sn_CPUPercent_update \<in> set (snapshot_fields zone)"
    by (simp add: snapshot_fields_def)
  have hist: "fld ''history'' always (write_list (write_struct (snapshot_fields zone)))
      (read_list (read_struct (snapshot_fields zone)) zero_snapshot) js_History js_History_update \<in> set (state_fields zone)"
    by (simp add: state_fields_def)
  have "write_float (sn_CPUPercent x) = None"
    using assms(2) by (cases "sn_CPUPercent x") (simp_all add: write_float_def)
  then have "write_struct (snapshot_fields zone) x = None"
    by (intro write_struct_None [OF cpu]) simp_all
  then have "write_list (write_struct (snapshot_fields zone)) (js_History s) = None"
    by (rule write_list_None [OF assms(1)])
  then have "write_struct (state_fields zone) s = None"
    by (intro write_struct_None [OF hist]) simp_all
  then show ?thesis by (simp add: encode_state_def)
qed

section \<open>The lines of the metrics log\<close>

text \<open>
  \<open>LogEntry\<close> has the fields and tags of a snapshot, in the same order. \<open>Encoder.Encode\<close> ends the value
  with a newline.
\<close>

definition encode_entry :: "(time \<Rightarrow> int) \<Rightarrow> snapshot \<Rightarrow> string option" where
  "encode_entry zone e = map_option json_line (write_struct (snapshot_fields zone) e)"

definition decode_entry :: "string \<Rightarrow> snapshot option" where
  "decode_entry line =
     (case parse_json line of
        None \<Rightarrow> None
      | Some v \<Rightarrow> (case read_struct (snapshot_fields utc) v zero_snapshot of (s, w) \<Rightarrow> if w = Fits then Some s else None))"

text \<open>No byte below the space is printed in the compact style, so a value stays on its line.\<close>

abbreviation printable :: "string \<Rightarrow> bool" where "printable s \<equiv> list_all (\<lambda>c. 0x20 \<le> byte c) s"

lemma escape_byte_printable:
  assumes "byte c < 0x80"
  shows "printable (escape_byte c)"
proof -
  have "byte c div 16 < 16" using assms by simp
  moreover have "0x20 \<le> byte (hex_digit d)" if "d < 16" for d
    using that by (simp add: hex_digit_def take_bit_nat_def)
  ultimately show ?thesis by (simp add: escape_byte_def html_safe_def)
qed

lemma escape_rune_printable:
  assumes "2 \<le> rune_len (c # r)"
  shows "printable (escape_rune (take (rune_len (c # r)) (c # r)))"
proof -
  have "printable (take (rune_len (c # r)) (c # r))"
    using assms by (rule rune_len_cases) (simp_all add: is_cont_def Let_def)
  then show ?thesis unfolding escape_rune_def by simp
qed

lemma escape_printable: "printable (escape_string s)"
proof (induction s rule: escape_string.induct)
  case (2 b r)
  let ?k = "rune_len (b # r)"
  consider "byte b < 0x80" | "\<not> byte b < 0x80" "?k = 1" | "\<not> byte b < 0x80" "?k \<noteq> 1" by blast
  then show ?case
  proof cases
    case 1
    with "2.IH"(1) escape_byte_printable show ?thesis by simp
  next
    case 2
    with "2.IH"(2) show ?thesis by (simp del: rune_len.simps)
  next
    case 3
    then have k2: "2 \<le> ?k" using rune_len_Cons(1) [of b r] by linarith
    show ?thesis
      using "2.IH"(3) [OF 3(1) refl 3(2)] escape_rune_printable [OF k2] 3
      by (simp add: Let_def del: rune_len.simps take_Cons)
  qed
qed simp

lemma digits_printable: "take_digits s = (d, r) \<Longrightarrow> printable d"
  by (auto simp: take_digits_def list_all_iff is_digit_def dest!: set_takeWhileD)

lemma number_printable: "number_ok t \<Longrightarrow> printable t"
proof -
  assume t: "number_ok t"
  have i: "printable i" if "scan_int s = Some (i, r)" for s i r
    using that digits_printable [of s i r] by (auto simp: scan_int_def split: list.splits if_splits)
  have f: "printable f" if "scan_frac s = Some (f, r)" for s f r
    using that digits_printable [of "tl s"] by (auto simp: scan_frac_def split: prod.splits if_splits)
  have e: "printable e" if x: "scan_exp s = Some (e, r)" for s e r
  proof (cases "prefix ''e'' s \<or> prefix ''E'' s")
    case True
    then obtain c s' where s: "s = c # s'" "c = CHR ''e'' \<or> c = CHR ''E''" by (cases s) auto
    let ?sg = "if prefix ''+'' s' \<or> prefix ''-'' s' then [hd s'] else []"
    obtain d q where d: "take_digits (drop (length ?sg) s') = (d, q)" by fastforce
    have sg: "printable ?sg" by (cases s') auto
    have "e = c # ?sg @ d" using x s d True by (auto simp: scan_exp_def Let_def split: if_splits)
    with digits_printable [OF d] sg s(2) show ?thesis by (auto simp del: if_split)
  qed (use x in \<open>auto simp: scan_exp_def\<close>)
  let ?sg = "if prefix ''-'' t then ''-'' else []"
  obtain i1 r1 f1 r2 e1 where si: "scan_int (drop (length ?sg) t) = Some (i1, r1)"
    and sf: "scan_frac r1 = Some (f1, r2)" and se: "scan_exp r2 = Some (e1, [])" and "?sg @ i1 @ f1 @ e1 = t"
    using t by (auto simp: number_ok_def elim: scan_number_parts)
  moreover have "printable (?sg @ i1 @ f1 @ e1)" using i [OF si] f [OF sf] e [OF se] by simp
  ultimately show ?thesis by (simp only:)
qed

lemma join_printable: "printable sep \<Longrightarrow> list_all printable xs \<Longrightarrow> printable (join sep xs)"
  by (induction sep xs rule: join.induct) simp_all

lemma compact_printable: "numbers_ok j \<Longrightarrow> printable (compact.pr l j)"
proof (induction j arbitrary: l)
  case (JArr vs)
  then have "list_all printable (map (compact.pr (Suc l)) vs)" by (simp add: list_all_iff)
  then show ?case using join_printable [of "'',''" "map (compact.pr (Suc l)) vs"] by simp
next
  case (JObj ms)
  let ?pm = "\<lambda>(k, v). quote_json k @ '':'' @ compact.pr (Suc l) v"
  have "printable (?pm m)" if m: "m \<in> set ms" for m
  proof -
    obtain k v where kv: "m = (k, v)" by (cases m)
    then have "printable (compact.pr (Suc l) v)"
      using JObj.prems m by (intro JObj.IH [OF m]) (auto simp: list_all_iff)
    then show ?thesis by (simp add: kv quote_json_def escape_printable)
  qed
  then have "list_all printable (map ?pm ms)" by (simp add: list_all_iff)
  then show ?case using join_printable [of "'',''" "map ?pm ms"] by simp
qed (auto simp: number_printable quote_json_def escape_printable)

lemma json_text_line: "numbers_ok j \<Longrightarrow> CHR 0x0A \<notin> set (json_text j)"
  using compact_printable [of j 0] by (auto simp: json_text_def list_all_iff)

lemma last_object_text: "json_text (JObj ms) \<noteq> [] \<and> last (json_text (JObj ms)) = CHR ''}''"
  by (simp add: json_text_def)

text \<open>An entry that was written is one line of the log, and reading the line gives the entry.\<close>

lemma decode_encode_entry:
  assumes "snapshot_ok zone e"
  shows "\<exists>line. encode_entry zone e = Some (line @ nl) \<and> CHR 0x0A \<notin> set line \<and> last line = CHR ''}''
    \<and> decode_entry line = Some e"
proof -
  obtain j where j: "write_struct (snapshot_fields zone) e = Some j" "numbers_ok j" "json_depth j \<le> 3"
    "read_struct (snapshot_fields utc) (clean_json j) zero_snapshot = (e, Fits)"
    using snapshot_round_trips [OF assms] by (auto simp: round_trips_def read_snapshot_zone [of zone])
  have "json_depth j \<le> max_nesting" using j(3) by (simp add: max_nesting_def)
  from compact.parse_json_print(1) [OF j(2) this, of 0] j have "decode_entry (json_text j) = Some e"
    by (simp add: decode_entry_def json_text_def)
  moreover obtain ms where "j = JObj ms" using j(1) by (auto simp: write_struct_def)
  ultimately show ?thesis
    using json_text_line [OF j(2)] last_object_text j(1) by (auto simp: encode_entry_def json_line_def)
qed

end
