(* ===== verification/JX_Stores.thy ===== *)
theory JX_Stores
  imports JX_Memory JX_Codec
begin

text \<open>
  The implementers of the \<open>Store\<close> interface of \<open>runtime/memory/store.go\<close>: the JSON \<open>State\<close>, the
  \<open>SQLiteStore\<close> (\<open>sqlite_store.go\<close>), the \<open>NoopStore\<close> and the \<open>DoubleWriteStore\<close>, which writes to two
  stores and reads the secondary first. An interface value is a value of the datatype \<open>store\<close> and a
  method call dispatches on it.

  A table of the database is the list of its rows in the order of their ids (\<open>AUTOINCREMENT\<close>), as the
  statements of the source use it: \<open>INSERT\<close> appends, \<open>ORDER BY id DESC LIMIT n\<close> takes the last \<open>n\<close>,
  newest first. A statement can fail: the engine may be down (\<open>sq_down\<close>), the driver refuses unsigned
  values with the high bit set, and a NaN is stored as NULL, which a \<open>NOT NULL\<close> column refuses.
\<close>

section \<open>The SQLite store\<close>

record sqlite_store =
  sq_snapshots :: "snapshot list"
  sq_cycles :: "cycle_record list"
  sq_cycleNum :: int
  sq_down :: bool

definition u64_ok :: "64 word \<Rightarrow> bool" where
  "u64_ok w \<longleftrightarrow> uint w < 2 ^ 63"

definition snapshot_row_ok :: "snapshot \<Rightarrow> bool" where
  "snapshot_row_ok s \<longleftrightarrow>
     list_all (\<lambda>x. x \<noteq> NaN)
       [sn_CPUPercent s, sn_MemPercent s, sn_SwapPercent s, sn_DiskPercent s, sn_NetRecvMBps s,
        sn_NetSentMBps s, sn_LoadAvg1 s, sn_LoadAvg5 s, sn_LoadAvg15 s]
     \<and> list_all u64_ok [sn_MemUsed s, sn_MemTotal s, sn_SwapUsed s, sn_SwapTotal s, sn_DiskUsed s, sn_DiskTotal s]"

definition cycle_row_ok :: "cycle_record \<Rightarrow> bool" where
  "cycle_row_ok r \<longleftrightarrow>
     list_all (\<lambda>x. x \<noteq> NaN)
       [sn_CPUPercent (cr_Snapshot r), sn_MemPercent (cr_Snapshot r), sn_DiskPercent (cr_Snapshot r)]
     \<and> list_all u64_ok [sn_MemUsed (cr_Snapshot r), sn_MemTotal (cr_Snapshot r),
         sn_DiskUsed (cr_Snapshot r), sn_DiskTotal (cr_Snapshot r)]"

text \<open>A NULL in a nullable column cannot be scanned into a \<open>float64\<close>: the row is skipped on reading.\<close>

definition cycle_row_readable :: "cycle_record \<Rightarrow> bool" where
  "cycle_row_readable r \<longleftrightarrow>
     list_all (\<lambda>x. x \<noteq> NaN) [cr_TriggerCPU r, cr_TriggerRAM r, cr_TriggerDisk r, cr_Confidence r]"

text \<open>The columns of \<open>cycles\<close> keep part of the snapshot; the rest is zero when the row is read back.\<close>

definition cycle_view :: "cycle_record \<Rightarrow> cycle_record" where
  "cycle_view r = r\<lparr>cr_Snapshot :=
     zero_snapshot\<lparr>sn_Timestamp := cr_Timestamp r,
       sn_CPUPercent := sn_CPUPercent (cr_Snapshot r), sn_MemUsed := sn_MemUsed (cr_Snapshot r),
       sn_MemTotal := sn_MemTotal (cr_Snapshot r), sn_MemPercent := sn_MemPercent (cr_Snapshot r),
       sn_DiskUsed := sn_DiskUsed (cr_Snapshot r), sn_DiskTotal := sn_DiskTotal (cr_Snapshot r),
       sn_DiskPercent := sn_DiskPercent (cr_Snapshot r)\<rparr>\<rparr>"

datatype store_error = SqlInsertSnapshot | SqlInsertCycle | MarshalState | WriteState

text \<open>
  \<open>OpenSQLiteStore\<close> on a database that already holds rows: the counter starts at the largest number
  stored (\<open>SELECT MAX(cycle_num)\<close> is NULL on an empty table).
\<close>

definition max_cycle :: "cycle_record list \<Rightarrow> int option" where
  "max_cycle rs = (if rs = [] then None else Some (Max (set (map cr_CycleNum rs))))"

definition open_sqlite_store :: "snapshot list \<Rightarrow> cycle_record list \<Rightarrow> sqlite_store" where
  "open_sqlite_store snaps cycles =
     \<lparr>sq_snapshots = snaps, sq_cycles = cycles,
      sq_cycleNum = (case max_cycle cycles of Some n \<Rightarrow> n | None \<Rightarrow> 0), sq_down = False\<rparr>"

definition sq_add :: "snapshot \<Rightarrow> sqlite_store \<Rightarrow> sqlite_store \<times> store_error option" where
  "sq_add snap s =
     (if sq_down s \<or> \<not> snapshot_row_ok snap then (s, Some SqlInsertSnapshot)
      else (s\<lparr>sq_snapshots := sq_snapshots s @ [snap]\<rparr>, None))"

definition sq_add_cycle :: "cycle_record \<Rightarrow> sqlite_store \<Rightarrow> sqlite_store \<times> store_error option" where
  "sq_add_cycle r0 s0 =
     (let (r, s) =
        (if 0 < cr_CycleNum r0
         then (r0, if sq_cycleNum s0 < cr_CycleNum r0 then s0\<lparr>sq_cycleNum := cr_CycleNum r0\<rparr> else s0)
         else (let n = sq_cycleNum s0 + 1 in (r0\<lparr>cr_CycleNum := n\<rparr>, s0\<lparr>sq_cycleNum := n\<rparr>)))
      in if sq_down s \<or> \<not> cycle_row_ok r then (s, Some SqlInsertCycle)
         else (s\<lparr>sq_cycles := sq_cycles s @ [cycle_view r]\<rparr>, None))"

text \<open>The in-place reversal loop \<open>for i, j := 0, len-1; i < j; i, j = i+1, j-1\<close>.\<close>

function swap_loop :: "nat \<Rightarrow> nat \<Rightarrow> 'a list \<Rightarrow> 'a list" where
  "swap_loop i j xs = (if i < j then swap_loop (i + 1) (j - 1) (xs[i := xs ! j, j := xs ! i]) else xs)"
  by pat_completeness auto
termination
  by (relation "measure (\<lambda>(i, j, xs). j - i)") auto

declare swap_loop.simps [simp del]

definition reverse_in_place :: "'a list \<Rightarrow> 'a list" where
  "reverse_in_place xs = (if xs = [] then xs else swap_loop 0 (length xs - 1) xs)"

definition sq_last :: "int \<Rightarrow> sqlite_store \<Rightarrow> snapshot list" where
  "sq_last n s =
     (if n \<le> 0 \<or> sq_down s then []
      else reverse_in_place (take (nat n) (rev (sq_snapshots s))))"

definition sq_last_cycles :: "int \<Rightarrow> sqlite_store \<Rightarrow> cycle_record list" where
  "sq_last_cycles n s =
     (if n \<le> 0 \<or> sq_down s then []
      else reverse_in_place (filter cycle_row_readable (take (nat n) (rev (sq_cycles s)))))"

definition sq_current_cycle :: "sqlite_store \<Rightarrow> int" where
  "sq_current_cycle s = sq_cycleNum s"

section \<open>The interface and its dispatch\<close>

datatype store = SJson json_state | SSqlite sqlite_store | SNoop | SDouble store store

fun store_add :: "snapshot \<Rightarrow> store \<Rightarrow> store \<times> store_error option" where
  "store_add x (SJson s) = (SJson (js_add x s), None)"
| "store_add x (SSqlite s) = (case sq_add x s of (s', e) \<Rightarrow> (SSqlite s', e))"
| "store_add x SNoop = (SNoop, None)"
| "store_add x (SDouble p q) =
     (case store_add x p of (p', e) \<Rightarrow> (case store_add x q of (q', _) \<Rightarrow> (SDouble p' q', e)))"

fun store_current_cycle :: "store \<Rightarrow> int" where
  "store_current_cycle (SJson s) = js_current_cycle s"
| "store_current_cycle (SSqlite s) = sq_current_cycle s"
| "store_current_cycle SNoop = 0"
| "store_current_cycle (SDouble p q) = store_current_cycle p"

fun store_add_cycle :: "cycle_record \<Rightarrow> store \<Rightarrow> store \<times> store_error option" where
  "store_add_cycle r (SJson s) = (SJson (js_add_cycle r s), None)"
| "store_add_cycle r (SSqlite s) = (case sq_add_cycle r s of (s', e) \<Rightarrow> (SSqlite s', e))"
| "store_add_cycle r SNoop = (SNoop, None)"
| "store_add_cycle r (SDouble p q) =
     (case store_add_cycle r p of (p', e) \<Rightarrow>
        (case store_add_cycle (r\<lparr>cr_CycleNum := store_current_cycle p'\<rparr>) q of
           (q', _) \<Rightarrow> (SDouble p' q', e)))"

fun store_last :: "int \<Rightarrow> store \<Rightarrow> snapshot list option" where
  "store_last n (SJson s) = js_last n s"
| "store_last n (SSqlite s) = Some (sq_last n s)"
| "store_last n SNoop = Some []"
| "store_last n (SDouble p q) =
     (case store_last n q of None \<Rightarrow> None
      | Some r \<Rightarrow> if 0 < length r then Some r else store_last n p)"

fun store_last_cycles :: "int \<Rightarrow> store \<Rightarrow> cycle_record list option" where
  "store_last_cycles n (SJson s) = js_last_cycles n s"
| "store_last_cycles n (SSqlite s) = Some (sq_last_cycles n s)"
| "store_last_cycles n SNoop = Some []"
| "store_last_cycles n (SDouble p q) =
     (case store_last_cycles n q of None \<Rightarrow> None
      | Some r \<Rightarrow> if 0 < length r then Some r else store_last_cycles n p)"

text \<open>\<open>Save\<close>: the file that is written, if any, and the error; \<open>wr\<close> says whether the write succeeds.\<close>

fun store_save :: "(json_state \<Rightarrow> string option) \<Rightarrow> bool \<Rightarrow> store \<Rightarrow> (string \<times> string) option \<times> store_error option" where
  "store_save encode wr (SJson s) =
     (case js_save encode s of
        None \<Rightarrow> (None, Some MarshalState)
      | Some f \<Rightarrow> if wr then (Some f, None) else (None, Some WriteState))"
| "store_save encode wr (SSqlite s) = (None, None)"
| "store_save encode wr SNoop = (None, None)"
| "store_save encode wr (SDouble p q) = store_save encode wr p"

section \<open>The reversal loop reverses\<close>

lemma swap_loop_length [simp]: "length (swap_loop i j xs) = length xs"
  by (induction i j xs rule: swap_loop.induct) (simp add: swap_loop.simps)

lemma swap_loop_nth:
  "j < length xs \<Longrightarrow> k < length xs \<Longrightarrow>
     swap_loop i j xs ! k = (if i \<le> k \<and> k \<le> j then xs ! (i + j - k) else xs ! k)"
proof (induction i j xs rule: swap_loop.induct)
  case (1 i j xs)
  show ?case
  proof (cases "i < j")
    case True
    let ?ys = "xs[i := xs ! j, j := xs ! i]"
    have "swap_loop (i + 1) (j - 1) ?ys ! k
        = (if i + 1 \<le> k \<and> k \<le> j - 1 then ?ys ! (i + 1 + (j - 1) - k) else ?ys ! k)"
      using "1.IH" [OF True] "1.prems" by simp
    with True "1.prems" show ?thesis
      by (subst swap_loop.simps) (auto simp: nth_list_update)
  next
    case False
    then show ?thesis by (subst swap_loop.simps) (auto intro: arg_cong [of _ _ "nth xs"])
  qed
qed

lemma reverse_in_place_rev [simp]: "reverse_in_place xs = rev xs"
  by (rule nth_equalityI) (auto simp: reverse_in_place_def swap_loop_nth rev_nth)

lemma rev_take_rev: "rev (take n (rev xs)) = last_n n xs"
  by (simp add: last_n_def rev_take)

lemma sq_last_eq: "0 < n \<Longrightarrow> \<not> sq_down s \<Longrightarrow> sq_last n s = last_n (nat n) (sq_snapshots s)"
  by (simp add: sq_last_def rev_take_rev)

lemma sq_last_cycles_eq:
  "0 < n \<Longrightarrow> \<not> sq_down s \<Longrightarrow> sq_last_cycles n s = filter cycle_row_readable (last_n (nat n) (sq_cycles s))"
  by (simp add: sq_last_cycles_def rev_filter rev_take_rev)

section \<open>The contract of a store\<close>

text \<open>
  What the agents and the orchestrator rely on: a decision that is added gets the next number and is the
  one that \<open>LastCycles(1)\<close> returns (up to the snapshot columns a database keeps), reads are bounded, and
  adding a snapshot does not disturb the decisions. \<open>ok\<close> and \<open>okS\<close> are the values the store can hold.
\<close>

locale decision_store =
  fixes add_cycle :: "cycle_record \<Rightarrow> 's \<Rightarrow> 's \<times> 'e option"
    and last_cycles :: "int \<Rightarrow> 's \<Rightarrow> cycle_record list option"
    and current :: "'s \<Rightarrow> int"
    and invar :: "'s \<Rightarrow> bool"
    and ok :: "cycle_record \<Rightarrow> bool"
  assumes invar_add_cycle: "invar s \<Longrightarrow> ok r \<Longrightarrow> cr_CycleNum r = 0 \<Longrightarrow> invar (fst (add_cycle r s))"
    and add_cycle_ok: "invar s \<Longrightarrow> ok r \<Longrightarrow> cr_CycleNum r = 0 \<Longrightarrow> snd (add_cycle r s) = None"
    and current_add_cycle: "invar s \<Longrightarrow> ok r \<Longrightarrow> cr_CycleNum r = 0 \<Longrightarrow> current (fst (add_cycle r s)) = current s + 1"
    and last_add_cycle: "invar s \<Longrightarrow> ok r \<Longrightarrow> cr_CycleNum r = 0 \<Longrightarrow>
      \<exists>v. last_cycles 1 (fst (add_cycle r s)) = Some [v]
        \<and> cycle_view v = cycle_view (r\<lparr>cr_CycleNum := current s + 1\<rparr>)"
    and last_cycles_bound: "invar s \<Longrightarrow> 0 \<le> n \<Longrightarrow> \<exists>rs. last_cycles n s = Some rs \<and> length rs \<le> nat n"
begin

lemma invar_add_cycles:
  "invar s \<Longrightarrow> (\<And>r. r \<in> set rs \<Longrightarrow> ok r \<and> cr_CycleNum r = 0) \<Longrightarrow>
     invar (foldl (\<lambda>s r. fst (add_cycle r s)) s rs)"
  by (rule foldl_inv [where P = invar]) (auto intro: invar_add_cycle)

lemma current_add_cycles:
  "invar s \<Longrightarrow> (\<And>r. r \<in> set rs \<Longrightarrow> ok r \<and> cr_CycleNum r = 0) \<Longrightarrow>
     current (foldl (\<lambda>s r. fst (add_cycle r s)) s rs) = current s + int (length rs)"
proof (induction rs rule: rev_induct)
  case (snoc r rs)
  then have "invar (foldl (\<lambda>s r. fst (add_cycle r s)) s rs)" by (intro invar_add_cycles) auto
  with snoc show ?case by (simp add: current_add_cycle)
qed simp

lemma last_after_add_cycles:
  "invar s \<Longrightarrow> (\<And>r. r \<in> set (rs @ [r']) \<Longrightarrow> ok r \<and> cr_CycleNum r = 0) \<Longrightarrow>
     \<exists>v. last_cycles 1 (foldl (\<lambda>s r. fst (add_cycle r s)) s (rs @ [r'])) = Some [v]
       \<and> cycle_view v = cycle_view (r'\<lparr>cr_CycleNum := current s + int (length rs) + 1\<rparr>)"
proof -
  assume a: "invar s" "\<And>r. r \<in> set (rs @ [r']) \<Longrightarrow> ok r \<and> cr_CycleNum r = 0"
  then have "invar (foldl (\<lambda>s r. fst (add_cycle r s)) s rs)" by (intro invar_add_cycles) auto
  from last_add_cycle [OF this, of r'] a show ?thesis by (simp add: current_add_cycles)
qed

end

locale snapshot_store = decision_store add_cycle last_cycles current invar ok
  for add_cycle :: "cycle_record \<Rightarrow> 's \<Rightarrow> 's \<times> 'e option"
    and last_cycles and current and invar and ok +
  fixes add :: "snapshot \<Rightarrow> 's \<Rightarrow> 's \<times> 'e option"
    and last_snaps :: "int \<Rightarrow> 's \<Rightarrow> snapshot list option"
    and okS :: "snapshot \<Rightarrow> bool"
  assumes invar_add: "invar s \<Longrightarrow> okS x \<Longrightarrow> invar (fst (add x s))"
    and add_ok: "invar s \<Longrightarrow> okS x \<Longrightarrow> snd (add x s) = None"
    and add_keeps_cycles: "invar s \<Longrightarrow> okS x \<Longrightarrow> last_cycles n (fst (add x s)) = last_cycles n s"
    and add_keeps_current: "invar s \<Longrightarrow> okS x \<Longrightarrow> current (fst (add x s)) = current s"
    and last_add: "invar s \<Longrightarrow> okS x \<Longrightarrow> last_snaps 1 (fst (add x s)) = Some [x]"
begin

text \<open>The writes of one cycle of the system agent: the decision, then the snapshot.\<close>

lemma cycle_then_snapshot:
  "invar s \<Longrightarrow> ok r \<Longrightarrow> cr_CycleNum r = 0 \<Longrightarrow> okS x \<Longrightarrow> s' = fst (add x (fst (add_cycle r s))) \<Longrightarrow>
     invar s' \<and> current s' = current s + 1 \<and> last_snaps 1 s' = Some [x]
     \<and> (\<exists>v. last_cycles 1 s' = Some [v] \<and> cycle_view v = cycle_view (r\<lparr>cr_CycleNum := current s + 1\<rparr>))"
  using invar_add_cycle [of s r] last_add_cycle [of s r]
  by (simp add: invar_add last_add add_keeps_cycles add_keeps_current current_add_cycle)

end

section \<open>The stores satisfy it\<close>

lemma cycle_view_simps [simp]:
  "cr_CycleNum (cycle_view r) = cr_CycleNum r" "cr_Command (cycle_view r) = cr_Command r"
  "cr_Action (cycle_view r) = cr_Action r" "cr_TriggerCPU (cycle_view r) = cr_TriggerCPU r"
  "cr_TriggerRAM (cycle_view r) = cr_TriggerRAM r" "cr_TriggerDisk (cycle_view r) = cr_TriggerDisk r"
  "cr_Confidence (cycle_view r) = cr_Confidence r" "cr_Timestamp (cycle_view r) = cr_Timestamp r"
  "cr_Analysis (cycle_view r) = cr_Analysis r" "cr_Reason (cycle_view r) = cr_Reason r"
  by (simp_all add: cycle_view_def)

lemma cycle_view_idem [simp]: "cycle_view (cycle_view r) = cycle_view r"
  by (simp add: cycle_view_def)

definition cycle_ok :: "cycle_record \<Rightarrow> bool" where
  "cycle_ok r \<longleftrightarrow> cycle_row_ok r \<and> cycle_row_readable r"

lemma cycle_ok_num [simp]: "cycle_ok (r\<lparr>cr_CycleNum := n\<rparr>) = cycle_ok r"
  by (simp add: cycle_ok_def cycle_row_ok_def cycle_row_readable_def)

lemma cycle_row_ok_num [simp]: "cycle_row_ok (r\<lparr>cr_CycleNum := n\<rparr>) = cycle_row_ok r"
  by (simp add: cycle_row_ok_def)

lemma cycle_row_readable_num [simp]: "cycle_row_readable (r\<lparr>cr_CycleNum := n\<rparr>) = cycle_row_readable r"
  by (simp add: cycle_row_readable_def)

lemma cycle_row_readable_view [simp]: "cycle_row_readable (cycle_view r) = cycle_row_readable r"
  by (simp add: cycle_row_readable_def)

definition js_add_cycle_op :: "cycle_record \<Rightarrow> json_state \<Rightarrow> json_state \<times> store_error option" where
  "js_add_cycle_op r s = (js_add_cycle r s, None)"

definition js_add_op :: "snapshot \<Rightarrow> json_state \<Rightarrow> json_state \<times> store_error option" where
  "js_add_op x s = (js_add x s, None)"

lemma js_last_cycle [simp]:
  "js_Cycles (js_add_cycle r s) \<noteq> []"
  "last (js_Cycles (js_add_cycle r s)) = r\<lparr>cr_CycleNum := js_CycleNum s + 1\<rparr>"
  by (simp_all add: js_add_cycle_cycles max_history_def last_n_snoc_pos)

lemma js_last_snapshot [simp]: "js_History (js_add x s) \<noteq> []" "last (js_History (js_add x s)) = x"
  by (simp_all add: js_add_history max_history_def last_n_snoc_pos)

lemma js_last_1:
  "js_last 1 (js_add x s) = Some [x]"
  "js_last_cycles 1 (js_add_cycle r s) = Some [r\<lparr>cr_CycleNum := js_CycleNum s + 1\<rparr>]"
  by (simp_all add: js_last_def js_last_cycles_def go_last_eq)

interpretation js: snapshot_store js_add_cycle_op js_last_cycles js_current_cycle "\<lambda>_. True" "\<lambda>_. True"
    js_add_op js_last "\<lambda>_. True"
  by unfold_locales
    (auto simp: js_add_cycle_op_def js_add_op_def js_last_1 js_current_cycle_def js_last_cycles_def go_last_eq)

definition sq_inv :: "sqlite_store \<Rightarrow> bool" where
  "sq_inv s \<longleftrightarrow> \<not> sq_down s \<and> 0 \<le> sq_cycleNum s"

definition sq_last_cycles_op :: "int \<Rightarrow> sqlite_store \<Rightarrow> cycle_record list option" where
  "sq_last_cycles_op n s = Some (sq_last_cycles n s)"

definition sq_last_op :: "int \<Rightarrow> sqlite_store \<Rightarrow> snapshot list option" where
  "sq_last_op n s = Some (sq_last n s)"

lemma sq_last_cycles_length: "length (sq_last_cycles n s) \<le> nat n"
  by (auto simp: sq_last_cycles_def intro: order_trans [OF length_filter_le])

interpretation sq: snapshot_store sq_add_cycle sq_last_cycles_op sq_current_cycle sq_inv cycle_ok
    sq_add sq_last_op snapshot_row_ok
proof unfold_locales
  fix s r
  assume "sq_inv s" "cycle_ok r" "cr_CycleNum r = 0"
  then show "\<exists>v. sq_last_cycles_op 1 (fst (sq_add_cycle r s)) = Some [v]
      \<and> cycle_view v = cycle_view (r\<lparr>cr_CycleNum := sq_current_cycle s + 1\<rparr>)"
    by (simp add: sq_last_cycles_op_def sq_last_cycles_eq sq_add_cycle_def sq_inv_def cycle_ok_def
        sq_current_cycle_def Let_def)
next
  fix s and n :: int
  show "\<exists>rs. sq_last_cycles_op n s = Some rs \<and> length rs \<le> nat n"
    by (simp add: sq_last_cycles_op_def sq_last_cycles_length)
qed (auto simp: sq_inv_def cycle_ok_def sq_add_cycle_def sq_add_def sq_current_cycle_def
    sq_last_cycles_op_def sq_last_op_def sq_last_eq sq_last_cycles_def Let_def)

text \<open>
  The stores \<open>NewRuntime\<close> builds: the JSON state alone, or doubled by a working database or by the no-op
  store that replaces one that could not be opened.
\<close>

fun wf_store :: "store \<Rightarrow> bool" where
  "wf_store (SJson s) = (0 \<le> js_CycleNum s)"
| "wf_store (SDouble (SJson s) SNoop) = (0 \<le> js_CycleNum s)"
| "wf_store (SDouble (SJson s) (SSqlite d)) = (0 \<le> js_CycleNum s \<and> sq_inv d)"
| "wf_store _ = False"

lemma sq_last_cycles_numbered:
  "sq_add_cycle r d = (d', e) \<Longrightarrow> sq_inv d \<Longrightarrow> cycle_ok r \<Longrightarrow> 0 < cr_CycleNum r \<Longrightarrow>
     sq_last_cycles 1 d' = [cycle_view r]"
  by (auto simp: sq_inv_def cycle_ok_def sq_add_cycle_def sq_last_cycles_eq split: if_splits)

lemma go_last_length: "0 \<le> n \<Longrightarrow> \<exists>rs. go_last n xs = Some rs \<and> length rs \<le> nat n"
  by (simp add: go_last_eq)

interpretation st: snapshot_store store_add_cycle store_last_cycles store_current_cycle wf_store cycle_ok
    store_add store_last snapshot_row_ok
proof unfold_locales
  fix s :: store and r
  assume a: "wf_store s" "cycle_ok r" "cr_CycleNum r = 0"
  then show "wf_store (fst (store_add_cycle r s))"
    by (cases s rule: wf_store.cases)
      (auto simp: sq_inv_def sq_add_cycle_def Let_def js_current_cycle_def split: prod.splits if_splits)
  from a show "snd (store_add_cycle r s) = None"
    by (cases s rule: wf_store.cases) (auto split: prod.splits)
  from a show "store_current_cycle (fst (store_add_cycle r s)) = store_current_cycle s + 1"
    by (cases s rule: wf_store.cases) (auto simp: js_current_cycle_def split: prod.splits)
  from a show "\<exists>v. store_last_cycles 1 (fst (store_add_cycle r s)) = Some [v]
      \<and> cycle_view v = cycle_view (r\<lparr>cr_CycleNum := store_current_cycle s + 1\<rparr>)"
    by (cases s rule: wf_store.cases)
      (auto simp: js_last_1 js_current_cycle_def js_last_1(2) [simplified] split: prod.splits
        dest: sq_last_cycles_numbered)
next
  fix s :: store and n :: int
  assume "wf_store s" "0 \<le> n"
  then show "\<exists>rs. store_last_cycles n s = Some rs \<and> length rs \<le> nat n"
    using sq_last_cycles_length
    by (cases s rule: wf_store.cases) (auto simp: js_last_cycles_def go_last_length)
next
  fix s :: store and x and n :: int
  assume a: "wf_store s" "snapshot_row_ok x"
  then show "wf_store (fst (store_add x s))"
    by (cases s rule: wf_store.cases) (auto simp: sq_add_def sq_inv_def)
  from a show "snd (store_add x s) = None"
    by (cases s rule: wf_store.cases) (auto split: prod.splits)
  from a show "store_last_cycles n (fst (store_add x s)) = store_last_cycles n s"
    by (cases s rule: wf_store.cases)
      (auto simp: js_last_cycles_def sq_add_def sq_last_cycles_def sq_inv_def)
  from a show "store_current_cycle (fst (store_add x s)) = store_current_cycle s"
    by (cases s rule: wf_store.cases) (auto simp: js_current_cycle_def split: prod.splits)
  from a show "store_last 1 (fst (store_add x s)) = Some [x]"
    by (cases s rule: wf_store.cases)
      (auto simp: js_last_1 [simplified] sq_add_def sq_inv_def sq_last_eq)
qed

section \<open>Properties\<close>

text \<open>A history of writes to the JSON store, and the unbounded log it stands for.\<close>

datatype js_write = WSnapshot snapshot | WCycle cycle_record

fun js_apply :: "json_state \<Rightarrow> js_write \<Rightarrow> json_state" where
  "js_apply s (WSnapshot x) = js_add x s"
| "js_apply s (WCycle r) = js_add_cycle r s"

definition js_writes :: "json_state \<Rightarrow> js_write list \<Rightarrow> json_state" where
  "js_writes s ws = foldl js_apply s ws"

definition log_snapshots :: "js_write list \<Rightarrow> snapshot list" where
  "log_snapshots ws = List.map_filter (\<lambda>w. case w of WSnapshot x \<Rightarrow> Some x | _ \<Rightarrow> None) ws"

definition log_cycles :: "js_write list \<Rightarrow> cycle_record list" where
  "log_cycles ws = List.map_filter (\<lambda>w. case w of WCycle r \<Rightarrow> Some r | _ \<Rightarrow> None) ws"

definition number_from :: "int \<Rightarrow> cycle_record list \<Rightarrow> cycle_record list" where
  "number_from n rs = map (\<lambda>(i, r). r\<lparr>cr_CycleNum := n + 1 + int i\<rparr>) (enumerate 0 rs)"

lemma log_snoc [simp]:
  "log_snapshots (ws @ [w]) = log_snapshots ws @ (case w of WSnapshot x \<Rightarrow> [x] | WCycle r \<Rightarrow> [])"
  "log_cycles (ws @ [w]) = log_cycles ws @ (case w of WSnapshot x \<Rightarrow> [] | WCycle r \<Rightarrow> [r])"
  by (cases w; simp add: log_snapshots_def log_cycles_def map_filter_def)+

lemma number_from_snoc:
  "number_from n (rs @ [r]) = number_from n rs @ [r\<lparr>cr_CycleNum := n + 1 + int (length rs)\<rparr>]"
  by (simp add: number_from_def enumerate_append_eq)

lemma length_number_from [simp]: "length (number_from n rs) = length rs"
  by (simp add: number_from_def)

text \<open>C19: the JSON store is the tail of an unbounded log. After any sequence of writes its histories are the
  last 20 entries of what was there followed by everything written, the decisions numbered one by one,
  and the counter has advanced by the number of decisions.\<close>
theorem json_store_is_log_tail:
  assumes "length (js_History s) \<le> max_history" "length (js_Cycles s) \<le> max_history"
  shows "js_History (js_writes s ws) = last_n max_history (js_History s @ log_snapshots ws)
     \<and> js_Cycles (js_writes s ws)
         = last_n max_history (js_Cycles s @ number_from (js_CycleNum s) (log_cycles ws))
     \<and> js_CycleNum (js_writes s ws) = js_CycleNum s + int (length (log_cycles ws))"
proof (induction ws rule: rev_induct)
  case Nil
  then show ?case
    using assms by (simp add: js_writes_def log_snapshots_def log_cycles_def number_from_def last_n_all map_filter_def)
next
  case (snoc w ws)
  have step: "js_writes s (ws @ [v]) = js_apply (js_writes s ws) v" for v by (simp add: js_writes_def)
  show ?case
  proof (cases w)
    case (WSnapshot x)
    with snoc show ?thesis
      using last_n_append_keep [of max_history "js_History s @ log_snapshots ws" "[x]"]
      by (simp add: step js_add_history)
  next
    case (WCycle r)
    with snoc show ?thesis
      using last_n_append_keep [of max_history "js_Cycles s @ number_from (js_CycleNum s) (log_cycles ws)"
          "[r\<lparr>cr_CycleNum := js_CycleNum s + 1 + int (length (log_cycles ws))\<rparr>]"]
      by (simp add: step js_add_cycle_cycles number_from_snoc algebra_simps)
  qed
qed

definition sample_cycle :: "string \<Rightarrow> cycle_record" where
  "sample_cycle cmd = new_cycle_record zero_snapshot ''execute'' ''a'' ''r'' cmd"

lemma sample_cycle_ok [simp]: "cycle_ok (sample_cycle cmd)" "cr_CycleNum (sample_cycle cmd) = 0"
  by (simp_all add: sample_cycle_def new_cycle_record_def cycle_ok_def cycle_row_ok_def
      cycle_row_readable_def zero_snapshot_def u64_ok_def)

theorem json_store_is_log_tail_witness:
  "js_CycleNum (js_writes (empty_state ''s'') [WCycle (sample_cycle ''uptime''), WSnapshot zero_snapshot]) = 1"
  using json_store_is_log_tail [of "empty_state ''s''" "[WCycle (sample_cycle ''uptime''), WSnapshot zero_snapshot]"]
  by (simp add: empty_state_def log_cycles_def map_filter_def)

text \<open>with any of the stores \<open>NewRuntime\<close> builds, after a run of decisions \<open>LastCycles(1)\<close> is exactly the
  most recent one, numbered by the number of decisions so far; all the writes succeed and the store stays
  well formed.\<close>
theorem latest_decision_is_read_back:
  assumes "wf_store s" and "\<And>r. r \<in> set (rs @ [r']) \<Longrightarrow> cycle_ok r \<and> cr_CycleNum r = 0"
    and "s' = foldl (\<lambda>s r. fst (store_add_cycle r s)) s (rs @ [r'])"
  shows "wf_store s'
     \<and> store_current_cycle s' = store_current_cycle s + int (length rs) + 1
     \<and> (\<exists>v. store_last_cycles 1 s' = Some [v]
          \<and> cycle_view v = cycle_view (r'\<lparr>cr_CycleNum := store_current_cycle s'\<rparr>))"
proof -
  have "store_current_cycle s' = store_current_cycle s + int (length (rs @ [r']))"
    unfolding assms(3) using assms(1,2) by (rule st.current_add_cycles)
  then have cur: "store_current_cycle s' = store_current_cycle s + int (length rs) + 1" by simp
  have "wf_store s'" unfolding assms(3) using assms(1,2) by (rule st.invar_add_cycles)
  moreover have "\<exists>v. store_last_cycles 1 s' = Some [v]
      \<and> cycle_view v = cycle_view (r'\<lparr>cr_CycleNum := store_current_cycle s + int (length rs) + 1\<rparr>)"
    unfolding assms(3) using assms(1,2) by (rule st.last_after_add_cycles)
  ultimately show ?thesis using cur by simp
qed

definition sample_store :: store where
  "sample_store = SDouble (SJson (empty_state ''state.json'')) (SSqlite (open_sqlite_store [] []))"

lemma wf_sample_store [simp]: "wf_store sample_store"
  by (simp add: sample_store_def empty_state_def sq_inv_def open_sqlite_store_def max_cycle_def)

theorem latest_decision_is_read_back_witness:
  "store_current_cycle (foldl (\<lambda>s r. fst (store_add_cycle r s)) sample_store
      ([sample_cycle ''df -h''] @ [sample_cycle ''uptime''])) = 2"
proof -
  let ?s = "foldl (\<lambda>s r. fst (store_add_cycle r s)) sample_store ([sample_cycle ''df -h''] @ [sample_cycle ''uptime''])"
  have "store_current_cycle ?s = store_current_cycle sample_store + int (length [sample_cycle ''df -h'']) + 1"
    by (rule latest_decision_is_read_back [OF wf_sample_store _ refl, THEN conjunct2, THEN conjunct1]) auto
  moreover have "store_current_cycle sample_store = 0"
    by (simp add: sample_store_def empty_state_def js_current_cycle_def)
  ultimately show ?thesis by (simp only:) simp
qed

text \<open>the double store answers reads from its secondary as soon as that has any row, and a decision the
  secondary refuses is reported as stored but never read: \<open>LastCycles\<close> keeps returning what the secondary
  had before.\<close>
theorem refused_by_secondary_is_masked:
  assumes "\<not> sq_down d" "sq_last_cycles n d \<noteq> []" "\<not> cycle_row_ok r"
  shows "snd (store_add_cycle r (SDouble (SJson s) (SSqlite d))) = None
     \<and> store_last_cycles n (fst (store_add_cycle r (SDouble (SJson s) (SSqlite d))))
         = store_last_cycles n (SDouble (SJson s) (SSqlite d))
     \<and> store_current_cycle (fst (store_add_cycle r (SDouble (SJson s) (SSqlite d)))) = js_CycleNum s + 1"
proof -
  let ?r = "r\<lparr>cr_CycleNum := js_CycleNum s + 1\<rparr>"
  have "sq_cycles (fst (sq_add_cycle ?r d)) = sq_cycles d" "sq_down (fst (sq_add_cycle ?r d)) = sq_down d"
    using assms(3) by (auto simp: sq_add_cycle_def Let_def)
  then have same: "sq_last_cycles n (fst (sq_add_cycle ?r d)) = sq_last_cycles n d"
    by (simp add: sq_last_cycles_def)
  then show ?thesis using assms(2)
    by (auto simp: js_current_cycle_def split: prod.splits)
qed

definition nan_cycle :: cycle_record where
  "nan_cycle = (sample_cycle ''uptime'')\<lparr>cr_Snapshot := zero_snapshot\<lparr>sn_CPUPercent := NaN\<rparr>\<rparr>"

theorem refused_by_secondary_is_masked_witness:
  "snd (store_add_cycle nan_cycle
      (SDouble (SJson (empty_state ''s'')) (SSqlite (open_sqlite_store [] [sample_cycle ''df -h''])))) = None"
  by (rule refused_by_secondary_is_masked [where n = 1, THEN conjunct1])
    (simp_all add: open_sqlite_store_def sq_last_cycles_eq nan_cycle_def cycle_row_ok_def
      sample_cycle_ok(1) [unfolded cycle_ok_def, THEN conjunct2])


definition kept_state :: json_state where
  "kept_state = (js_add_cycle (sample_cycle ''df -h'') (js_add zero_snapshot (empty_state ''state.json'')))\<lparr>js_Version := 1\<rparr>"


text \<open>the swap loop that puts rows read newest-first back in order is list reversal.\<close>
theorem reversal_loop_correct: "reverse_in_place xs = rev xs"
  by (rule reverse_in_place_rev)

end
