(* ===== verification/JX_Logger.thy ===== *)
theory JX_Logger
  imports JX_Memory JX_Codec
begin

text \<open>
  The metrics log of \<open>runtime/memory/logger.go\<close>: one JSON line per snapshot, appended to a file that is
  rotated by size to numbered backups. The file system is a map from paths to contents; a system call
  can fail, which the record \<open>fs_env\<close> says for each call. \<open>encode\<close> is \<open>json.Encoder.Encode\<close> with its
  final newline, \<open>None\<close> for a value JSON cannot represent; the runtime uses \<open>encode_entry\<close> of \<open>JX_Codec\<close>.
  An entry has the fields of a snapshot, from which the source converts it.
\<close>

section \<open>The file system\<close>

type_synonym filesystem = "string \<Rightarrow> string option"

record fs_env =
  fe_stat :: "string \<Rightarrow> bool"
  fe_remove :: "string \<Rightarrow> bool"
  fe_rename :: "string \<Rightarrow> string \<Rightarrow> bool"
  fe_open :: "string \<Rightarrow> bool"
  fe_short :: "nat option"

definition fs_remove :: "fs_env \<Rightarrow> string \<Rightarrow> filesystem \<Rightarrow> filesystem" where
  "fs_remove env p fs = (if fe_remove env p then fs else fs(p := None))"

definition fs_rename :: "fs_env \<Rightarrow> string \<Rightarrow> string \<Rightarrow> filesystem \<Rightarrow> filesystem \<times> bool" where
  "fs_rename env src dst fs =
     (case fs src of
        None \<Rightarrow> (fs, False)
      | Some c \<Rightarrow> if fe_rename env src dst then (fs, False) else (fs(src := None, dst \<mapsto> c), True))"

definition working_fs :: fs_env where
  "working_fs = \<lparr>fe_stat = \<lambda>_. False, fe_remove = \<lambda>_. False, fe_rename = \<lambda>_ _. False,
     fe_open = \<lambda>_. False, fe_short = None\<rparr>"

section \<open>The logger\<close>

record logger =
  lg_filepath :: string
  lg_maxBytes :: int
  lg_maxBackups :: int

definition new_logger_with_rotation :: "string \<Rightarrow> int \<Rightarrow> int \<Rightarrow> logger" where
  "new_logger_with_rotation p b n = \<lparr>lg_filepath = p, lg_maxBytes = b, lg_maxBackups = n\<rparr>"

definition new_logger :: "string \<Rightarrow> logger" where
  "new_logger p = new_logger_with_rotation p (10 * 1024 * 1024) 3"

type_synonym log_entry = snapshot

datatype log_error = RotateStat | ArchiveFailed | OpenLogFailed | EncodeFailed

definition backup :: "string \<Rightarrow> int \<Rightarrow> string" where
  "backup p i = p @ ''.'' @ show_int i"

text \<open>The loop that shifts the backups, from \<open>i\<close> down to 1; a rename that fails is ignored.\<close>

fun shift_backups :: "fs_env \<Rightarrow> string \<Rightarrow> nat \<Rightarrow> filesystem \<Rightarrow> filesystem" where
  "shift_backups env p 0 fs = fs"
| "shift_backups env p (Suc i) fs =
     shift_backups env p i (fst (fs_rename env (backup p (int (Suc i))) (backup p (int (Suc i) + 1)) fs))"

definition rotate_log :: "fs_env \<Rightarrow> logger \<Rightarrow> filesystem \<Rightarrow> filesystem \<times> log_error option" where
  "rotate_log env l fs0 =
     (let p = lg_filepath l;
          fs1 = fs_remove env (backup p (lg_maxBackups l)) fs0;
          fs2 = shift_backups env p (nat (lg_maxBackups l - 1)) fs1
      in case fs_rename env p (backup p 1) fs2 of
           (fs3, ok) \<Rightarrow> (fs3, if ok then None else Some ArchiveFailed))"

definition rotate_if_needed :: "fs_env \<Rightarrow> logger \<Rightarrow> filesystem \<Rightarrow> filesystem \<times> log_error option" where
  "rotate_if_needed env l fs =
     (case fs (lg_filepath l) of
        None \<Rightarrow> (fs, None)
      | Some c \<Rightarrow>
          if fe_stat env (lg_filepath l) then (fs, Some RotateStat)
          else if int (length c) < lg_maxBytes l then (fs, None)
          else rotate_log env l fs)"

definition file_of :: "filesystem \<Rightarrow> string \<Rightarrow> string" where
  "file_of fs p = (case fs p of None \<Rightarrow> [] | Some c \<Rightarrow> c)"

definition log_write ::
  "(log_entry \<Rightarrow> string option) \<Rightarrow> fs_env \<Rightarrow> logger \<Rightarrow> log_entry \<Rightarrow> filesystem \<Rightarrow> filesystem \<times> log_error option" where
  "log_write encode env l entry fs0 =
     (case (if 0 < lg_maxBytes l then rotate_if_needed env l fs0 else (fs0, None)) of
        (fs, Some e) \<Rightarrow> (fs, Some e)
      | (fs, None) \<Rightarrow>
          let p = lg_filepath l in
          if fe_open env p then (fs, Some OpenLogFailed)
          else (case encode entry of
             None \<Rightarrow> (fs(p \<mapsto> file_of fs p), Some EncodeFailed)
           | Some line \<Rightarrow>
               (case fe_short env of
                  Some n \<Rightarrow> (fs(p \<mapsto> file_of fs p @ take n line), Some EncodeFailed)
                | None \<Rightarrow> (fs(p \<mapsto> file_of fs p @ line), None))))"

definition log_size :: "fs_env \<Rightarrow> logger \<Rightarrow> filesystem \<Rightarrow> int" where
  "log_size env l fs =
     (if fe_stat env (lg_filepath l) then 0 else int (length (file_of fs (lg_filepath l))))"

record log_status =
  ls_Filepath :: string
  ls_SizeBytes :: int
  ls_SizeMB :: f64
  ls_MaxBytes :: int
  ls_MaxMB :: f64
  ls_UsedPercent :: f64
  ls_Backups :: "string list"
  ls_BackupCount :: int

definition to_mb :: "int \<Rightarrow> f64" where
  "to_mb n = f_div (f_div (f_of_int n) (Fin 1024)) (Fin 1024)"

definition existing_backups :: "fs_env \<Rightarrow> logger \<Rightarrow> filesystem \<Rightarrow> string list" where
  "existing_backups env l fs =
     filter (\<lambda>b. fs b \<noteq> None \<and> \<not> fe_stat env b)
       (map (\<lambda>i. backup (lg_filepath l) (int i)) [1..<Suc (nat (lg_maxBackups l))])"

definition log_status_of :: "fs_env \<Rightarrow> logger \<Rightarrow> filesystem \<Rightarrow> log_status" where
  "log_status_of env l fs =
     (let size = log_size env l fs; baks = existing_backups env l fs in
      \<lparr>ls_Filepath = lg_filepath l, ls_SizeBytes = size, ls_SizeMB = to_mb size,
       ls_MaxBytes = lg_maxBytes l, ls_MaxMB = to_mb (lg_maxBytes l),
       ls_UsedPercent =
         (if 0 < lg_maxBytes l \<and> 0 < size
          then f_mul (f_div (f_of_int size) (f_of_int (lg_maxBytes l))) (Fin 100) else Fin 0),
       ls_Backups = baks, ls_BackupCount = int (length baks)\<rparr>)"

section \<open>Names of backups\<close>

lemma show_nat_inj: "show_nat a = show_nat b \<longleftrightarrow> a = b"
  by (metis digits_val_show_nat of_nat_eq_iff)

lemma backup_inj: "0 \<le> i \<Longrightarrow> 0 \<le> j \<Longrightarrow> backup p i = backup p j \<longleftrightarrow> i = j"
  by (auto simp: backup_def show_int_def show_nat_inj)

lemma backup_neq [simp]: "backup p i \<noteq> p" "p \<noteq> backup p i"
  by (simp_all add: backup_def)

section \<open>What rotation does\<close>

lemma working_remove [simp]: "fs_remove working_fs p fs = fs(p := None)"
  by (simp add: fs_remove_def working_fs_def)

lemma working_rename:
  "fs_rename working_fs src dst fs =
     (case fs src of None \<Rightarrow> (fs, False) | Some c \<Rightarrow> (fs(src := None, dst \<mapsto> c), True))"
  by (simp add: fs_rename_def working_fs_def split: option.splits)

text \<open>Shifting moves every backup one place up, provided the place above the last one is free.\<close>

lemma rename_up:
  "fs dst = None \<Longrightarrow> src \<noteq> dst \<Longrightarrow> fst (fs_rename working_fs src dst fs) = fs(dst := fs src, src := None)"
  by (auto simp: working_rename fun_upd_twist split: option.splits)

definition is_backup :: "string \<Rightarrow> nat \<Rightarrow> string \<Rightarrow> bool" where
  "is_backup p n q \<longleftrightarrow> (\<exists>i\<in>{1..n}. q = backup p (int i))"

lemma is_backup_Suc: "is_backup p (Suc n) q \<longleftrightarrow> is_backup p n q \<or> q = backup p (int n + 1)"
  by (auto simp: is_backup_def atLeastAtMostSuc_conv add.commute)

lemma shift_backups_spec:
  "fs (backup p (int n + 1)) = None \<Longrightarrow>
     (\<forall>i\<in>{1..n}. shift_backups working_fs p n fs (backup p (int i + 1)) = fs (backup p (int i)))
     \<and> shift_backups working_fs p n fs (backup p 1) = None
     \<and> (\<forall>q. \<not> is_backup p (Suc n) q \<longrightarrow> shift_backups working_fs p n fs q = fs q)"
proof (induction n arbitrary: fs)
  case 0
  then show ?case by simp
next
  case (Suc n)
  let ?fs = "fs(backup p (int n + 2) := fs (backup p (int n + 1)), backup p (int n + 1) := None)"
  have "fst (fs_rename working_fs (backup p (int (Suc n))) (backup p (int (Suc n) + 1)) fs) = ?fs"
    using Suc.prems rename_up [of fs "backup p (int n + 2)" "backup p (int n + 1)"]
    by (simp add: backup_inj add.commute)
  then have step: "shift_backups working_fs p (Suc n) fs = shift_backups working_fs p n ?fs"
    by simp
  have ih: "(\<forall>i\<in>{1..n}. shift_backups working_fs p n ?fs (backup p (int i + 1)) = ?fs (backup p (int i)))
     \<and> shift_backups working_fs p n ?fs (backup p 1) = None
     \<and> (\<forall>q. \<not> is_backup p (Suc n) q \<longrightarrow> shift_backups working_fs p n ?fs q = ?fs q)"
    by (rule Suc.IH) simp
  have "\<not> is_backup p (Suc n) (backup p (int n + 2))"
    by (auto simp: is_backup_def backup_inj)
  with ih have top: "shift_backups working_fs p n ?fs (backup p (int n + 2)) = fs (backup p (int n + 1))"
    by (simp add: backup_inj)
  show ?case
    unfolding step
  proof (intro conjI ballI allI impI)
    fix i assume i: "i \<in> {1..Suc n}"
    show "shift_backups working_fs p n ?fs (backup p (int i + 1)) = fs (backup p (int i))"
    proof (cases "i = Suc n")
      case True
      with top show ?thesis by (simp add: add.commute)
    next
      case False
      with i have "i \<in> {1..n}" by simp
      with ih show ?thesis by (simp add: backup_inj)
    qed
  next
    fix q assume "\<not> is_backup p (Suc (Suc n)) q"
    then have "\<not> is_backup p (Suc n) q" "q \<noteq> backup p (int n + 2)" "q \<noteq> backup p (int n + 1)"
      by (auto simp: is_backup_Suc [of p "Suc n"] is_backup_Suc [of p n] add.commute)
    with ih show "shift_backups working_fs p n ?fs q = fs q" by simp
  qed (use ih in simp)
qed

lemma rotate_log_spec:
  assumes "fs (lg_filepath l) = Some c" and "1 \<le> lg_maxBackups l"
  shows "\<exists>fs'. rotate_log working_fs l fs = (fs', None)
     \<and> fs' (lg_filepath l) = None \<and> fs' (backup (lg_filepath l) 1) = Some c
     \<and> (\<forall>i\<in>{1..<nat (lg_maxBackups l)}. fs' (backup (lg_filepath l) (int i + 1)) = fs (backup (lg_filepath l) (int i)))
     \<and> (\<forall>q. q \<noteq> lg_filepath l \<longrightarrow> \<not> is_backup (lg_filepath l) (nat (lg_maxBackups l)) q \<longrightarrow> fs' q = fs q)"
proof -
  let ?p = "lg_filepath l" and ?n = "nat (lg_maxBackups l - 1)"
  let ?fs1 = "fs(backup ?p (lg_maxBackups l) := None)"
  let ?fs2 = "shift_backups working_fs ?p ?n ?fs1"
  have n: "int ?n + 1 = lg_maxBackups l" "Suc ?n = nat (lg_maxBackups l)" using assms(2) by simp_all
  have free: "?fs1 (backup ?p (int ?n + 1)) = None" unfolding n by simp
  note spec = shift_backups_spec [of ?fs1 ?p ?n, OF free]
  have "\<not> is_backup ?p (Suc ?n) ?p" by (simp add: is_backup_def)
  with spec assms(1) have "?fs2 ?p = Some c" by simp
  then have r: "rotate_log working_fs l fs = (?fs2(?p := None, backup ?p 1 \<mapsto> c), None)"
    by (simp add: rotate_log_def working_rename Let_def)
  have "?fs2 (backup ?p (int i + 1)) = fs (backup ?p (int i))" if "i \<in> {1..<nat (lg_maxBackups l)}" for i
  proof -
    from that have "i \<in> {1..?n}" "int i \<noteq> lg_maxBackups l" by auto
    with spec show ?thesis using assms(2) by (simp add: backup_inj)
  qed
  moreover have "?fs2 q = fs q" if "\<not> is_backup ?p (nat (lg_maxBackups l)) q" for q
  proof -
    from that assms(2) have "q \<noteq> backup ?p (lg_maxBackups l)"
      by (auto simp: is_backup_def dest: bspec [where x = "nat (lg_maxBackups l)"])
    with that spec show ?thesis unfolding n by simp
  qed
  moreover have "is_backup ?p (nat (lg_maxBackups l)) (backup ?p 1)"
    using assms(2) by (auto simp: is_backup_def intro!: bexI [where x = 1])
  ultimately show ?thesis
    unfolding r
    by (intro exI [where x = "?fs2(?p := None, backup ?p 1 \<mapsto> c)"] conjI refl) (auto simp: backup_inj)
qed

lemma rotate_log_facts:
  assumes "fs (lg_filepath l) = Some c" "1 \<le> lg_maxBackups l" "rotate_log working_fs l fs = (fs', e)"
  shows "e = None" "fs' (lg_filepath l) = None" "file_of fs' (backup (lg_filepath l) 1) = file_of fs (lg_filepath l)"
    "i \<in> {1..<nat (lg_maxBackups l)} \<Longrightarrow>
       file_of fs' (backup (lg_filepath l) (int i + 1)) = file_of fs (backup (lg_filepath l) (int i))"
  using rotate_log_spec [of fs l c, OF assms(1,2)] unfolding assms(3) by (simp_all add: file_of_def assms(1))

section \<open>The log as one text\<close>

text \<open>What a reader of all the files finds, the oldest backup first.\<close>

definition visible_log :: "logger \<Rightarrow> filesystem \<Rightarrow> string" where
  "visible_log l fs =
     concat (map (\<lambda>i. file_of fs (backup (lg_filepath l) (int i))) (rev [1..<Suc (nat (lg_maxBackups l))]))
     @ file_of fs (lg_filepath l)"

lemma upt_shift: "[1..<Suc (Suc m)] = 1 # map Suc [1..<Suc m]"
  by (simp only: map_Suc_upt) (simp add: upt_rec)

lemma visible_rotate:
  assumes c: "fs (lg_filepath l) = Some c" and "1 \<le> lg_maxBackups l"
    and r: "rotate_log working_fs l fs = (fs', e)"
  shows "e = None \<and> fs' (lg_filepath l) = None
    \<and> visible_log l fs = file_of fs (backup (lg_filepath l) (lg_maxBackups l)) @ visible_log l fs'"
proof -
  obtain m where m: "nat (lg_maxBackups l) = Suc m" "lg_maxBackups l = int m + 1"
    using assms(2) by (intro that [of "nat (lg_maxBackups l) - 1"]) auto
  let ?f = "\<lambda>i. file_of fs (backup (lg_filepath l) (int i))"
  let ?f' = "\<lambda>i. file_of fs' (backup (lg_filepath l) (int i))"
  note facts = rotate_log_facts [OF assms(1,2) r]
  have e: "e = None" "fs' (lg_filepath l) = None" "?f' 1 = c" using facts(1-3) c by (simp_all add: file_of_def)
  have "?f' (Suc i) = ?f i" if "i \<in> set [1..<Suc m]" for i
    using facts(4) [of i] that m by (auto simp: add.commute)
  then have "map (?f' \<circ> Suc) (rev [1..<Suc m]) = map ?f (rev [1..<Suc m])" by simp
  moreover have "map ?f' (rev (1 # map Suc [1..<Suc m])) = map (?f' \<circ> Suc) (rev [1..<Suc m]) @ [?f' 1]"
    by (simp add: rev_map del: upt_Suc)
  ultimately have "map ?f' (rev [1..<Suc (Suc m)]) = map ?f (rev [1..<Suc m]) @ [c]"
    unfolding upt_shift e(3) by simp
  then have v': "visible_log l fs' = concat (map ?f (rev [1..<Suc m])) @ c"
    unfolding visible_log_def m(1) by (simp add: file_of_def e(2) del: upt_Suc)
  have "visible_log l fs = ?f (Suc m) @ concat (map ?f (rev [1..<Suc m])) @ c"
    unfolding visible_log_def m(1) using c by (simp add: file_of_def upt_Suc_append del: upt_Suc)
  with v' e m show ?thesis by (simp add: add.commute)
qed

lemma visible_append:
  "visible_log l (fs(lg_filepath l \<mapsto> file_of fs (lg_filepath l) @ line)) = visible_log l fs @ line"
  by (simp add: visible_log_def file_of_def)

definition rotates :: "logger \<Rightarrow> filesystem \<Rightarrow> bool" where
  "rotates l fs \<longleftrightarrow> 0 < lg_maxBytes l
     \<and> (case fs (lg_filepath l) of None \<Rightarrow> False | Some c \<Rightarrow> lg_maxBytes l \<le> int (length c))"

lemma working_simps [simp]:
  "fe_stat working_fs p = False" "fe_open working_fs p = False" "fe_short working_fs = None"
  by (simp_all add: working_fs_def)

lemma log_write_rotating:
  assumes "rotates l fs" "encode e = Some line"
  shows "log_write encode working_fs l e fs =
    (case rotate_log working_fs l fs of
       (fs', Some er) \<Rightarrow> (fs', Some er)
     | (fs', None) \<Rightarrow> (fs'(lg_filepath l \<mapsto> file_of fs' (lg_filepath l) @ line), None))"
  using assms
  by (auto simp: rotates_def log_write_def rotate_if_needed_def Let_def split: option.splits prod.splits)

lemma log_write_plain:
  assumes "\<not> rotates l fs" "encode e = Some line"
  shows "log_write encode working_fs l e fs = (fs(lg_filepath l \<mapsto> file_of fs (lg_filepath l) @ line), None)"
  using assms
  by (auto simp: rotates_def log_write_def rotate_if_needed_def Let_def split: option.splits)

lemma log_write_visible:
  assumes "1 \<le> lg_maxBackups l" and "encode e = Some line"
    and w: "log_write encode working_fs l e fs = (fs', er)"
  shows "er = None \<and> visible_log l fs' =
    (if rotates l fs then drop (length (file_of fs (backup (lg_filepath l) (lg_maxBackups l)))) (visible_log l fs)
     else visible_log l fs) @ line"
proof (cases "rotates l fs")
  case True
  then obtain c where c: "fs (lg_filepath l) = Some c" by (auto simp: rotates_def split: option.splits)
  obtain fs1 e1 where r: "rotate_log working_fs l fs = (fs1, e1)" by fastforce
  from visible_rotate [of fs l c fs1 e1, OF c assms(1) r] True w assms(2) r show ?thesis
    by (auto simp: log_write_rotating visible_append)
next
  case False
  with w assms(2) show ?thesis by (auto simp: log_write_plain visible_append)
qed

section \<open>The contract of an event log\<close>

text \<open>
  What the orchestrator relies on: an entry that is written is the end of the log, and what a write drops
  it drops from the old end. \<open>line\<close> is the text of an entry.
\<close>

locale event_log =
  fixes log_to :: "'e \<Rightarrow> 's \<Rightarrow> 's"
    and visible :: "'s \<Rightarrow> string"
    and line :: "'e \<Rightarrow> string"
    and invar :: "'s \<Rightarrow> bool"
    and ok :: "'e \<Rightarrow> bool"
  assumes invar_log: "invar s \<Longrightarrow> ok e \<Longrightarrow> invar (log_to e s)"
    and log_end: "invar s \<Longrightarrow> ok e \<Longrightarrow>
      \<exists>kept. suffix kept (visible s) \<and> visible (log_to e s) = kept @ line e"
begin

lemma log_tail:
  "invar s \<Longrightarrow> (\<And>e. e \<in> set es \<Longrightarrow> ok e) \<Longrightarrow>
     invar (foldl (\<lambda>s e. log_to e s) s es)
     \<and> suffix (visible (foldl (\<lambda>s e. log_to e s) s es)) (visible s @ concat (map line es))"
proof (induction es rule: rev_induct)
  case (snoc e es)
  let ?s = "foldl (\<lambda>s e. log_to e s) s es"
  from snoc have inv: "invar ?s" "suffix (visible ?s) (visible s @ concat (map line es))" "ok e" by auto
  from log_end [OF inv(1,3)] obtain kept where
    k: "suffix kept (visible ?s)" "visible (log_to e ?s) = kept @ line e" by blast
  have "suffix kept (visible s @ concat (map line es))"
    using k(1) inv(2) by (rule suffix_order.trans)
  then have "suffix (visible (log_to e ?s)) ((visible s @ concat (map line es)) @ line e)"
    by (simp only: k(2) same_suffix_suffix)
  with inv(1,3) invar_log show ?case by simp
qed simp

lemma log_newest:
  assumes "invar s" "\<And>e. e \<in> set (es @ [e']) \<Longrightarrow> ok e"
  shows "suffix (line e') (visible (foldl (\<lambda>s e. log_to e s) s (es @ [e'])))"
proof -
  from assms log_tail [of s es] have "invar (foldl (\<lambda>s e. log_to e s) s es)" by auto
  from log_end [OF this, of e'] assms(2) show ?thesis by (auto simp: suffix_def)
qed

end

text \<open>The logger with a file system that works, at least one backup and entries that can be encoded.\<close>

definition logger_step :: "(log_entry \<Rightarrow> string option) \<Rightarrow> log_entry \<Rightarrow> logger \<times> filesystem \<Rightarrow> logger \<times> filesystem" where
  "logger_step encode e s = (fst s, fst (log_write encode working_fs (fst s) e (snd s)))"

definition line_of :: "(log_entry \<Rightarrow> string option) \<Rightarrow> log_entry \<Rightarrow> string" where
  "line_of encode e = (case encode e of None \<Rightarrow> [] | Some t \<Rightarrow> t)"

definition visible_of :: "logger \<times> filesystem \<Rightarrow> string" where
  "visible_of s = visible_log (fst s) (snd s)"

definition logger_inv :: "logger \<times> filesystem \<Rightarrow> bool" where
  "logger_inv s \<longleftrightarrow> 1 \<le> lg_maxBackups (fst s)"

definition encodable :: "(log_entry \<Rightarrow> string option) \<Rightarrow> log_entry \<Rightarrow> bool" where
  "encodable encode e \<longleftrightarrow> encode e \<noteq> None"

interpretation lg: event_log "logger_step encode" visible_of "line_of encode" logger_inv "encodable encode"
  for encode
proof unfold_locales
  fix s :: "logger \<times> filesystem" and e
  assume "logger_inv s" "encodable encode e"
  then obtain t where "1 \<le> lg_maxBackups (fst s)" "encode e = Some t"
    by (auto simp: logger_inv_def encodable_def)
  note w = log_write_visible [where l = "fst s" and fs = "snd s" and encode = encode and e = e and line = t, OF this]
  show "\<exists>kept. suffix kept (visible_of s) \<and> visible_of (logger_step encode e s) = kept @ line_of encode e"
    using \<open>encode e = Some t\<close> w
    by (cases "log_write encode working_fs (fst s) e (snd s)")
      (auto simp: visible_of_def logger_step_def line_of_def suffix_drop)
qed (simp add: logger_inv_def logger_step_def)

lemma line_of_Some: "encode e \<noteq> None \<Longrightarrow> encode e = Some (line_of encode e)"
  by (auto simp: line_of_def)

section \<open>Bounded files\<close>

definition log_paths :: "logger \<Rightarrow> string set" where
  "log_paths l = insert (lg_filepath l) {q. is_backup (lg_filepath l) (nat (lg_maxBackups l)) q}"

text \<open>A property of the contents of all the files that rotation keeps if an empty file has it.\<close>

definition files_all :: "(string \<Rightarrow> bool) \<Rightarrow> logger \<Rightarrow> filesystem \<Rightarrow> bool" where
  "files_all P l fs \<longleftrightarrow> (\<forall>q\<in>log_paths l. P (file_of fs q))"

definition files_bounded :: "int \<Rightarrow> logger \<Rightarrow> filesystem \<Rightarrow> bool" where
  "files_bounded b = files_all (\<lambda>c. int (length c) < b)"

lemma file_of_upd [simp]: "file_of (fs(p \<mapsto> c)) q = (if q = p then c else file_of fs q)"
  by (simp add: file_of_def)

lemma rotate_all:
  assumes "fs (lg_filepath l) = Some c" "1 \<le> lg_maxBackups l" "files_all P l fs" "P []"
    and r: "rotate_log working_fs l fs = (fs', e)"
  shows "files_all P l fs'"
proof -
  let ?p = "lg_filepath l"
  note facts = rotate_log_facts [OF assms(1,2) r]
  have bk: "P (file_of fs' (backup ?p (int i)))" if i: "i \<in> {1..nat (lg_maxBackups l)}" for i
  proof (cases "i = 1")
    case True
    then have "file_of fs' (backup ?p (int i)) = file_of fs ?p" using facts(3) by simp
    with assms(3) show ?thesis by (simp add: files_all_def log_paths_def)
  next
    case False
    then have "i - 1 \<in> {1..<nat (lg_maxBackups l)}" "int i = int (i - 1) + 1" using i by auto
    then have "file_of fs' (backup ?p (int i)) = file_of fs (backup ?p (int (i - 1)))"
      using facts(4) by metis
    moreover have "is_backup ?p (nat (lg_maxBackups l)) (backup ?p (int (i - 1)))"
      using \<open>i - 1 \<in> _\<close> by (auto simp: is_backup_def intro!: bexI [where x = "i - 1"])
    ultimately show ?thesis using assms(3) by (simp add: files_all_def log_paths_def)
  qed
  moreover have "file_of fs' ?p = []" using facts(2) by (simp add: file_of_def)
  ultimately show ?thesis using assms(4) by (auto simp: files_all_def log_paths_def is_backup_def)
qed

lemma log_write_all:
  assumes "1 \<le> lg_maxBackups l" "encode e = Some line" "files_all P l fs" "P []"
    and "\<And>c. P c \<Longrightarrow> (0 < lg_maxBytes l \<longrightarrow> c = [] \<or> int (length c) < lg_maxBytes l) \<Longrightarrow> P (c @ line)"
  shows "files_all P l (fst (log_write encode working_fs l e fs))"
proof (cases "rotates l fs")
  case True
  then obtain c where c: "fs (lg_filepath l) = Some c" by (auto simp: rotates_def split: option.splits)
  obtain fs1 e1 where r: "rotate_log working_fs l fs = (fs1, e1)" by fastforce
  have "P line" using assms(5) [of "[]"] assms(4) by simp
  moreover have "e1 = None" "fs1 (lg_filepath l) = None" using visible_rotate [of fs l c fs1 e1, OF c assms(1) r] by simp_all
  ultimately show ?thesis using rotate_all [OF c assms(1,3,4) r] True r assms
    by (auto simp: log_write_rotating files_all_def file_of_def)
next
  case False
  then have "0 < lg_maxBytes l \<longrightarrow> file_of fs (lg_filepath l) = [] \<or> int (length (file_of fs (lg_filepath l))) < lg_maxBytes l"
    by (auto simp: rotates_def file_of_def split: option.splits)
  with False assms show ?thesis by (auto simp: log_write_plain files_all_def log_paths_def)
qed

section \<open>Whole lines\<close>

text \<open>Rotation moves whole files, so what it drops are whole lines.\<close>

definition is_line :: "string \<Rightarrow> bool" where
  "is_line l \<longleftrightarrow> (\<exists>b. l = b @ nl \<and> CHR 0x0A \<notin> set b)"

definition whole_lines :: "string \<Rightarrow> bool" where
  "whole_lines c \<longleftrightarrow> (\<exists>ls. list_all is_line ls \<and> c = concat ls)"

lemma same_line:
  assumes "is_line x" "is_line y" "x @ r = y @ s"
  shows "x = y \<and> r = s"
proof -
  from assms(1,2) obtain a b where ab: "x = a @ nl" "CHR 0x0A \<notin> set a" "y = b @ nl" "CHR 0x0A \<notin> set b"
    unfolding is_line_def by blast
  have "takeWhile (\<lambda>c. c \<noteq> CHR 0x0A) (x @ r) = a" "takeWhile (\<lambda>c. c \<noteq> CHR 0x0A) (y @ s) = b"
    using ab by (auto simp: takeWhile_tail)
  with assms(3) ab show ?thesis by simp
qed

lemma lines_prefix:
  "list_all is_line ls \<Longrightarrow> list_all is_line ls' \<Longrightarrow> concat ls = concat ls' @ r \<Longrightarrow>
     \<exists>ls''. ls = ls' @ ls'' \<and> r = concat ls''"
proof (induction ls' arbitrary: ls)
  case (Cons y ls')
  have "y \<noteq> []" using Cons.prems(2) by (auto simp: is_line_def)
  then obtain x xs where ls: "ls = x # xs" using Cons.prems(3) by (cases ls) auto
  with Cons.prems same_line [of x y "concat xs" "concat ls' @ r"] have "x = y" "concat xs = concat ls' @ r" by auto
  with Cons.IH [of xs] Cons.prems ls show ?case by auto
qed simp

definition log_holds :: "(log_entry \<Rightarrow> string option) \<Rightarrow> logger \<Rightarrow> filesystem \<Rightarrow> log_entry list \<Rightarrow> bool" where
  "log_holds encode l fs es \<longleftrightarrow> files_all whole_lines l fs \<and> visible_log l fs = concat (map (line_of encode) es)"

lemma log_write_holds:
  assumes "1 \<le> lg_maxBackups l" "log_holds encode l fs es"
    and "list_all (\<lambda>e. is_line (line_of encode e)) (es @ [e])" "encode e \<noteq> None"
  shows "\<exists>n. log_holds encode l (fst (log_write encode working_fs l e fs)) (drop n es @ [e])"
proof -
  let ?fs = "fst (log_write encode working_fs l e fs)" and ?L = "line_of encode"
  obtain line where line: "encode e = Some line" using assms(4) by blast
  then have L: "?L e = line" by (simp add: line_of_def)
  have w: "log_write encode working_fs l e fs = (?fs, snd (log_write encode working_fs l e fs))" by simp
  have "files_all whole_lines l ?fs"
  proof (rule log_write_all [where encode = encode and e = e, OF assms(1) line])
    show "files_all whole_lines l fs" using assms(2) by (simp add: log_holds_def)
    show "whole_lines []" by (simp add: whole_lines_def exI [where x = "[]"])
    fix c assume "whole_lines c"
    then obtain ls where ls: "list_all is_line ls" "c = concat ls" by (auto simp: whole_lines_def)
    have "list_all is_line (ls @ [line])" "c @ line = concat (ls @ [line])" using ls assms(3) L by simp_all
    then show "whole_lines (c @ line)" unfolding whole_lines_def by blast
  qed
  moreover have "\<exists>n. visible_log l ?fs = concat (map ?L (drop n es @ [e]))"
  proof (cases "rotates l fs")
    case False
    with log_write_visible [OF assms(1) line w] assms(2) L
    have "visible_log l ?fs = concat (map ?L (drop 0 es @ [e]))" by (simp add: log_holds_def)
    then show ?thesis by blast
  next
    case True
    then obtain c where c: "fs (lg_filepath l) = Some c" by (auto simp: rotates_def split: option.splits)
    obtain fs1 e1 where r: "rotate_log working_fs l fs = (fs1, e1)" by fastforce
    let ?old = "file_of fs (backup (lg_filepath l) (lg_maxBackups l))"
    have v: "visible_log l fs = ?old @ visible_log l fs1" using visible_rotate [OF c assms(1) r] by simp
    have "is_backup (lg_filepath l) (nat (lg_maxBackups l)) (backup (lg_filepath l) (lg_maxBackups l))"
      using assms(1) by (auto simp: is_backup_def intro!: bexI [where x = "nat (lg_maxBackups l)"])
    then have "whole_lines ?old" using assms(2) by (auto simp: log_holds_def files_all_def log_paths_def)
    then obtain ls where ls: "list_all is_line ls" "?old = concat ls" by (auto simp: whole_lines_def)
    have "list_all is_line (map ?L es)" using assms(3) by (simp add: list_all_iff)
    moreover have "concat (map ?L es) = concat ls @ visible_log l fs1"
      using assms(2) v ls(2) by (simp add: log_holds_def)
    ultimately obtain ls'' where s: "map ?L es = ls @ ls''" "visible_log l fs1 = concat ls''"
      using lines_prefix [OF _ ls(1)] by blast
    have "ls'' = map ?L (drop (length ls) es)" by (metis append_eq_conv_conj drop_map s(1))
    with True s(2) v log_write_visible [OF assms(1) line w] L
    have "visible_log l ?fs = concat (map ?L (drop (length ls) es @ [e]))" by simp
    then show ?thesis by blast
  qed
  ultimately show ?thesis by (auto simp: log_holds_def)
qed

text \<open>The lines of the log, and what they say.\<close>

definition log_lines :: "string \<Rightarrow> string list" where
  "log_lines c = butlast (split_on (CHR 0x0A) c)"

section \<open>Properties\<close>

text \<open>C11: the metrics log loses only its oldest entries. With a working file system and at least one backup,
  whatever the size limit, the text of all the files after any sequence of entries is a suffix of what was
  there followed by every line written, and ends with the newest line.\<close>
theorem log_is_tail_of_history:
  assumes "1 \<le> lg_maxBackups l" and "\<And>e. e \<in> set (es @ [e']) \<Longrightarrow> encode e \<noteq> None"
    and "(l, fs') = foldl (\<lambda>s e. logger_step encode e s) (l, fs) (es @ [e'])"
  shows "suffix (visible_log l fs') (visible_log l fs @ concat (map (line_of encode) (es @ [e'])))
     \<and> suffix (line_of encode e') (visible_log l fs')"
  using lg.log_tail [of "(l, fs)" "es @ [e']" encode] lg.log_newest [of "(l, fs)" es e' encode] assms
  by (simp add: logger_inv_def encodable_def visible_of_def del: foldl_append) (metis fst_conv snd_conv)

definition tiny_encode :: "log_entry \<Rightarrow> string option" where
  "tiny_encode e = Some (''{}'' @ nl)"

definition tiny_logger :: logger where
  "tiny_logger = new_logger_with_rotation ''m'' 4 1"

theorem log_is_tail_of_history_witness:
  "suffix (visible_log tiny_logger (snd (foldl (\<lambda>s e. logger_step tiny_encode e s) (tiny_logger, Map.empty)
      ([zero_snapshot, zero_snapshot, zero_snapshot] @ [zero_snapshot]))))
    (visible_log tiny_logger Map.empty @ concat (map (line_of tiny_encode)
      ([zero_snapshot, zero_snapshot, zero_snapshot] @ [zero_snapshot])))"
  by (rule log_is_tail_of_history [THEN conjunct1])
    (auto simp: tiny_logger_def tiny_encode_def new_logger_with_rotation_def logger_step_def)

text \<open>C34: the log never outgrows its quota. When every line has at most \<open>k\<close> bytes, the current file and
  each of the \<open>maxBackups\<close> backups stay below \<open>maxBytes + k\<close> bytes forever.\<close>
theorem log_files_bounded:
  assumes "1 \<le> lg_maxBackups l" "0 < lg_maxBytes l"
    and "\<And>e. e \<in> set es \<Longrightarrow> encode e \<noteq> None \<and> int (length (line_of encode e)) \<le> k"
    and "files_bounded (lg_maxBytes l + k) l fs"
    and "fs' = foldl (\<lambda>fs e. fst (log_write encode working_fs l e fs)) fs es"
  shows "files_bounded (lg_maxBytes l + k) l fs'"
  unfolding assms(5)
proof (rule foldl_inv [where P = "files_bounded (lg_maxBytes l + k) l", OF assms(4)])
  fix fs e assume b: "files_bounded (lg_maxBytes l + k) l fs" and e: "e \<in> set es"
  have k: "0 \<le> k" using assms(3) [OF e] by linarith
  show "files_bounded (lg_maxBytes l + k) l (fst (log_write encode working_fs l e fs))"
    unfolding files_bounded_def
    by (rule log_write_all [OF assms(1) line_of_Some])
      (use b assms(2) assms(3) [OF e] k in \<open>auto simp: files_bounded_def\<close>)
qed

theorem log_files_bounded_witness:
  "files_bounded (lg_maxBytes tiny_logger + 3) tiny_logger
     (foldl (\<lambda>fs e. fst (log_write tiny_encode working_fs tiny_logger e fs)) Map.empty
       [zero_snapshot, zero_snapshot, zero_snapshot])"
  by (rule log_files_bounded [OF _ _ _ _ refl])
    (auto simp: tiny_logger_def tiny_encode_def new_logger_with_rotation_def line_of_def files_bounded_def files_all_def
      file_of_def)

lemma split_on_line: "x \<notin> set l \<Longrightarrow> split_on x (l @ x # s) = l # split_on x s"
  by (induction l) auto

lemma split_on_lines:
  "list_all (\<lambda>l. x \<notin> set l) ls \<Longrightarrow> split_on x (concat (map (\<lambda>l. l @ [x]) ls)) = ls @ [[]]"
  by (induction ls) (auto simp: split_on_line)

lemma logger_steps:
  "snd (foldl (\<lambda>s e. logger_step encode e s) (l, fs) es) = foldl (\<lambda>fs e. fst (log_write encode working_fs l e fs)) fs es"
proof -
  have "foldl (\<lambda>s e. logger_step encode e s) (l, fs) es
      = (l, foldl (\<lambda>fs e. fst (log_write encode working_fs l e fs)) fs es)"
    by (induction es arbitrary: fs) (simp_all add: logger_step_def)
  then show ?thesis by simp
qed

lemma logged_entries:
  assumes "1 \<le> lg_maxBackups l" "list_all (\<lambda>e. encode e \<noteq> None \<and> is_line (line_of encode e)) (es @ [e'])"
  shows "\<exists>n\<le>length es. log_holds encode l (foldl (\<lambda>fs e. fst (log_write encode working_fs l e fs)) Map.empty (es @ [e']))
    (drop n (es @ [e']))"
  using assms(2)
proof (induction es arbitrary: e' rule: rev_induct)
  case Nil
  have h: "log_holds encode l Map.empty []"
    by (auto simp: log_holds_def files_all_def visible_log_def file_of_def whole_lines_def intro: exI [where x = "[]"])
  from log_write_holds [OF assms(1) h, of e'] Nil show ?case by (auto simp: list_all_iff)
next
  case (snoc e es)
  let ?fs = "foldl (\<lambda>fs e. fst (log_write encode working_fs l e fs)) Map.empty (es @ [e])"
  obtain n where n: "n \<le> length es" and h: "log_holds encode l ?fs (drop n (es @ [e]))"
    using snoc.IH [of e] snoc.prems by auto
  have "list_all (\<lambda>e. is_line (line_of encode e)) (drop n (es @ [e]) @ [e'])"
    using snoc.prems in_set_dropD by (fastforce simp: list_all_iff)
  with log_write_holds [OF assms(1) h, of e'] snoc.prems obtain m where
    "log_holds encode l (fst (log_write encode working_fs l e' ?fs)) (drop m (drop n (es @ [e])) @ [e'])" by auto
  moreover have "drop k xs @ [y] = drop (min k (length xs)) (xs @ [y])" for k xs and y :: log_entry
    by (simp add: min_def)
  then have "drop m (drop n (es @ [e])) @ [e'] = drop (min (m + n) (length (es @ [e]))) ((es @ [e]) @ [e'])"
    unfolding drop_drop .
  ultimately show ?case by (intro exI [where x = "min (m + n) (length (es @ [e]))"]) simp
qed

text \<open>C13: the metrics log is a readable record. Start with no log file, a working file system and at least one
  backup, and log any snapshots whose times have a text, whose numbers are finite and whose names are valid
  UTF-8, rotating at whatever size: every line of all the files together, oldest file first, is JSON that
  reads back as a snapshot, and the snapshots read are exactly the most recent ones, in order.\<close>
theorem metrics_log_reads_back:
  assumes "1 \<le> lg_maxBackups l" "\<And>e. e \<in> set (es @ [e']) \<Longrightarrow> snapshot_ok zone e"
    and "fs' = foldl (\<lambda>fs e. fst (log_write (encode_entry zone) working_fs l e fs)) Map.empty (es @ [e'])"
  shows "\<exists>n\<le>length es. map decode_entry (log_lines (visible_log l fs')) = map Some (drop n (es @ [e']))"
proof -
  let ?line = "line_of (encode_entry zone)"
  define body where "body e = butlast (?line e)" for e
  have line: "encode_entry zone e \<noteq> None \<and> ?line e = body e @ nl \<and> CHR 0x0A \<notin> set (body e) \<and> decode_entry (body e) = Some e"
    if "e \<in> set (es @ [e'])" for e
    using decode_encode_entry [OF assms(2) [OF that]] by (auto simp: line_of_def body_def)
  then have "list_all (\<lambda>e. encode_entry zone e \<noteq> None \<and> is_line (?line e)) (es @ [e'])"
    unfolding list_all_iff is_line_def by blast
  from logged_entries [OF assms(1) this] obtain n where n: "n \<le> length es"
    and v: "visible_log l fs' = concat (map ?line (drop n (es @ [e'])))"
    unfolding assms(3) log_holds_def by blast
  let ?es = "drop n (es @ [e'])"
  have mem: "e \<in> set ?es \<Longrightarrow> e \<in> set (es @ [e'])" for e by (rule in_set_dropD)
  have "map ?line ?es = map (\<lambda>l. l @ nl) (map body ?es)" unfolding map_map o_def using line mem by (intro map_cong) auto
  moreover have "list_all (\<lambda>l. CHR 0x0A \<notin> set l) (map body ?es)"
    unfolding list_all_iff set_map using line mem by auto
  ultimately have "log_lines (visible_log l fs') = map body ?es"
    unfolding log_lines_def v by (simp only: split_on_lines butlast_snoc)
  moreover have "map decode_entry (map body ?es) = map Some ?es"
    unfolding map_map o_def using line mem by (intro map_cong) auto
  ultimately have "map decode_entry (log_lines (visible_log l fs')) = map Some ?es" by (simp only:)
  with n show ?thesis by blast
qed

definition busy_snapshot :: snapshot where
  "busy_snapshot = zero_snapshot\<lparr>sn_Timestamp := 5 * second, sn_CPUPercent := Fin (195 / 2), sn_SwapUsed := 3,
     sn_TopProcs := [\<lparr>pi_PID = 7, pi_Name = ''a\"b'', pi_MemMB = 12\<rparr>]\<rparr>"

theorem metrics_log_reads_back_witness:
  "\<exists>n. map decode_entry (log_lines (visible_log tiny_logger
      (foldl (\<lambda>fs e. fst (log_write (encode_entry utc) working_fs tiny_logger e fs)) Map.empty
        ([zero_snapshot, busy_snapshot] @ [zero_snapshot]))))
    = map Some (drop n ([zero_snapshot, busy_snapshot] @ [zero_snapshot]))"
proof -
  have "snapshot_ok utc zero_snapshot" "snapshot_ok utc busy_snapshot" by code_simp+
  moreover have "1 \<le> lg_maxBackups tiny_logger" by code_simp
  ultimately show ?thesis
    using metrics_log_reads_back [of tiny_logger "[zero_snapshot, busy_snapshot]" zero_snapshot utc] by fastforce
qed

text \<open>a write that fails when no rotation is due, whatever system call fails, leaves every logged line in
  place and adds at most a part of the new one.\<close>
theorem failed_write_keeps_log:
  assumes "\<not> rotates l fs" "log_write encode env l e fs = (fs', Some er)"
  shows "\<exists>n. visible_log l fs' = visible_log l fs @ take n (line_of encode e)"
proof -
  have "fs' = fs \<or> (\<exists>n. fs' = fs(lg_filepath l \<mapsto> file_of fs (lg_filepath l) @ take n (line_of encode e)))"
    using assms
    by (auto simp: log_write_def rotate_if_needed_def rotates_def Let_def line_of_def
        split: option.splits if_splits intro: exI [where x = 0])
  then show ?thesis by (auto simp: visible_append intro: exI [where x = 0])
qed

theorem failed_write_keeps_log_witness:
  "\<exists>n. visible_log tiny_logger [''m'' \<mapsto> ''{''] = visible_log tiny_logger Map.empty @ take n (line_of tiny_encode zero_snapshot)"
  by (rule failed_write_keeps_log [where env = "working_fs\<lparr>fe_short := Some 1\<rparr>" and er = EncodeFailed])
    (simp_all add: rotates_def log_write_def rotate_if_needed_def tiny_logger_def tiny_encode_def
      new_logger_with_rotation_def working_fs_def Let_def file_of_def)

end
