(* ===== verification/JX_Bus.thy ===== *)
theory JX_Bus
  imports JX_Prelude
begin

text \<open>
  The event bus of \<open>runtime/core/bus.go\<close>. Every subscriber has two bounded channels and a goroutine that
  moves events from the first (\<open>dispatch\<close>) to the second (\<open>ch\<close>); publishing copies the list of
  subscribers under the lock and then sends without it, so publications, subscriptions, goroutines and
  consumers interleave. The operations are functions on the state of the bus; the relation \<open>bus_step\<close>
  lets any of them happen next.

  Subscribers live in a list indexed by their address; \<open>bu_subs\<close> holds the addresses that are registered.
  The last three fields of a subscriber record history: what publishers sent to it, what its consumer
  received, and how many events were dropped because a buffer was full. \<open>NewBus\<close> is used with a positive
  buffer size (an unbuffered channel would need a rendezvous).
\<close>

section \<open>State\<close>

record 'e subscriber =
  sb_name :: string
  sb_ch :: "'e list"
  sb_dispatch :: "'e list"
  sb_hold :: "'e option"
  sb_quit :: bool
  sb_closed :: bool
  sb_sent :: "'e list"
  sb_got :: "'e list"
  sb_dropped :: nat

record 'e bus =
  bu_size :: nat
  bu_heap :: "'e subscriber list"
  bu_subs :: "nat list"
  bu_pub :: "nat \<Rightarrow> ('e \<times> nat list) option"

definition new_bus :: "nat \<Rightarrow> 'e bus" where
  "new_bus n = \<lparr>bu_size = n, bu_heap = [], bu_subs = [], bu_pub = Map.empty\<rparr>"

definition new_subscriber :: "string \<Rightarrow> 'e subscriber" where
  "new_subscriber name =
     \<lparr>sb_name = name, sb_ch = [], sb_dispatch = [], sb_hold = None, sb_quit = False, sb_closed = False,
      sb_sent = [], sb_got = [], sb_dropped = 0\<rparr>"

abbreviation upd_sub :: "nat \<Rightarrow> ('e subscriber \<Rightarrow> 'e subscriber) \<Rightarrow> 'e bus \<Rightarrow> 'e bus" where
  "upd_sub i f b \<equiv> b\<lparr>bu_heap := (bu_heap b)[i := f (bu_heap b ! i)]\<rparr>"

section \<open>Operations\<close>

definition bus_subscribe :: "string \<Rightarrow> 'e bus \<Rightarrow> 'e bus" where
  "bus_subscribe name b =
     b\<lparr>bu_heap := bu_heap b @ [new_subscriber name], bu_subs := bu_subs b @ [length (bu_heap b)]\<rparr>"

text \<open>\<open>Publish\<close>: the copy of the list, then one send per subscriber that gives up on a full buffer.\<close>

definition publish_copy :: "nat \<Rightarrow> 'e \<Rightarrow> 'e bus \<Rightarrow> 'e bus" where
  "publish_copy t e b = b\<lparr>bu_pub := (bu_pub b)(t \<mapsto> (e, bu_subs b))\<rparr>"

definition offer :: "nat \<Rightarrow> 'e \<Rightarrow> 'e subscriber \<Rightarrow> 'e subscriber" where
  "offer cap e s =
     (if length (sb_dispatch s) < cap
      then s\<lparr>sb_dispatch := sb_dispatch s @ [e], sb_sent := sb_sent s @ [e]\<rparr>
      else s\<lparr>sb_sent := sb_sent s @ [e], sb_dropped := sb_dropped s + 1\<rparr>)"

definition publish_send :: "nat \<Rightarrow> 'e bus \<Rightarrow> 'e bus" where
  "publish_send t b =
     (case bu_pub b t of
        Some (e, i # is) \<Rightarrow> (upd_sub i (offer (2 * bu_size b) e) b)\<lparr>bu_pub := (bu_pub b)(t \<mapsto> (e, is))\<rparr>
      | Some (e, []) \<Rightarrow> b\<lparr>bu_pub := (bu_pub b)(t := None)\<rparr>
      | None \<Rightarrow> b)"

text \<open>\<open>Unsubscribe\<close> stops and removes the first subscriber of that name.\<close>

definition bus_unsubscribe :: "string \<Rightarrow> 'e bus \<Rightarrow> 'e bus" where
  "bus_unsubscribe name b =
     (case find (\<lambda>i. sb_name (bu_heap b ! i) = name) (bu_subs b) of
        None \<Rightarrow> b
      | Some i \<Rightarrow> (upd_sub i (\<lambda>s. s\<lparr>sb_quit := True\<rparr>) b)\<lparr>bu_subs := remove1 i (bu_subs b)\<rparr>)"

definition bus_len :: "'e bus \<Rightarrow> nat" where
  "bus_len b = length (bu_subs b)"

text \<open>The goroutine \<open>run\<close>: its two \<open>select\<close> statements.\<close>

definition run_take :: "'e subscriber \<Rightarrow> 'e subscriber option" where
  "run_take s =
     (if sb_closed s \<or> sb_hold s \<noteq> None then None
      else case sb_dispatch s of [] \<Rightarrow> None | e # d \<Rightarrow> Some (s\<lparr>sb_dispatch := d, sb_hold := Some e\<rparr>))"

definition run_quit :: "'e subscriber \<Rightarrow> 'e subscriber option" where
  "run_quit s =
     (if sb_closed s \<or> sb_hold s \<noteq> None \<or> \<not> sb_quit s then None else Some (s\<lparr>sb_closed := True\<rparr>))"

definition run_deliver :: "nat \<Rightarrow> 'e subscriber \<Rightarrow> 'e subscriber option" where
  "run_deliver cap s =
     (case sb_hold s of None \<Rightarrow> None
      | Some e \<Rightarrow>
          Some (if length (sb_ch s) < cap then s\<lparr>sb_ch := sb_ch s @ [e], sb_hold := None\<rparr>
                else s\<lparr>sb_hold := None, sb_dropped := sb_dropped s + 1\<rparr>))"

text \<open>The consumer receives from \<open>ch\<close>, also what is left in it after it was closed.\<close>

definition consume :: "'e subscriber \<Rightarrow> 'e subscriber option" where
  "consume s =
     (case sb_ch s of [] \<Rightarrow> None | e # c \<Rightarrow> Some (s\<lparr>sb_ch := c, sb_got := sb_got s @ [e]\<rparr>))"

section \<open>Interleavings\<close>

inductive bus_step :: "'e bus \<Rightarrow> 'e bus \<Rightarrow> bool" where
  subscribe: "bus_step b (bus_subscribe name b)"
| unsubscribe: "bus_step b (bus_unsubscribe name b)"
| copy: "bu_pub b t = None \<Longrightarrow> bus_step b (publish_copy t e b)"
| send: "bus_step b (publish_send t b)"
| take: "i < length (bu_heap b) \<Longrightarrow> run_take (bu_heap b ! i) = Some s \<Longrightarrow> bus_step b (upd_sub i (\<lambda>_. s) b)"
| quit: "i < length (bu_heap b) \<Longrightarrow> run_quit (bu_heap b ! i) = Some s \<Longrightarrow> bus_step b (upd_sub i (\<lambda>_. s) b)"
| deliver: "i < length (bu_heap b) \<Longrightarrow> run_deliver (bu_size b) (bu_heap b ! i) = Some s \<Longrightarrow>
    bus_step b (upd_sub i (\<lambda>_. s) b)"
| consume: "i < length (bu_heap b) \<Longrightarrow> consume (bu_heap b ! i) = Some s \<Longrightarrow> bus_step b (upd_sub i (\<lambda>_. s) b)"

inductive bus_reach :: "nat \<Rightarrow> 'e bus \<Rightarrow> bool" for n where
  init: "bus_reach n (new_bus n)"
| step: "bus_reach n b \<Longrightarrow> bus_step b b' \<Longrightarrow> bus_reach n b'"

inductive_cases bus_stepE: "bus_step b b'"

section \<open>Invariant\<close>

text \<open>What is in flight for a subscriber, oldest first.\<close>

definition in_flight :: "'e subscriber \<Rightarrow> 'e list" where
  "in_flight s = sb_got s @ sb_ch s @ (case sb_hold s of None \<Rightarrow> [] | Some e \<Rightarrow> [e]) @ sb_dispatch s"

definition sub_inv :: "nat \<Rightarrow> 'e subscriber \<Rightarrow> bool" where
  "sub_inv n s \<longleftrightarrow>
     length (sb_ch s) \<le> n \<and> length (sb_dispatch s) \<le> 2 * n
     \<and> (sb_closed s \<longrightarrow> sb_hold s = None \<and> sb_quit s)
     \<and> subseq (in_flight s) (sb_sent s)
     \<and> length (in_flight s) + sb_dropped s = length (sb_sent s)"

lemma subseq_snoc [simp]: "subseq xs ys \<Longrightarrow> subseq (xs @ [x]) (ys @ [x])"
  by (rule list_emb_append_mono) simp_all

lemma subseq_drop_right: "subseq xs ys \<Longrightarrow> subseq xs (ys @ zs)"
  by (rule subseq_rev_drop_many)

lemma subseq_remove_mid: "subseq (xs @ e # ys) zs \<Longrightarrow> subseq (xs @ ys) zs"
  by (rule subseq_order.trans [of _ "xs @ e # ys"]) (auto intro: list_emb_append_mono list_emb_Cons)

lemma sub_inv_new [simp]: "sub_inv n (new_subscriber name)"
  by (simp add: sub_inv_def new_subscriber_def in_flight_def)

lemma sub_inv_offer: "sub_inv n s \<Longrightarrow> sub_inv n (offer (2 * n) e s)"
  using subseq_snoc [of "in_flight s" "sb_sent s" e]
  by (auto simp: sub_inv_def offer_def in_flight_def subseq_drop_right)

lemma sub_inv_quit [simp]: "sub_inv n s \<Longrightarrow> sub_inv n (s\<lparr>sb_quit := True\<rparr>)"
  by (simp add: sub_inv_def in_flight_def)

lemma sub_inv_run_take: "sub_inv n s \<Longrightarrow> run_take s = Some s' \<Longrightarrow> sub_inv n s'"
  by (auto simp: run_take_def sub_inv_def in_flight_def split: if_splits list.splits)

lemma sub_inv_run_quit: "sub_inv n s \<Longrightarrow> run_quit s = Some s' \<Longrightarrow> sub_inv n s'"
  by (auto simp: run_quit_def sub_inv_def in_flight_def split: if_splits)

lemma sub_inv_run_deliver: "sub_inv n s \<Longrightarrow> run_deliver n s = Some s' \<Longrightarrow> sub_inv n s'"
  using subseq_remove_mid [of "sb_got s @ sb_ch s" _ "sb_dispatch s" "sb_sent s"]
  by (auto simp: run_deliver_def sub_inv_def in_flight_def split: option.splits if_splits)

lemma sub_inv_consume: "sub_inv n s \<Longrightarrow> consume s = Some s' \<Longrightarrow> sub_inv n s'"
  by (auto simp: consume_def sub_inv_def in_flight_def split: list.splits)

lemmas sub_inv_steps = sub_inv_run_take sub_inv_run_quit sub_inv_run_deliver sub_inv_consume

text \<open>
  The whole bus: registered addresses are distinct, valid and not stopped, so no \<open>quit\<close> channel is closed
  twice; a publication under way sends to valid addresses.
\<close>

definition bus_inv :: "nat \<Rightarrow> 'e bus \<Rightarrow> bool" where
  "bus_inv n b \<longleftrightarrow>
     bu_size b = n \<and> (\<forall>s\<in>set (bu_heap b). sub_inv n s)
     \<and> distinct (bu_subs b)
     \<and> (\<forall>i\<in>set (bu_subs b). i < length (bu_heap b) \<and> \<not> sb_quit (bu_heap b ! i))
     \<and> (\<forall>t e is. bu_pub b t = Some (e, is) \<longrightarrow> (\<forall>i\<in>set is. i < length (bu_heap b)))"

lemma run_keeps_quit:
  "run_take s = Some s' \<Longrightarrow> sb_quit s' = sb_quit s"
  "run_quit s = Some s' \<Longrightarrow> sb_quit s' = sb_quit s"
  "run_deliver n s = Some s' \<Longrightarrow> sb_quit s' = sb_quit s"
  "consume s = Some s' \<Longrightarrow> sb_quit s' = sb_quit s"
  by (auto simp: run_take_def run_quit_def run_deliver_def consume_def split: if_splits option.splits list.splits)

lemma offer_quit [simp]: "sb_quit (offer n e s) = sb_quit s"
  by (simp add: offer_def)

lemma bus_inv_upd:
  assumes "bus_inv n b" "i < length (bu_heap b)" "sub_inv n s" "sb_quit s = sb_quit (bu_heap b ! i)"
  shows "bus_inv n (upd_sub i (\<lambda>_. s) b)"
  using assms set_update_subset_insert [of "bu_heap b" i s]
  by (auto simp: bus_inv_def nth_list_update)

lemma bus_inv_nth: "bus_inv n b \<Longrightarrow> i < length (bu_heap b) \<Longrightarrow> sub_inv n (bu_heap b ! i)"
  by (simp add: bus_inv_def)

lemma bus_inv_subscribe: "bus_inv n b \<Longrightarrow> bus_inv n (bus_subscribe name b)"
  by (auto simp: bus_inv_def bus_subscribe_def nth_append new_subscriber_def less_Suc_eq
      sub_inv_new [unfolded new_subscriber_def])

lemma bus_inv_unsubscribe: "bus_inv n b \<Longrightarrow> bus_inv n (bus_unsubscribe name b)"
proof (cases "find (\<lambda>i. sb_name (bu_heap b ! i) = name) (bu_subs b)")
  case (Some i)
  assume inv: "bus_inv n b"
  from Some have i: "i \<in> set (bu_subs b)" by (auto simp: find_Some_iff)
  with inv have "i < length (bu_heap b)" by (simp add: bus_inv_def)
  with inv have "\<forall>s\<in>set ((bu_heap b)[i := (bu_heap b ! i)\<lparr>sb_quit := True\<rparr>]). sub_inv n s"
    using set_update_subset_insert [of "bu_heap b" i "(bu_heap b ! i)\<lparr>sb_quit := True\<rparr>"]
    by (auto simp: bus_inv_def)
  with inv Some show ?thesis
    by (auto simp: bus_inv_def bus_unsubscribe_def nth_list_update)
qed (simp add: bus_unsubscribe_def)

lemma bus_inv_send: "bus_inv n b \<Longrightarrow> bus_inv n (publish_send t b)"
proof (cases "bu_pub b t")
  case (Some p)
  assume inv: "bus_inv n b"
  obtain e "is" where p: "p = (e, is)" by fastforce
  show ?thesis
  proof (cases "is")
    case Nil
    with inv Some p show ?thesis by (auto simp: bus_inv_def publish_send_def)
  next
    case (Cons i js)
    with inv Some p have i: "i < length (bu_heap b)" "\<forall>j\<in>set js. j < length (bu_heap b)"
      by (auto simp: bus_inv_def)
    let ?s = "offer (2 * n) e (bu_heap b ! i)"
    have "bus_inv n (upd_sub i (\<lambda>_. ?s) b)"
      using inv i(1) by (intro bus_inv_upd sub_inv_offer bus_inv_nth) simp_all
    with inv Some p Cons i(2) show ?thesis
      by (auto simp: bus_inv_def publish_send_def)
  qed
qed (simp add: publish_send_def)

lemma bus_inv_run:
  assumes inv: "bus_inv n b" and i: "i < length (bu_heap b)"
    and "run_take (bu_heap b ! i) = Some s \<or> run_quit (bu_heap b ! i) = Some s
      \<or> run_deliver (bu_size b) (bu_heap b ! i) = Some s \<or> consume (bu_heap b ! i) = Some s"
  shows "bus_inv n (upd_sub i (\<lambda>_. s) b)"
proof -
  have n: "bu_size b = n" using inv by (simp add: bus_inv_def)
  have "sub_inv n s" using assms(3) sub_inv_steps [OF bus_inv_nth [OF inv i]] unfolding n by blast
  moreover have "sb_quit s = sb_quit (bu_heap b ! i)" using assms(3) run_keeps_quit by blast
  ultimately show ?thesis by (rule bus_inv_upd [OF inv i])
qed

lemma bus_inv_copy: "bus_inv n b \<Longrightarrow> bus_inv n (publish_copy t e b)"
  by (auto simp: bus_inv_def publish_copy_def)

lemma bus_inv_step: "bus_step b b' \<Longrightarrow> bus_inv n b \<Longrightarrow> bus_inv n b'"
  by (erule bus_stepE)
    (simp_all only: bus_inv_subscribe bus_inv_unsubscribe bus_inv_send bus_inv_copy bus_inv_run simp_thms)

lemma bus_inv_reach: "bus_reach n b \<Longrightarrow> bus_inv n b"
proof (induction rule: bus_reach.induct)
  case init
  then show ?case by (simp add: bus_inv_def new_bus_def)
next
  case (step b b')
  then show ?case using bus_inv_step by blast
qed

section \<open>One publication\<close>

text \<open>\<open>Publish\<close> run to its end without interference: one send per registered subscriber, and the return.\<close>

definition publish :: "nat \<Rightarrow> 'e \<Rightarrow> 'e bus \<Rightarrow> 'e bus" where
  "publish t e b = (publish_send t ^^ (length (bu_subs b) + 1)) (publish_copy t e b)"

lemma publish_sends:
  assumes "bu_pub b t = Some (e, is)" "distinct is" "\<forall>i\<in>set is. i < length (bu_heap b)"
  shows "(publish_send t ^^ (length is + 1)) b =
    b\<lparr>bu_pub := (bu_pub b)(t := None),
      bu_heap := map (\<lambda>i. if i \<in> set is then offer (2 * bu_size b) e (bu_heap b ! i) else bu_heap b ! i)
                   [0..<length (bu_heap b)]\<rparr>"
  using assms
proof (induction "is" arbitrary: b)
  case Nil
  then show ?case by (simp add: publish_send_def map_nth fun_upd_def)
next
  case (Cons i js)
  let ?b = "publish_send t b"
  have b: "?b = (upd_sub i (offer (2 * bu_size b) e) b)\<lparr>bu_pub := (bu_pub b)(t \<mapsto> (e, js))\<rparr>"
    using Cons.prems(1) by (simp add: publish_send_def)
  have "(publish_send t ^^ (length (i # js) + 1)) b = (publish_send t ^^ (length js + 1)) ?b"
    by (simp only: list.size add_Suc_right add_Suc add_0_right One_nat_def funpow_Suc_right o_apply)
  also have "\<dots> = ?b\<lparr>bu_pub := (bu_pub ?b)(t := None),
      bu_heap := map (\<lambda>j. if j \<in> set js then offer (2 * bu_size ?b) e (bu_heap ?b ! j) else bu_heap ?b ! j)
                   [0..<length (bu_heap ?b)]\<rparr>"
    by (rule Cons.IH) (use Cons.prems b in auto)
  also have "\<dots> = b\<lparr>bu_pub := (bu_pub b)(t := None),
      bu_heap := map (\<lambda>j. if j \<in> set (i # js) then offer (2 * bu_size b) e (bu_heap b ! j) else bu_heap b ! j)
                   [0..<length (bu_heap b)]\<rparr>"
    using Cons.prems(2,3) unfolding b by (auto simp: nth_list_update)
  finally show ?case .
qed

lemma publish_eq:
  assumes "bus_inv n b"
  shows "publish t e b =
    b\<lparr>bu_pub := (bu_pub b)(t := None),
      bu_heap := map (\<lambda>i. if i \<in> set (bu_subs b) then offer (2 * n) e (bu_heap b ! i) else bu_heap b ! i)
                   [0..<length (bu_heap b)]\<rparr>"
  using assms publish_sends [of "publish_copy t e b" t e "bu_subs b"]
  by (simp add: publish_def publish_copy_def bus_inv_def)

section \<open>Properties\<close>

text \<open>C10: in every interleaving of publishers, subscriber goroutines, consumers, subscriptions and
  unsubscriptions, a consumer receives a subsequence of what was sent to it, in the order it was sent;
  every event is received, still in flight, or counted as dropped; both buffers respect their capacity;
  and nothing is left to be sent on a closed channel. If nothing was dropped, it received a prefix.\<close>
theorem bus_delivers_in_order:
  assumes "bus_reach n b" "s \<in> set (bu_heap b)"
  shows "subseq (sb_got s) (sb_sent s)
     \<and> length (in_flight s) + sb_dropped s = length (sb_sent s)
     \<and> length (sb_ch s) \<le> n \<and> length (sb_dispatch s) \<le> 2 * n
     \<and> (sb_closed s \<longrightarrow> sb_hold s = None)
     \<and> (sb_dropped s = 0 \<longrightarrow> prefix (sb_got s) (sb_sent s))"
proof -
  have inv: "sub_inv n s" using bus_inv_reach [OF assms(1)] assms(2) by (simp add: bus_inv_def)
  have "subseq (sb_got s) (in_flight s)" by (simp add: in_flight_def subseq_rev_drop_many)
  moreover have "prefix (sb_got s) (in_flight s)" by (simp add: in_flight_def)
  moreover have "sb_dropped s = 0 \<longrightarrow> in_flight s = sb_sent s"
    using inv subseq_same_length [of "in_flight s" "sb_sent s"] by (simp add: sub_inv_def)
  ultimately show ?thesis
    using inv by (auto simp: sub_inv_def intro: subseq_order.trans)
qed

definition sample_bus :: "nat bus" where
  "sample_bus = upd_sub 0 (\<lambda>s. the (run_take s)) (publish 0 7 (bus_subscribe ''orchestrator'' (new_bus 1)))"

lemma sample_bus_reach: "bus_reach 1 sample_bus"
proof -
  let ?b1 = "bus_subscribe ''orchestrator'' (new_bus 1) :: nat bus"
  have 1: "bus_reach 1 ?b1" by (rule bus_reach.step [OF bus_reach.init bus_step.subscribe])
  have 2: "bus_reach 1 (publish_copy 0 7 ?b1)"
    by (rule bus_reach.step [OF 1 bus_step.copy]) (simp add: bus_subscribe_def new_bus_def)
  have 3: "bus_reach 1 (publish_send 0 (publish_send 0 (publish_copy 0 7 ?b1)))"
    by (rule bus_reach.step [OF bus_reach.step [OF 2 bus_step.send] bus_step.send])
  have p: "publish 0 7 ?b1 = publish_send 0 (publish_send 0 (publish_copy 0 7 ?b1))"
    by (simp add: publish_def bus_subscribe_def new_bus_def)
  have "\<exists>s. run_take (bu_heap (publish 0 7 ?b1) ! 0) = Some s \<and> 0 < length (bu_heap (publish 0 7 ?b1))"
    unfolding p by (simp add: publish_send_def publish_copy_def bus_subscribe_def new_bus_def offer_def
        new_subscriber_def run_take_def)
  then obtain s where s: "run_take (bu_heap (publish 0 7 ?b1) ! 0) = Some s" "0 < length (bu_heap (publish 0 7 ?b1))"
    by blast
  show ?thesis
    unfolding sample_bus_def s(1) option.sel
    by (rule bus_reach.step [OF 3 [folded p] bus_step.take [OF s(2,1)]])
qed

theorem bus_delivers_in_order_witness:
  "subseq (sb_got (bu_heap sample_bus ! 0)) (sb_sent (bu_heap sample_bus ! 0))"
  by (rule bus_delivers_in_order [OF sample_bus_reach, THEN conjunct1])
    (simp add: sample_bus_def publish_def publish_send_def publish_copy_def bus_subscribe_def new_bus_def)

text \<open>A publication is offered exactly once to every subscriber registered when it starts and to no
  other, and a subscriber whose buffer is full neither blocks it nor costs another subscriber the event.\<close>
theorem publish_fans_out:
  assumes "bus_reach n b"
  shows "\<forall>i<length (bu_heap b).
      sb_sent (bu_heap (publish t e b) ! i)
        = (if i \<in> set (bu_subs b) then sb_sent (bu_heap b ! i) @ [e] else sb_sent (bu_heap b ! i))
      \<and> (i \<in> set (bu_subs b) \<longrightarrow> length (sb_dispatch (bu_heap b ! i)) < 2 * n \<longrightarrow>
           sb_dispatch (bu_heap (publish t e b) ! i) = sb_dispatch (bu_heap b ! i) @ [e])"
  using publish_eq [OF bus_inv_reach [OF assms], of t e] by (simp add: offer_def)

theorem publish_fans_out_witness:
  "sb_sent (bu_heap (publish 1 9 sample_bus) ! 0) = sb_sent (bu_heap sample_bus ! 0) @ [9]"
  using publish_fans_out [OF sample_bus_reach, of 1 9]
  by (simp add: sample_bus_def publish_def publish_send_def publish_copy_def bus_subscribe_def new_bus_def)

text \<open>\<open>Unsubscribe\<close> removes exactly the first subscriber of that name and stops only its goroutine,
  which was not stopped before, so a \<open>quit\<close> channel is never closed twice; an unknown name changes
  nothing.\<close>
theorem unsubscribe_once:
  assumes "bus_reach n b"
  shows "(case find (\<lambda>i. sb_name (bu_heap b ! i) = name) (bu_subs b) of
      None \<Rightarrow> bus_unsubscribe name b = b
    | Some i \<Rightarrow> \<not> sb_quit (bu_heap b ! i) \<and> sb_quit (bu_heap (bus_unsubscribe name b) ! i)
        \<and> i \<notin> set (bu_subs (bus_unsubscribe name b))
        \<and> bus_len (bus_unsubscribe name b) + 1 = bus_len b
        \<and> (\<forall>j. j \<noteq> i \<longrightarrow> bu_heap (bus_unsubscribe name b) ! j = bu_heap b ! j))"
proof (cases "find (\<lambda>i. sb_name (bu_heap b ! i) = name) (bu_subs b)")
  case (Some i)
  then have i: "i \<in> set (bu_subs b)" by (auto simp: find_Some_iff)
  moreover from i have "0 < length (bu_subs b)" by (cases "bu_subs b") simp_all
  ultimately show ?thesis
    using Some bus_inv_reach [OF assms]
    by (auto simp: bus_inv_def bus_unsubscribe_def bus_len_def length_remove1)
qed (simp add: bus_unsubscribe_def)

theorem unsubscribe_once_witness:
  "bus_len (bus_unsubscribe ''orchestrator'' sample_bus) + 1 = bus_len sample_bus"
proof -
  have "find (\<lambda>i. sb_name (bu_heap sample_bus ! i) = ''orchestrator'') (bu_subs sample_bus) = Some 0"
    by (simp add: sample_bus_def publish_def publish_send_def publish_copy_def bus_subscribe_def new_bus_def
        new_subscriber_def offer_def run_take_def)
  with unsubscribe_once [OF sample_bus_reach, of "''orchestrator''"] show ?thesis by simp
qed

end
