(* ===== verification/JX_Shell.thy ===== *)
theory JX_Shell
  imports JX_Strings
begin

text \<open>
  \<open>runtime/tools/shell.go\<close>: the commands the model may ask for, run directly (no shell) under a timeout.
  A process is the environment: \<open>exec\<close> says what running a binary with its arguments produced. The
  definitions return, beside the result, the processes that were started.
\<close>

record command_spec =
  cs_bin :: string
  cs_args :: "string list"

definition command_specs :: "(string \<times> command_spec) list" where
  "command_specs =
     [(''docker ps'', \<lparr>cs_bin = ''docker'', cs_args = [''ps'']\<rparr>),
      (''docker stats'', \<lparr>cs_bin = ''docker'', cs_args = [''stats'', ''--no-stream'']\<rparr>),
      (''uptime'', \<lparr>cs_bin = ''uptime'', cs_args = []\<rparr>),
      (''df -h'', \<lparr>cs_bin = ''df'', cs_args = [''-h'']\<rparr>),
      (''free -h'', \<lparr>cs_bin = ''free'', cs_args = [''-h'']\<rparr>)]"

definition windows_specs :: "(string \<times> command_spec) list" where
  "windows_specs =
     [(''uptime'', \<lparr>cs_bin = ''cmd'', cs_args = [''/C'', ''net statistics workstation'']\<rparr>),
      (''df -h'', \<lparr>cs_bin = ''wmic'', cs_args = [''logicaldisk'', ''get'', ''size,freespace,caption'']\<rparr>),
      (''free -h'', \<lparr>cs_bin = ''wmic'', cs_args = [''OS'', ''get'', ''FreePhysicalMemory,TotalVisibleMemorySize'']\<rparr>)]"

record command_result =
  rs_Command :: string
  rs_Output :: string
  rs_Error :: string
  rs_Duration :: duration
  rs_Success :: bool
  rs_TimedOut :: bool

definition not_allowed :: "string \<Rightarrow> command_result" where
  "not_allowed cmd =
     \<lparr>rs_Command = cmd, rs_Output = [],
      rs_Error = ''commande non autoris'' @ e_acute @ ''e : '' @ [CHR 0x27] @ cmd @ [CHR 0x27],
      rs_Duration = 0, rs_Success = False, rs_TimedOut = False\<rparr>"

definition execute_command_dry_run :: "string \<Rightarrow> command_result" where
  "execute_command_dry_run cmd0 =
     (let cmd = trim_space cmd0 in
      case map_of command_specs cmd of
        None \<Rightarrow> not_allowed cmd
      | Some _ \<Rightarrow>
          \<lparr>rs_Command = cmd, rs_Output = ''[dry-run] commande simul'' @ e_acute @ ''e'', rs_Error = [],
           rs_Duration = 0, rs_Success = True, rs_TimedOut = False\<rparr>)"

text \<open>What a process did: whether the deadline passed, \<open>Run\<close>'s error, and what it printed.\<close>

record proc_outcome =
  po_deadline :: bool
  po_err :: "string option"
  po_stdout :: string
  po_stderr :: string
  po_time :: duration

definition run_direct :: "proc_outcome \<Rightarrow> string + (string \<times> bool)" where
  "run_direct o1 =
     (if po_deadline o1 then Inr ([], True)
      else case po_err o1 of
        Some err \<Rightarrow> Inl (trim_space (if po_stderr o1 = [] then err else po_stderr o1))
      | None \<Rightarrow> Inr (trim_space (po_stdout o1), False))"

definition choose_spec :: "bool \<Rightarrow> string \<Rightarrow> command_spec option" where
  "choose_spec windows cmd =
     (case map_of command_specs cmd of
        None \<Rightarrow> None
      | Some spec \<Rightarrow>
          if windows then (case map_of windows_specs cmd of Some w \<Rightarrow> Some w | None \<Rightarrow> Some spec)
          else Some spec)"

definition execute_command_with_timeout ::
  "bool \<Rightarrow> (command_spec \<Rightarrow> proc_outcome) \<Rightarrow> string \<Rightarrow> duration \<Rightarrow> command_result \<times> command_spec list" where
  "execute_command_with_timeout windows exec cmd0 timeout =
     (let cmd = trim_space cmd0 in
      case choose_spec windows cmd of
        None \<Rightarrow> (not_allowed cmd, [])
      | Some spec \<Rightarrow>
          let base = \<lparr>rs_Command = cmd, rs_Output = [], rs_Error = [], rs_Duration = po_time (exec spec),
                      rs_Success = False, rs_TimedOut = False\<rparr>
          in (case run_direct (exec spec) of
                Inl e \<Rightarrow> base\<lparr>rs_Error := e\<rparr>
              | Inr (output, timedOut) \<Rightarrow>
                  if timedOut
                  then base\<lparr>rs_Error := ''timeout apr'' @ e_grave @ ''s '' @ show_duration timeout, rs_TimedOut := True\<rparr>
                  else base\<lparr>rs_Output := output, rs_Success := True\<rparr>, [spec]))"

definition default_command_timeout :: duration where
  "default_command_timeout = 10 * second"

definition execute_command ::
  "bool \<Rightarrow> (command_spec \<Rightarrow> proc_outcome) \<Rightarrow> string \<Rightarrow> command_result \<times> command_spec list" where
  "execute_command windows exec cmd = execute_command_with_timeout windows exec cmd default_command_timeout"

definition truncate_at :: "string \<Rightarrow> nat \<Rightarrow> string" where
  "truncate_at s mx = (if length s \<le> mx then s else take mx s @ ''...'')"

section \<open>Facts\<close>

definition allowed_specs :: "command_spec set" where
  "allowed_specs = set (map snd command_specs) \<union> set (map snd windows_specs)"

lemma choose_spec_allowed: "choose_spec windows cmd = Some spec \<Longrightarrow> spec \<in> allowed_specs"
  by (auto simp: choose_spec_def allowed_specs_def split: option.splits if_splits
      dest!: map_of_SomeD intro: image_eqI [where f = snd, OF snd_conv [symmetric]])

lemma choose_spec_None [simp]: "choose_spec windows cmd = None \<longleftrightarrow> map_of command_specs cmd = None"
  by (auto simp: choose_spec_def split: option.splits)

lemma choose_spec_Some: "choose_spec windows cmd = Some spec \<Longrightarrow> \<exists>s. map_of command_specs cmd = Some s"
  using choose_spec_None [of windows cmd] by auto

lemma started_allowed: "set (snd (execute_command_with_timeout windows exec cmd t)) \<subseteq> allowed_specs"
  by (auto simp: execute_command_with_timeout_def Let_def choose_spec_allowed split: option.splits)

lemma map_of_Some_dom: "map_of xs k = Some v \<Longrightarrow> k \<in> set (map fst xs)"
  by (auto dest: map_of_SomeD intro: rev_image_eqI)

lemma choose_spec_dom: "choose_spec windows cmd = Some spec \<Longrightarrow> cmd \<in> fst ` set command_specs"
  using choose_spec_Some [of windows cmd spec] map_of_Some_dom by fastforce

text \<open>
  A result says one of three things: success with the output, a timeout, or an error; and it succeeds only
  for a command of the table.
\<close>

definition result_ok :: "command_result \<Rightarrow> bool" where
  "result_ok r \<longleftrightarrow>
     (rs_Success r \<longrightarrow> \<not> rs_TimedOut r \<and> rs_Error r = [] \<and> rs_Command r \<in> set (map fst command_specs))
     \<and> (rs_TimedOut r \<longrightarrow> rs_Output r = [] \<and> rs_Error r \<noteq> [])"

lemma execute_result_ok: "result_ok (fst (execute_command_with_timeout windows exec cmd t))"
  by (auto simp: execute_command_with_timeout_def Let_def result_ok_def not_allowed_def choose_spec_def
      dest: map_of_Some_dom split: option.splits sum.splits prod.splits if_splits)

section \<open>Properties\<close>


end
