(* ===== verification/JX_Orchestrator.thy ===== *)
theory JX_Orchestrator
  imports JX_Stores JX_Logger JX_Shell
begin

text \<open>
  \<open>runtime/core/orchestrator.go\<close>: on every observation the orchestrator logs the snapshot, reads the latest
  decision from the store and runs its command, unless the condition behind it has gone, the same command
  ran too recently, or the runtime is in dry-run mode. The store, the log and the shell are the models of
  their own theories; the clock, the processes and the file system are the environment. A handler runs
  with the mutex \<open>mu\<close> held, so it is one transition; a second one that finds it held does nothing.
\<close>

section \<open>Events\<close>

datatype event_type = EventObserved | EventDecided | EventExecuted | EventLogged | EventError

datatype payload = PNone | PSnapshot snapshot | PText string | PResult command_result

record event =
  ev_Type :: event_type
  ev_Payload :: payload

section \<open>The execute guard\<close>

record execute_guard =
  gd_LastCmd :: string
  gd_lastExecAt :: time
  gd_cooldown :: duration
  gd_lastResult :: "command_result option"

definition new_guard :: "duration \<Rightarrow> execute_guard" where
  "new_guard c = \<lparr>gd_LastCmd = [], gd_lastExecAt = 0, gd_cooldown = c, gd_lastResult = None\<rparr>"

definition set_last_result :: "command_result \<Rightarrow> execute_guard \<Rightarrow> execute_guard" where
  "set_last_result r g = g\<lparr>gd_lastResult := Some r\<rparr>"

text \<open>\<open>Allow\<close> reads the clock twice: \<open>t1\<close> for the test, \<open>t2\<close> for the time it remembers.\<close>

definition guard_allow :: "time \<Rightarrow> time \<Rightarrow> string \<Rightarrow> execute_guard \<Rightarrow> bool \<times> execute_guard" where
  "guard_allow t1 t2 cmd g =
     (if cmd = gd_LastCmd g \<and> time_sub t1 (gd_lastExecAt g) < gd_cooldown g then (False, g)
      else (True, g\<lparr>gd_LastCmd := cmd, gd_lastExecAt := t2\<rparr>))"

definition cooldown_remaining :: "time \<Rightarrow> execute_guard \<Rightarrow> duration" where
  "cooldown_remaining now g =
     (let elapsed = time_sub now (gd_lastExecAt g)
      in if gd_cooldown g \<le> elapsed then 0 else wrap64 (gd_cooldown g - elapsed))"

section \<open>The orchestrator\<close>

record orchestrator =
  oc_state :: store
  oc_logger :: logger
  oc_files :: filesystem
  oc_busy :: bool
  oc_lastSnap :: snapshot
  oc_dryRun :: bool
  oc_guard :: execute_guard

definition new_orchestrator :: "store \<Rightarrow> logger \<Rightarrow> filesystem \<Rightarrow> bool \<Rightarrow> duration \<Rightarrow> orchestrator" where
  "new_orchestrator st lg fs dry cooldown =
     \<lparr>oc_state = st, oc_logger = lg, oc_files = fs, oc_busy = False, oc_lastSnap = zero_snapshot,
      oc_dryRun = dry, oc_guard = new_guard cooldown\<rparr>"

definition exec_guard_status :: "time \<Rightarrow> orchestrator \<Rightarrow> string \<times> duration" where
  "exec_guard_status now oc = (gd_LastCmd (oc_guard oc), cooldown_remaining now (oc_guard oc))"

definition zero_result :: command_result where
  "zero_result = \<lparr>rs_Command = [], rs_Output = [], rs_Error = [], rs_Duration = 0, rs_Success = False,
     rs_TimedOut = False\<rparr>"

definition last_exec_result_status :: "orchestrator \<Rightarrow> command_result \<times> bool" where
  "last_exec_result_status oc =
     (case gd_lastResult (oc_guard oc) of None \<Rightarrow> (zero_result, False) | Some r \<Rightarrow> (r, True))"

record agent_context =
  ac_Snapshot :: snapshot
  ac_State :: store
  ac_SimilarDecisions :: "string list"

definition make_agent_context :: "string list option \<Rightarrow> orchestrator \<Rightarrow> agent_context" where
  "make_agent_context provider oc =
     \<lparr>ac_Snapshot = oc_lastSnap oc, ac_State = oc_state oc,
      ac_SimilarDecisions = (case provider of None \<Rightarrow> [] | Some xs \<Rightarrow> xs)\<rparr>"

text \<open>The margin of \<open>shouldExecute\<close> is 5 percentage points.\<close>

definition margin :: f64 where "margin = Fin 5"

definition gone :: "f64 \<Rightarrow> f64 \<Rightarrow> bool" where
  "gone trigger current \<longleftrightarrow> f_lt (Fin 0) trigger \<and> f_lt current (f_sub trigger margin)"

definition should_execute :: "cycle_record \<Rightarrow> snapshot \<Rightarrow> bool" where
  "should_execute c s =
     (if f_eq (cr_TriggerCPU c) (Fin 0) \<and> f_eq (cr_TriggerRAM c) (Fin 0) \<and> f_eq (cr_TriggerDisk c) (Fin 0)
      then True
      else if gone (cr_TriggerCPU c) (sn_CPUPercent s) then False
      else if gone (cr_TriggerRAM c) (sn_MemPercent s) then False
      else if gone (cr_TriggerDisk c) (sn_DiskPercent s) then False
      else True)"

text \<open>What one handler meets outside: the log file's system calls, the platform, processes, the clock.\<close>

record observe_env =
  oe_zone :: "time \<Rightarrow> int"
  oe_fs :: fs_env
  oe_windows :: bool
  oe_exec :: "command_spec \<Rightarrow> proc_outcome"
  oe_t1 :: time
  oe_t2 :: time

text \<open>The part of the handler that runs the command: new guard, published events, started processes.\<close>

definition run_command ::
  "observe_env \<Rightarrow> bool \<Rightarrow> string \<Rightarrow> execute_guard \<Rightarrow> execute_guard \<times> event list \<times> command_spec list" where
  "run_command env dry cmd g0 =
     (case guard_allow (oe_t1 env) (oe_t2 env) cmd g0 of
        (False, g) \<Rightarrow> (g, [], [])
      | (True, g) \<Rightarrow>
          if dry then (set_last_result (execute_command_dry_run cmd) g, [], [])
          else (case execute_command (oe_windows env) (oe_exec env) cmd of
             (r, started) \<Rightarrow>
               (set_last_result r g, [\<lparr>ev_Type = EventExecuted, ev_Payload = PResult r\<rparr>], started)))"

definition handle_observed ::
  "observe_env \<Rightarrow> snapshot \<Rightarrow> orchestrator \<Rightarrow> orchestrator \<times> event list \<times> command_spec list" where
  "handle_observed env snap oc =
     (if oc_busy oc then (oc, [], [])
      else
        let oc1 = oc\<lparr>oc_lastSnap := snap,
                    oc_files := fst (log_write (encode_entry (oe_zone env)) (oe_fs env) (oc_logger oc) snap (oc_files oc))\<rparr>
        in (case store_last_cycles 1 (oc_state oc1) of
              Some (c # cs) \<Rightarrow>
                if cr_Command c \<noteq> [] \<and> should_execute c snap
                then (case run_command env (oc_dryRun oc1) (cr_Command c) (oc_guard oc1) of
                        (g, evs, started) \<Rightarrow> (oc1\<lparr>oc_guard := g\<rparr>, evs, started))
                else (oc1, [], [])
            | _ \<Rightarrow> (oc1, [], [])))"

text \<open>The \<open>select\<close> loop of \<open>Start\<close>: which events lead to a handler.\<close>

definition on_event :: "observe_env \<Rightarrow> event \<Rightarrow> orchestrator \<Rightarrow> orchestrator \<times> event list \<times> command_spec list" where
  "on_event env e oc =
     (case ev_Type e of
        EventObserved \<Rightarrow> (case ev_Payload e of PSnapshot s \<Rightarrow> handle_observed env s oc | _ \<Rightarrow> (oc, [], []))
      | _ \<Rightarrow> (oc, [], []))"

section \<open>Facts\<close>

lemma store_last_cycles_1: "store_last_cycles 1 s \<noteq> None"
  by (induction s) (auto simp: js_last_cycles_def go_last_eq split: option.splits)

lemma guard_allow_denied:
  "guard_allow t1 t2 cmd g = (False, g') \<longleftrightarrow>
     g' = g \<and> cmd = gd_LastCmd g \<and> time_sub t1 (gd_lastExecAt g) < gd_cooldown g"
  by (auto simp: guard_allow_def)

lemma guard_allow_granted:
  "guard_allow t1 t2 cmd g = (True, g') \<longleftrightarrow>
     g' = g\<lparr>gd_LastCmd := cmd, gd_lastExecAt := t2\<rparr>
     \<and> (cmd = gd_LastCmd g \<longrightarrow> gd_cooldown g \<le> time_sub t1 (gd_lastExecAt g))"
  by (auto simp: guard_allow_def)

lemma guard_allow_cooldown [simp]: "gd_cooldown (snd (guard_allow t1 t2 cmd g)) = gd_cooldown g"
  by (simp add: guard_allow_def)

lemma run_command_started:
  "run_command env dry cmd g = (g', evs, started) \<Longrightarrow>
     set started \<subseteq> allowed_specs \<and> length started \<le> 1 \<and> length evs \<le> 1
     \<and> (started \<noteq> [] \<longrightarrow> \<not> dry \<and> fst (guard_allow (oe_t1 env) (oe_t2 env) cmd g)
           \<and> trim_space cmd \<in> set (map fst command_specs))"
  using started_allowed [of "oe_windows env" "oe_exec env" cmd default_command_timeout]
  by (auto simp: run_command_def execute_command_def execute_command_with_timeout_def Let_def
      dest: choose_spec_dom split: prod.splits bool.splits if_splits option.splits)

text \<open>A run of the guard over requests \<open>(t1, t2, cmd)\<close>: the requests it granted.\<close>

fun guard_grants :: "execute_guard \<Rightarrow> (time \<times> time \<times> string) list \<Rightarrow> (time \<times> time \<times> string) list" where
  "guard_grants g [] = []"
| "guard_grants g ((t1, t2, cmd) # rs) =
     (case guard_allow t1 t2 cmd g of
        (True, g') \<Rightarrow> (t1, t2, cmd) # guard_grants g' rs
      | (False, g') \<Rightarrow> guard_grants g' rs)"

definition spaced :: "duration \<Rightarrow> time \<times> time \<times> string \<Rightarrow> time \<times> time \<times> string \<Rightarrow> bool" where
  "spaced c = (\<lambda>(t1, t2, cmd) (u1, u2, cmd'). cmd = cmd' \<longrightarrow> c \<le> u1 - t2)"

lemma guard_grants_spaced:
  assumes "min_duration < gd_cooldown g" "gd_cooldown g \<le> max_duration"
  shows "successively (spaced (gd_cooldown g)) ((t1, gd_lastExecAt g, gd_LastCmd g) # guard_grants g rs)"
  using assms
proof (induction rs arbitrary: g t1)
  case (Cons r rs)
  obtain u1 u2 cmd where r: "r = (u1, u2, cmd)" by (cases r)
  show ?case
  proof (cases "guard_allow u1 u2 cmd g")
    case (Pair ok g')
    show ?thesis
    proof (cases ok)
      case True
      with Pair have a: "guard_allow u1 u2 cmd g = (True, g')" by simp
      then have g': "gd_LastCmd g' = cmd" "gd_lastExecAt g' = u2" "gd_cooldown g' = gd_cooldown g"
        by (auto simp: guard_allow_granted)
      have "spaced (gd_cooldown g) (t1, gd_lastExecAt g, gd_LastCmd g) r"
        using a Cons.prems by (auto simp: spaced_def r guard_allow_granted time_sub_ge_iff)
      moreover have "successively (spaced (gd_cooldown g)) ((u1, u2, cmd) # guard_grants g' rs)"
        using Cons.IH [of g' u1] Cons.prems by (simp add: g')
      ultimately show ?thesis by (simp add: r a)
    next
      case False
      with Pair have "guard_allow u1 u2 cmd g = (False, g)" by (auto simp: guard_allow_denied)
      with Cons.IH [of g t1] Cons.prems show ?thesis by (simp add: r)
    qed
  qed
qed simp

text \<open>What the contract of a store gives its reader, in the fields the orchestrator uses.\<close>

context decision_store
begin

lemma latest_fields:
  assumes "invar s" "ok r" "cr_CycleNum r = 0"
  shows "\<exists>c. last_cycles 1 (fst (add_cycle r s)) = Some [c] \<and> cr_Command c = cr_Command r
     \<and> (\<forall>snap. should_execute c snap = should_execute r snap)"
proof -
  from last_add_cycle [OF assms] obtain c where
    c: "last_cycles 1 (fst (add_cycle r s)) = Some [c]"
      "cycle_view c = cycle_view (r\<lparr>cr_CycleNum := current s + 1\<rparr>)" by blast
  have "cr_Command (cycle_view c) = cr_Command r" "cr_TriggerCPU (cycle_view c) = cr_TriggerCPU r"
    "cr_TriggerRAM (cycle_view c) = cr_TriggerRAM r" "cr_TriggerDisk (cycle_view c) = cr_TriggerDisk r"
    unfolding c(2) by simp_all
  then have f: "cr_Command c = cr_Command r" "cr_TriggerCPU c = cr_TriggerCPU r"
    "cr_TriggerRAM c = cr_TriggerRAM r" "cr_TriggerDisk c = cr_TriggerDisk r"
    by (simp_all only: cycle_view_simps)
  have "should_execute c snap = should_execute r snap" for snap
    by (simp only: should_execute_def f)
  with c(1) f(1) show ?thesis by blast
qed

end

lemma handle_after_decision:
  assumes "wf_store s" "cycle_ok r" "cr_CycleNum r = 0" "\<not> oc_busy oc"
    and "oc_state oc = fst (store_add_cycle r s)"
  shows "snd (handle_observed env snap oc) =
    (if cr_Command r \<noteq> [] \<and> should_execute r snap
     then snd (run_command env (oc_dryRun oc) (cr_Command r) (oc_guard oc)) else ([], []))"
proof -
  from st.latest_fields [OF assms(1-3)] obtain c where
    c: "store_last_cycles 1 (oc_state oc) = Some [c]" "cr_Command c = cr_Command r"
      "should_execute c snap = should_execute r snap"
    unfolding assms(5) by blast
  show ?thesis
    using assms(4) c by (simp add: handle_observed_def Let_def split: prod.split)
qed

section \<open>Properties\<close>

text \<open>C3: what the runtime may run. On any observation, in any state and environment, at most one process is
  started, it is one of the whitelist, and only when the handler was free, the runtime is not in dry-run
  mode, the latest stored decision carries that command, the condition behind it still holds and the guard
  grants it.\<close>
theorem execution_is_gated:
  assumes "handle_observed env snap oc = (oc', evs, started)" "started \<noteq> []"
  shows "set started \<subseteq> allowed_specs \<and> length started = 1
     \<and> \<not> oc_busy oc \<and> \<not> oc_dryRun oc
     \<and> (\<exists>c cs. store_last_cycles 1 (oc_state oc) = Some (c # cs) \<and> should_execute c snap
          \<and> trim_space (cr_Command c) \<in> set (map fst command_specs)
          \<and> fst (guard_allow (oe_t1 env) (oe_t2 env) (cr_Command c) (oc_guard oc)))"
proof -
  obtain c cs where c: "store_last_cycles 1 (oc_state oc) = Some (c # cs)" "should_execute c snap" "\<not> oc_busy oc"
    and r: "run_command env (oc_dryRun oc) (cr_Command c) (oc_guard oc) = (oc_guard oc', evs, started)"
    using assms by (auto simp: handle_observed_def Let_def split: if_splits option.splits list.splits prod.splits)
  from run_command_started [OF r] assms(2) c show ?thesis
    by (cases started) auto
qed

definition sample_exec :: "command_spec \<Rightarrow> proc_outcome" where
  "sample_exec s = \<lparr>po_deadline = False, po_err = None, po_stdout = ''up 3 days'', po_stderr = [], po_time = 5\<rparr>"

definition sample_observe_env :: observe_env where
  "sample_observe_env = \<lparr>oe_zone = utc, oe_fs = working_fs, oe_windows = False, oe_exec = sample_exec,
     oe_t1 = 100 * hour, oe_t2 = 100 * hour\<rparr>"

definition sample_orchestrator :: orchestrator where
  "sample_orchestrator =
     new_orchestrator (fst (store_add_cycle (sample_cycle ''uptime'') (SJson (empty_state ''s''))))
       (new_logger ''metrics.jsonl'') Map.empty False (5 * minute)"

lemma uptime_runs:
  "snd (snd (handle_observed sample_observe_env zero_snapshot sample_orchestrator))
     = [\<lparr>cs_bin = ''uptime'', cs_args = []\<rparr>]"
  by code_simp

theorem execution_is_gated_witness:
  "\<not> oc_dryRun sample_orchestrator"
proof -
  let ?r = "handle_observed sample_observe_env zero_snapshot sample_orchestrator"
  have "?r = (fst ?r, fst (snd ?r), snd (snd ?r))" by simp
  from execution_is_gated [OF this] show ?thesis unfolding uptime_runs by simp
qed

text \<open>The guard spaces repetitions. In any sequence of requests, two granted requests in a row for the same
  command are at least the cooldown apart.\<close>
theorem guard_spaces_repetitions:
  assumes "min_duration < gd_cooldown g" "gd_cooldown g \<le> max_duration"
  shows "successively (spaced (gd_cooldown g)) (guard_grants g rs)"
  using guard_grants_spaced [OF assms, of 0 rs] by (auto simp: successively_Cons)

theorem guard_spaces_repetitions_witness:
  "successively (spaced 10) (guard_grants (new_guard 10) [(1, 1, ''uptime''), (5, 5, ''uptime''), (11, 11, ''uptime'')])
   \<and> length (guard_grants (new_guard 10) [(1, 1, ''uptime''), (5, 5, ''uptime''), (11, 11, ''uptime'')]) = 2"
  using guard_spaces_repetitions [of "new_guard 10" "[(1, 1, ''uptime''), (5, 5, ''uptime''), (11, 11, ''uptime'')]"]
  by (simp add: new_guard_def min_duration_def max_duration_def guard_allow_def time_sub_def)

text \<open>the guard remembers one command only, so requests that alternate between two commands are all
  granted, however short the time between them.\<close>
theorem alternating_commands_bypass_guard:
  assumes "a \<noteq> b" "gd_LastCmd g \<noteq> a"
  shows "guard_grants g [(t1, t1, a), (t2, t2, b), (t3, t3, a), (t4, t4, b)]
     = [(t1, t1, a), (t2, t2, b), (t3, t3, a), (t4, t4, b)]"
  using assms by (auto simp: guard_allow_def)

theorem alternating_commands_bypass_guard_witness:
  "length (guard_grants (new_guard hour) [(1, 1, ''uptime''), (2, 2, ''df -h''), (3, 3, ''uptime''), (4, 4, ''df -h'')]) = 4"
  by (subst alternating_commands_bypass_guard) (simp_all add: new_guard_def)



end
