(* ===== verification/JX_Agent.thy ===== *)
theory JX_Agent
  imports JX_Circuit JX_Strings
begin

text \<open>
  What every agent is made of, \<open>runtime/agents/agent.go\<close>, and the registry that schedules agents,
  \<open>runtime/agents/registry.go\<close>. Counters are Go \<open>int\<close>s far below their bound, kept as integers. The
  registry sees an agent through its base; one tick of an agent's goroutine is one transition.
\<close>

section \<open>The base of an agent\<close>

record base_agent =
  ba_name :: string
  ba_schedule :: duration
  ba_enabled :: bool
  ba_lastRun :: time
  ba_lastError :: string
  ba_runCount :: int
  ba_errorCount :: int
  ba_alertCount :: int

definition new_base_agent :: "string \<Rightarrow> duration \<Rightarrow> base_agent" where
  "new_base_agent name schedule =
     \<lparr>ba_name = name, ba_schedule = schedule, ba_enabled = True, ba_lastRun = 0, ba_lastError = [],
      ba_runCount = 0, ba_errorCount = 0, ba_alertCount = 0\<rparr>"

definition ba_enable :: "base_agent \<Rightarrow> base_agent" where
  "ba_enable b = b\<lparr>ba_enabled := True\<rparr>"

definition ba_disable :: "base_agent \<Rightarrow> base_agent" where
  "ba_disable b = b\<lparr>ba_enabled := False\<rparr>"

record agent_status =
  st_Name :: string
  st_Enabled :: bool
  st_LastRun :: time
  st_LastError :: string
  st_RunCount :: int
  st_ErrorCount :: int
  st_AlertCount :: int
  st_Schedule :: duration

definition ba_status :: "base_agent \<Rightarrow> agent_status" where
  "ba_status b =
     \<lparr>st_Name = ba_name b, st_Enabled = ba_enabled b, st_LastRun = ba_lastRun b,
      st_LastError = ba_lastError b, st_RunCount = ba_runCount b, st_ErrorCount = ba_errorCount b,
      st_AlertCount = ba_alertCount b, st_Schedule = ba_schedule b\<rparr>"

definition record_success :: "time \<Rightarrow> base_agent \<Rightarrow> base_agent" where
  "record_success now b = b\<lparr>ba_lastRun := now, ba_runCount := ba_runCount b + 1, ba_lastError := []\<rparr>"

definition record_error :: "time \<Rightarrow> string \<Rightarrow> base_agent \<Rightarrow> base_agent" where
  "record_error now err b =
     b\<lparr>ba_lastRun := now, ba_runCount := ba_runCount b + 1, ba_errorCount := ba_errorCount b + 1,
       ba_lastError := err\<rparr>"

definition record_alert :: "time \<Rightarrow> base_agent \<Rightarrow> base_agent" where
  "record_alert now b =
     b\<lparr>ba_lastRun := now, ba_runCount := ba_runCount b + 1, ba_alertCount := ba_alertCount b + 1,
       ba_lastError := []\<rparr>"

text \<open>Runs are successes, errors and alerts, each counted once.\<close>

definition ba_inv :: "base_agent \<Rightarrow> bool" where
  "ba_inv b \<longleftrightarrow> 0 \<le> ba_errorCount b \<and> 0 \<le> ba_alertCount b
     \<and> ba_errorCount b + ba_alertCount b \<le> ba_runCount b"

lemma ba_inv_new [simp]: "ba_inv (new_base_agent n s)"
  by (simp add: ba_inv_def new_base_agent_def)

text \<open>What a run may do to the base of its agent: nothing but record at most one outcome.\<close>

definition ba_step :: "base_agent \<Rightarrow> base_agent \<Rightarrow> bool" where
  "ba_step b b' \<longleftrightarrow> b' = b \<or> (\<exists>now. b' = record_success now b) \<or> (\<exists>now. b' = record_alert now b)
     \<or> (\<exists>now err. b' = record_error now err b)"

lemma ba_step_intros [simp]:
  "ba_step b b" "ba_step b (record_success now b)" "ba_step b (record_alert now b)"
  "ba_step b (record_error now err b)"
  by (auto simp: ba_step_def)

lemma ba_step_frame:
  "ba_step b b' \<Longrightarrow> ba_name b' = ba_name b \<and> ba_schedule b' = ba_schedule b \<and> ba_enabled b' = ba_enabled b"
  by (auto simp: ba_step_def record_success_def record_alert_def record_error_def)

lemma ba_step_counts:
  "ba_step b b' \<Longrightarrow> ba_runCount b \<le> ba_runCount b' \<and> ba_runCount b' \<le> ba_runCount b + 1
     \<and> (ba_inv b \<longrightarrow> ba_inv b')"
  by (auto simp: ba_step_def record_success_def record_alert_def record_error_def ba_inv_def)

section \<open>The contract of an agent\<close>

text \<open>
  The registry schedules any agent whose run touches the base only by recording one outcome. \<open>run\<close> takes
  what the run meets outside.
\<close>

locale agent =
  fixes base :: "'s \<Rightarrow> base_agent" and run :: "'i \<Rightarrow> 's \<Rightarrow> 's"
  assumes run_records: "ba_step (base s) (base (run i s))"
begin

lemma run_frame:
  "ba_name (base (run i s)) = ba_name (base s)" "ba_enabled (base (run i s)) = ba_enabled (base s)"
  "ba_schedule (base (run i s)) = ba_schedule (base s)"
  using ba_step_frame [OF run_records] by simp_all

lemma runs_inv:
  "ba_inv (base s) \<Longrightarrow> s' = foldl (\<lambda>s i. run i s) s is \<Longrightarrow>
     ba_inv (base s') \<and> ba_name (base s') = ba_name (base s)
     \<and> ba_runCount (base s) \<le> ba_runCount (base s')
     \<and> ba_runCount (base s') \<le> ba_runCount (base s) + int (length is)"
proof (induction "is" arbitrary: s' rule: rev_induct)
  case (snoc i js)
  let ?s = "foldl (\<lambda>s i. run i s) s js"
  from snoc have "ba_inv (base ?s) \<and> ba_name (base ?s) = ba_name (base s)
     \<and> ba_runCount (base s) \<le> ba_runCount (base ?s)
     \<and> ba_runCount (base ?s) \<le> ba_runCount (base s) + int (length js)" by blast
  moreover note ba_step_counts [OF run_records [of ?s i]] run_frame(1) [of i ?s]
  ultimately show ?case by (simp add: snoc.prems(2))
qed simp

end

section \<open>The registry\<close>

text \<open>A registered agent: its base, and the breaker of its Ollama client if it is the system agent.\<close>

record agent_slot =
  sl_base :: base_agent
  sl_circuit :: "circuit_breaker option"

type_synonym registry = "agent_slot list"

definition registry_register :: "agent_slot \<Rightarrow> registry \<Rightarrow> registry" where
  "registry_register a r = r @ [a]"

definition registry_get :: "string \<Rightarrow> registry \<Rightarrow> agent_slot option" where
  "registry_get name r = find (\<lambda>a. ba_name (sl_base a) = name) r"

fun update_first :: "('a \<Rightarrow> bool) \<Rightarrow> ('a \<Rightarrow> 'a) \<Rightarrow> 'a list \<Rightarrow> 'a list" where
  "update_first P f [] = []"
| "update_first P f (x # xs) = (if P x then f x # xs else x # update_first P f xs)"

definition registry_enable :: "string \<Rightarrow> registry \<Rightarrow> registry \<times> bool" where
  "registry_enable name r =
     (case registry_get name r of
        None \<Rightarrow> (r, False)
      | Some _ \<Rightarrow>
          (update_first (\<lambda>a. ba_name (sl_base a) = name) (\<lambda>a. a\<lparr>sl_base := ba_enable (sl_base a)\<rparr>) r, True))"

definition registry_disable :: "string \<Rightarrow> registry \<Rightarrow> registry \<times> bool" where
  "registry_disable name r =
     (case registry_get name r of
        None \<Rightarrow> (r, False)
      | Some _ \<Rightarrow>
          (update_first (\<lambda>a. ba_name (sl_base a) = name) (\<lambda>a. a\<lparr>sl_base := ba_disable (sl_base a)\<rparr>) r, True))"

definition registry_statuses :: "registry \<Rightarrow> agent_status list" where
  "registry_statuses r = map (\<lambda>a. ba_status (sl_base a)) r"

definition registry_circuit_stats :: "registry \<Rightarrow> circuit_stats option" where
  "registry_circuit_stats r =
     (case find (\<lambda>a. sl_circuit a \<noteq> None) r of
        None \<Rightarrow> None | Some a \<Rightarrow> map_option cb_stats (sl_circuit a))"

text \<open>
  One tick of \<open>runAgent\<close>: a disabled agent is skipped; an error is logged; a panic is recovered and leaves
  the agent as the panicking run left it. \<open>run\<close> returns the agent and how the run ended.
\<close>

datatype run_end = RunOk | RunError string | RunPanic string

definition agent_tick :: "(agent_slot \<Rightarrow> agent_slot \<times> run_end) \<Rightarrow> agent_slot \<Rightarrow> agent_slot \<times> string list" where
  "agent_tick run a =
     (if \<not> ba_enabled (sl_base a) then (a, [])
      else case run a of
        (a', RunOk) \<Rightarrow> (a', [])
      | (a', RunError e) \<Rightarrow> (a', [''Erreur agent '' @ ba_name (sl_base a) @ '' : '' @ e])
      | (a', RunPanic e) \<Rightarrow> (a', [''Panic dans '' @ ba_name (sl_base a) @ '' : '' @ e]))"

section \<open>Facts\<close>

lemma length_update_first [simp]: "length (update_first P f xs) = length xs"
  by (induction xs) simp_all

lemma find_update_first:
  "(\<And>x. P x \<Longrightarrow> P (f x)) \<Longrightarrow> find P (update_first P f xs) = map_option f (find P xs)"
  by (induction xs) simp_all

lemma find_update_other:
  "(\<And>x. Q x \<Longrightarrow> \<not> P x) \<Longrightarrow> (\<And>x. P x \<Longrightarrow> \<not> Q (f x)) \<Longrightarrow> find Q (update_first P f xs) = find Q xs"
  by (induction xs) auto

lemma map_update_first: "(\<And>x. P x \<Longrightarrow> g (f x) = g x) \<Longrightarrow> map g (update_first P f xs) = map g xs"
  by (induction xs) simp_all

lemma ba_toggle_simps [simp]:
  "ba_name (ba_enable b) = ba_name b" "ba_name (ba_disable b) = ba_name b"
  "ba_enabled (ba_enable b)" "\<not> ba_enabled (ba_disable b)"
  by (simp_all add: ba_enable_def ba_disable_def)

lemmas registry_defs = registry_enable_def registry_disable_def registry_get_def

section \<open>Properties\<close>

text \<open>\<open>Enable\<close> and \<open>Disable\<close> succeed exactly for a registered name, change only the first agent of that
  name and in it only the flag, which the next \<open>Get\<close> sees; order and all other agents stay, and a disabled
  agent's tick does nothing until it is enabled again.\<close>
theorem registry_toggle:
  assumes "registry_get name r = Some a" "(r1, ok1) = registry_disable name r" "(r2, ok2) = registry_enable name r1"
  shows "ok1 \<and> ok2
     \<and> registry_get name r1 = Some (a\<lparr>sl_base := ba_disable (sl_base a)\<rparr>)
     \<and> registry_get name r2 = Some (a\<lparr>sl_base := ba_enable (ba_disable (sl_base a))\<rparr>)
     \<and> (\<forall>other. other \<noteq> name \<longrightarrow> registry_get other r2 = registry_get other r)
     \<and> map (st_Name) (registry_statuses r2) = map st_Name (registry_statuses r)
     \<and> (\<forall>run. agent_tick run (the (registry_get name r1)) = (the (registry_get name r1), []))"
proof -
  let ?P = "\<lambda>a. ba_name (sl_base a) = name"
  let ?d = "\<lambda>a. a\<lparr>sl_base := ba_disable (sl_base a)\<rparr>" and ?e = "\<lambda>a. a\<lparr>sl_base := ba_enable (sl_base a)\<rparr>"
  have r1: "r1 = update_first ?P ?d r" "ok1"
    using assms(1,2) by (simp_all add: registry_disable_def)
  have g1: "registry_get name r1 = Some (?d a)"
    using assms(1) find_update_first [of ?P ?d r] by (simp add: r1 registry_get_def)
  have r2: "r2 = update_first ?P ?e r1" "ok2"
    using g1 assms(3) by (simp_all add: registry_enable_def)
  have g2: "registry_get name r2 = Some (?e (?d a))"
    using g1 find_update_first [of ?P ?e r1] by (simp add: r2 registry_get_def)
  have "registry_get other r2 = registry_get other r" if "other \<noteq> name" for other
    using that find_update_other [of "\<lambda>a. ba_name (sl_base a) = other" ?P ?e r1]
      find_update_other [of "\<lambda>a. ba_name (sl_base a) = other" ?P ?d r]
    by (simp add: registry_get_def r1 r2)
  moreover have "map (\<lambda>a. ba_name (sl_base a)) r2 = map (\<lambda>a. ba_name (sl_base a)) r"
    unfolding r1 r2 by (simp add: map_update_first)
  ultimately show ?thesis
    using g1 g2 r1(2) r2(2)
    by (simp add: registry_statuses_def ba_status_def agent_tick_def o_def)
qed

definition sample_slot :: "string \<Rightarrow> agent_slot" where
  "sample_slot name = \<lparr>sl_base = new_base_agent name (15 * second), sl_circuit = None\<rparr>"

theorem registry_toggle_witness:
  "registry_get ''alert'' (fst (registry_disable ''alert'' [sample_slot ''system'', sample_slot ''alert'']))
     = Some ((sample_slot ''alert'')\<lparr>sl_base := ba_disable (sl_base (sample_slot ''alert''))\<rparr>)"
  by (rule registry_toggle [where r = "[sample_slot ''system'', sample_slot ''alert'']" and name = "''alert''",
        OF _ prod.collapse prod.collapse,
        THEN conjunct2, THEN conjunct2, THEN conjunct1])
    (simp add: registry_get_def sample_slot_def new_base_agent_def)

end
