(* ===== verification/JX_Alert.thy ===== *)
theory JX_Alert
  imports JX_Agent JX_Memory JX_Logger JX_Codec JX_Http
begin

text \<open>
  The alert agent, \<open>runtime/agents/alert_agent.go\<close>, and the notification channels it drives,
  \<open>runtime/agents/notifier.go\<close>. An alert is raised from the stream of snapshots, written to its file and
  sent to every registered channel. Sending returns the HTTP request that was made; the bodies are JSON
  values with the keys in the order \<open>json.Marshal\<close> gives a map. The line of an alert in its file is what
  \<open>Encoder.Encode\<close> writes for the struct, in the zone of the host. \<open>rfc3339\<close> is \<open>Time.Format(time.RFC3339)\<close>,
  which depends on the zone of the host. Terminal output is not modelled.
\<close>

section \<open>Alerts\<close>

type_synonym alert_level = string

definition AlertWarning :: alert_level where "AlertWarning = ''warning''"
definition AlertCritical :: alert_level where "AlertCritical = ''critical''"

record alert =
  al_Timestamp :: time
  al_Level :: alert_level
  al_Metric :: string
  al_Value :: f64
  al_Threshold :: f64
  al_Message :: string
  al_CyclesAbove :: int

text \<open>The struct's tags, the line written for an alert, and the alert read from a line.\<close>

definition alert_fields :: "(time \<Rightarrow> int) \<Rightarrow> alert field list" where
  "alert_fields zone =
     [fld ''timestamp'' always (write_time zone) read_time al_Timestamp al_Timestamp_update,
      fld ''level'' always write_string read_string al_Level al_Level_update,
      fld ''metric'' always write_string read_string al_Metric al_Metric_update,
      float_fld ''value'' always al_Value al_Value_update,
      float_fld ''threshold'' always al_Threshold al_Threshold_update,
      fld ''message'' always write_string read_string al_Message al_Message_update,
      fld ''cycles_above'' always write_int (read_num atoi) al_CyclesAbove al_CyclesAbove_update]"

definition zero_alert :: alert where
  "zero_alert =
     \<lparr>al_Timestamp = 0, al_Level = [], al_Metric = [], al_Value = Fin 0, al_Threshold = Fin 0, al_Message = [],
      al_CyclesAbove = 0\<rparr>"

definition encode_alert :: "(time \<Rightarrow> int) \<Rightarrow> alert \<Rightarrow> string option" where
  "encode_alert zone a = map_option json_line (write_struct (alert_fields zone) a)"

definition decode_alert :: "string \<Rightarrow> alert option" where
  "decode_alert line =
     (case parse_json line of
        None \<Rightarrow> None
      | Some v \<Rightarrow> (case read_struct (alert_fields utc) v zero_alert of (a, w) \<Rightarrow> if w = Fits then Some a else None))"

definition alert_ok :: "(time \<Rightarrow> int) \<Rightarrow> alert \<Rightarrow> bool" where
  "alert_ok zone a \<longleftrightarrow> time_ok zone (al_Timestamp a) \<and> float_ok (al_Value a) \<and> float_ok (al_Threshold a)
     \<and> int_ok (al_CyclesAbove a) \<and> list_all valid_utf8 [al_Level a, al_Metric a, al_Message a]"

lemma read_alert_zone: "read_struct (alert_fields zone) = read_struct (alert_fields utc)"
  by (rule read_struct_cong) (simp add: alert_fields_def fld_def)

lemma alert_round_trips:
  assumes "alert_ok zone a"
  shows "round_trips 1 (write_struct (alert_fields zone)) (read_struct (alert_fields zone)) zero_alert a"
proof -
  have "table_ok (alert_fields zone)" unfolding alert_fields_def table_ok_def fld_def by code_simp
  moreover have "steps 0 (alert_fields zone) a zero_alert a"
    unfolding alert_fields_def zero_alert_def
    by (intro steps_fld steps_Nil) (use assms in \<open>simp_all add: value_round_trips alert_ok_def\<close>)
  ultimately show ?thesis using struct_round_trips by fastforce
qed

lemma decode_encode_alert:
  assumes "alert_ok zone a"
  shows "\<exists>line. encode_alert zone a = Some (line @ nl) \<and> CHR 0x0A \<notin> set line \<and> line \<noteq> [] \<and> last line = CHR ''}''
    \<and> decode_alert line = Some a"
proof -
  obtain j where j: "write_struct (alert_fields zone) a = Some j" "numbers_ok j" "json_depth j \<le> 1"
    "read_struct (alert_fields utc) (clean_json j) zero_alert = (a, Fits)"
    using alert_round_trips [OF assms] by (auto simp: round_trips_def read_alert_zone [of zone])
  have "json_depth j \<le> max_nesting" using j(3) by (simp add: max_nesting_def)
  from compact.parse_json_print(1) [OF j(2) this, of 0] j have "decode_alert (json_text j) = Some a"
    by (simp add: decode_alert_def json_text_def)
  moreover obtain ms where "j = JObj ms" using j(1) by (auto simp: write_struct_def)
  ultimately show ?thesis
    using json_text_line [OF j(2)] last_object_text j(1) by (auto simp: encode_alert_def json_line_def)
qed

section \<open>Channels\<close>

datatype notifier =
    DiscordNotifier (discord_url: string)
  | SlackNotifier (slack_url: string)
  | NtfyNotifier (ntfy_server: string) (ntfy_topic: string)
  | GotifyNotifier (gotify_server: string) (gotify_token: string)

fun notifier_name :: "notifier \<Rightarrow> string" where
  "notifier_name (DiscordNotifier _) = ''discord''"
| "notifier_name (SlackNotifier _) = ''slack''"
| "notifier_name (NtfyNotifier _ _) = ''ntfy''"
| "notifier_name (GotifyNotifier _ _) = ''gotify''"

datatype body = JsonBody json | TextBody string

record http_request =
  rq_URL :: string
  rq_Headers :: "(string \<times> string) list"
  rq_Body :: body

datatype notify_error = NotifyCreate string | NotifyPost string | NotifyStatus string int

definition jbool :: "bool \<Rightarrow> json" where "jbool b = JBool b"
definition jint :: "int \<Rightarrow> json" where "jint n = JNum (show_int n)"

definition percent :: "f64 \<Rightarrow> string" where
  "percent x = fmt_f 1 x @ ''%''"

definition discord_field :: "string \<Rightarrow> string \<Rightarrow> json" where
  "discord_field name value =
     JObj [(''inline'', JBool True), (''name'', JStr name), (''value'', JStr value)]"

definition discord_body :: "(time \<Rightarrow> string) \<Rightarrow> alert \<Rightarrow> json" where
  "discord_body rfc3339 a =
     JObj [(''embeds'', JArr [JObj
        [(''color'', jint (if al_Level a = AlertCritical then 16711680 else 16776960)),
         (''description'', JStr (al_Message a)),
         (''fields'', JArr [discord_field ''Valeur'' (percent (al_Value a)),
                            discord_field ''Seuil'' (percent (al_Threshold a)),
                            discord_field ''Cycles'' (show_int (al_CyclesAbove a))]),
         (''footer'', JObj [(''text'', JStr (''JARVINx '' @ middle_dot @ '' Autonomous Agent Runtime''))]),
         (''timestamp'', JStr (rfc3339 (al_Timestamp a))),
         (''title'', JStr
            ((if al_Level a = AlertCritical then [CHR 0xF0, CHR 0x9F, CHR 0x9A, CHR 0xA8]
              else warn_sign @ [CHR 0xEF, CHR 0xB8, CHR 0x8F]) @ '' '' @ al_Level a
             @ '' '' @ em_dash @ '' '' @ al_Metric a))]]),
      (''username'', JStr ''JARVINx'')]"

definition slack_body :: "alert \<Rightarrow> json" where
  "slack_body a =
     JObj [(''text'', JStr
        ((if al_Level a = AlertCritical then '':rotating_light:'' else '':warning:'')
         @ '' *'' @ al_Level a @ '' '' @ em_dash @ '' '' @ al_Metric a @ ''*'' @ nl
         @ al_Message a @ nl
         @ ''Valeur: '' @ [CHR 0x60] @ percent (al_Value a) @ [CHR 0x60]
         @ '' | Seuil: '' @ [CHR 0x60] @ percent (al_Threshold a) @ [CHR 0x60]))]"

definition gotify_body :: "alert \<Rightarrow> json" where
  "gotify_body a =
     JObj [(''message'', JStr (al_Message a)),
           (''priority'', jint (if al_Level a = AlertCritical then 10 else 5)),
           (''title'', JStr (''JARVINx '' @ em_dash @ '' '' @ al_Level a @ '' '' @ al_Metric a))]"

fun notifier_request :: "(time \<Rightarrow> string) \<Rightarrow> notifier \<Rightarrow> alert \<Rightarrow> http_request" where
  "notifier_request rfc3339 (DiscordNotifier url) a =
     \<lparr>rq_URL = url, rq_Headers = [(''Content-Type'', ''application/json'')], rq_Body = JsonBody (discord_body rfc3339 a)\<rparr>"
| "notifier_request rfc3339 (SlackNotifier url) a =
     \<lparr>rq_URL = url, rq_Headers = [(''Content-Type'', ''application/json'')], rq_Body = JsonBody (slack_body a)\<rparr>"
| "notifier_request rfc3339 (NtfyNotifier server topic) a =
     \<lparr>rq_URL = server @ ''/'' @ topic,
      rq_Headers = [(''Title'', ''JARVINx '' @ em_dash @ '' '' @ al_Level a @ '' '' @ al_Metric a),
                    (''Priority'', if al_Level a = AlertCritical then ''urgent'' else ''default''),
                    (''Tags'', ''jarvinx,alert'')],
      rq_Body = TextBody (al_Message a)\<rparr>"
| "notifier_request rfc3339 (GotifyNotifier server token) a =
     \<lparr>rq_URL = server @ ''/message'',
      rq_Headers = [(''Content-Type'', ''application/json''), (''X-Gotify-Key'', token)],
      rq_Body = JsonBody (gotify_body a)\<rparr>"

definition expected_status :: "notifier \<Rightarrow> int" where
  "expected_status n = (case n of DiscordNotifier _ \<Rightarrow> status_no_content | _ \<Rightarrow> status_ok)"

text \<open>\<open>Send\<close>: \<open>client.Post\<close> reports a URL it cannot parse as a failed post.\<close>

definition notifier_send :: "notifier \<Rightarrow> http_result \<Rightarrow> notify_error option" where
  "notifier_send n res =
     (case res of
        HttpRequestError e \<Rightarrow>
          Some (case n of NtfyNotifier _ _ \<Rightarrow> NotifyCreate e | GotifyNotifier _ _ \<Rightarrow> NotifyCreate e | _ \<Rightarrow> NotifyPost e)
      | HttpTransportError e \<Rightarrow> Some (NotifyPost e)
      | HttpResponse status _ \<Rightarrow>
          if status \<noteq> expected_status n then Some (NotifyStatus (notifier_name n) status) else None)"

record dispatcher =
  dp_notifiers :: "notifier list"
  dp_dryRun :: bool

definition new_dispatcher :: "bool \<Rightarrow> dispatcher" where
  "new_dispatcher dry = \<lparr>dp_notifiers = [], dp_dryRun = dry\<rparr>"

definition dp_register :: "notifier \<Rightarrow> dispatcher \<Rightarrow> dispatcher" where
  "dp_register n d = d\<lparr>dp_notifiers := dp_notifiers d @ [n]\<rparr>"

datatype delivery = Simulated string | Sent notifier http_request "notify_error option"

definition dispatch ::
  "(time \<Rightarrow> string) \<Rightarrow> (notifier \<Rightarrow> http_request \<Rightarrow> http_result) \<Rightarrow> dispatcher \<Rightarrow> alert \<Rightarrow> delivery list" where
  "dispatch rfc3339 http d a =
     map (\<lambda>n. if dp_dryRun d then Simulated (notifier_name n)
              else let rq = notifier_request rfc3339 n a in Sent n rq (notifier_send n (http n rq)))
       (dp_notifiers d)"

section \<open>The agent\<close>

record alert_state =
  as_CPUCycles :: int
  as_RAMCycles :: int
  as_LastAlertCPU :: int
  as_LastAlertRAM :: int
  as_LastAlertDsk :: int
  as_CurrentCycle :: int

record alert_agent =
  aa_base :: base_agent
  aa_cpuThreshold :: f64
  aa_ramThreshold :: f64
  aa_diskThreshold :: f64
  aa_minCycles :: int
  aa_cooldown :: int
  aa_alertFile :: string
  aa_dispatcher :: dispatcher
  aa_state :: alert_state

definition new_alert_agent :: "f64 \<Rightarrow> f64 \<Rightarrow> f64 \<Rightarrow> int \<Rightarrow> int \<Rightarrow> string \<Rightarrow> dispatcher \<Rightarrow> alert_agent" where
  "new_alert_agent cpuT ramT diskT minCycles cooldown path d =
     \<lparr>aa_base = new_base_agent ''alert'' (15 * second), aa_cpuThreshold = cpuT, aa_ramThreshold = ramT,
      aa_diskThreshold = diskT, aa_minCycles = minCycles, aa_cooldown = cooldown, aa_alertFile = path,
      aa_dispatcher = d,
      aa_state = \<lparr>as_CPUCycles = 0, as_RAMCycles = 0, as_LastAlertCPU = -999, as_LastAlertRAM = -999,
        as_LastAlertDsk = -999, as_CurrentCycle = 0\<rparr>\<rparr>"

text \<open>
  The treatment that CPU and RAM share: the length of the current streak and the cycle of the last alert;
  the first component says whether an alert is raised now.
\<close>

definition track :: "int \<Rightarrow> int \<Rightarrow> int \<Rightarrow> bool \<Rightarrow> int \<times> int \<Rightarrow> bool \<times> int \<times> int" where
  "track minCycles cooldown cur over st =
     (case st of (cycles, lst) \<Rightarrow>
        if over then
          (if minCycles \<le> cycles + 1 \<and> cooldown \<le> cur - lst
           then (True, cycles + 1, cur) else (False, cycles + 1, lst))
        else (False, 0, lst))"

definition streak_message :: "string \<Rightarrow> f64 \<Rightarrow> int \<Rightarrow> string" where
  "streak_message metric v n =
     metric @ '' a '' @ fmt_f 1 v @ ''% depuis '' @ show_int n @ '' cycles consecutifs''"

definition streak_alert :: "time \<Rightarrow> string \<Rightarrow> f64 \<Rightarrow> f64 \<Rightarrow> int \<Rightarrow> alert" where
  "streak_alert ts metric v thr n =
     \<lparr>al_Timestamp = ts, al_Level = AlertCritical, al_Metric = metric, al_Value = v, al_Threshold = thr,
      al_Message = streak_message metric v n, al_CyclesAbove = n\<rparr>"

definition disk_alert :: "time \<Rightarrow> f64 \<Rightarrow> f64 \<Rightarrow> alert" where
  "disk_alert ts v thr =
     \<lparr>al_Timestamp = ts, al_Level = AlertWarning, al_Metric = ''DISK'', al_Value = v, al_Threshold = thr,
      al_Message = ''Disque a '' @ fmt_f 1 v @ ''% - cleanup recommended'', al_CyclesAbove = 0\<rparr>"

definition analyze :: "snapshot \<Rightarrow> alert_agent \<Rightarrow> alert_agent \<times> alert list" where
  "analyze snap a =
     (let s = aa_state a; cur = as_CurrentCycle s + 1; ts = sn_Timestamp snap;
          (cpu, cpuCycles, lastCPU) =
            track (aa_minCycles a) (aa_cooldown a) cur (f_ge (sn_CPUPercent snap) (aa_cpuThreshold a))
              (as_CPUCycles s, as_LastAlertCPU s);
          (ram, ramCycles, lastRAM) =
            track (aa_minCycles a) (aa_cooldown a) cur (f_ge (sn_MemPercent snap) (aa_ramThreshold a))
              (as_RAMCycles s, as_LastAlertRAM s);
          disk = (f_ge (sn_DiskPercent snap) (aa_diskThreshold a) \<and> aa_cooldown a \<le> cur - as_LastAlertDsk s)
      in (a\<lparr>aa_state := \<lparr>as_CPUCycles = cpuCycles, as_RAMCycles = ramCycles, as_LastAlertCPU = lastCPU,
              as_LastAlertRAM = lastRAM, as_LastAlertDsk = (if disk then cur else as_LastAlertDsk s),
              as_CurrentCycle = cur\<rparr>\<rparr>,
          (if cpu then [streak_alert ts ''CPU'' (sn_CPUPercent snap) (aa_cpuThreshold a) cpuCycles] else [])
          @ (if ram then [streak_alert ts ''RAM'' (sn_MemPercent snap) (aa_ramThreshold a) ramCycles] else [])
          @ (if disk then [disk_alert ts (sn_DiskPercent snap) (aa_diskThreshold a)] else [])))"

text \<open>\<open>logAlert\<close> appends to the alert file itself; it does not go through the rotating logger.\<close>

definition log_alert :: "(time \<Rightarrow> int) \<Rightarrow> fs_env \<Rightarrow> string \<Rightarrow> alert \<Rightarrow> filesystem \<Rightarrow> filesystem" where
  "log_alert zone env p a fs =
     (if fe_open env p then fs
      else case encode_alert zone a of
        None \<Rightarrow> fs(p \<mapsto> file_of fs p)
      | Some line \<Rightarrow> fs(p \<mapsto> file_of fs p @ (case fe_short env of Some n \<Rightarrow> take n line | None \<Rightarrow> line)))"

text \<open>What one run of the agent meets outside.\<close>

record alert_env =
  ae_snapshot :: snapshot
  ae_zone :: "time \<Rightarrow> int"
  ae_fsenv :: fs_env
  ae_rfc3339 :: "time \<Rightarrow> string"
  ae_send :: "notifier \<Rightarrow> http_request \<Rightarrow> http_result"
  ae_clock :: time

definition dispatch_alerts ::
  "alert_env \<Rightarrow> alert_agent \<Rightarrow> alert list \<Rightarrow> filesystem \<Rightarrow> filesystem \<times> delivery list" where
  "dispatch_alerts env a alerts fs =
     (foldl (\<lambda>fs al. log_alert (ae_zone env) (ae_fsenv env) (aa_alertFile a) al fs) fs alerts,
      concat (map (dispatch (ae_rfc3339 env) (ae_send env) (aa_dispatcher a)) alerts))"

definition alert_run :: "alert_env \<Rightarrow> alert_agent \<times> filesystem \<Rightarrow> (alert_agent \<times> filesystem) \<times> delivery list" where
  "alert_run env s =
     (case analyze (ae_snapshot env) (fst s) of
        (a, alerts) \<Rightarrow>
          if alerts = [] then ((a\<lparr>aa_base := record_success (ae_clock env) (aa_base a)\<rparr>, snd s), [])
          else (case dispatch_alerts env a alerts (snd s) of
                  (fs, ds) \<Rightarrow> ((a\<lparr>aa_base := record_alert (ae_clock env) (aa_base a)\<rparr>, fs), ds)))"

lemma analyze_base [simp]: "aa_base (fst (analyze snap a)) = aa_base a"
  by (simp add: analyze_def Let_def split: prod.split)

interpretation alert: agent "\<lambda>s. aa_base (fst s)" "\<lambda>env s. fst (alert_run env s)"
proof unfold_locales
  fix s :: "alert_agent \<times> filesystem" and env
  show "ba_step (aa_base (fst s)) (aa_base (fst (fst (alert_run env s))))"
    by (cases "analyze (ae_snapshot env) (fst s)")
      (auto simp: alert_run_def analyze_base [of "ae_snapshot env" "fst s", symmetric] split: prod.split)
qed

section \<open>The tracker over a stream\<close>

fun fires :: "int \<Rightarrow> int \<Rightarrow> int \<times> int \<Rightarrow> int \<Rightarrow> bool list \<Rightarrow> bool list" where
  "fires m c st cur [] = []"
| "fires m c st cur (b # bs) =
     (case track m c (cur + 1) b st of (f, st') \<Rightarrow> f # fires m c st' (cur + 1) bs)"

lemma length_fires [simp]: "length (fires m c st cur bs) = length bs"
  by (induction bs arbitrary: st cur) (auto split: prod.split)

lemma fires_after_last:
  "lst \<le> cur \<Longrightarrow> j < length bs \<Longrightarrow> fires m c (cyc, lst) cur bs ! j \<Longrightarrow> c \<le> cur + 1 + int j - lst"
proof (induction bs arbitrary: cyc lst cur j)
  case (Cons b bs)
  obtain f cyc' lst' where t: "track m c (cur + 1) b (cyc, lst) = (f, cyc', lst')" by (metis prod_cases3)
  then have l: "lst \<le> lst'" "lst' \<le> cur + 1" and f: "f \<longrightarrow> c \<le> cur + 1 - lst"
    using Cons.prems(1) by (auto simp: track_def split: if_splits)
  show ?case
  proof (cases j)
    case 0
    with Cons.prems(3) t f show ?thesis by simp
  next
    case (Suc k)
    with Cons.prems t l Cons.IH [of lst' "cur + 1" k cyc'] show ?thesis by simp
  qed
qed simp

lemma fires_spaced:
  "lst \<le> cur \<Longrightarrow> i < j \<Longrightarrow> j < length bs \<Longrightarrow>
     fires m c (cyc, lst) cur bs ! i \<Longrightarrow> fires m c (cyc, lst) cur bs ! j \<Longrightarrow> c \<le> int j - int i"
proof (induction bs arbitrary: cyc lst cur i j)
  case (Cons b bs)
  obtain f cyc' lst' where t: "track m c (cur + 1) b (cyc, lst) = (f, cyc', lst')" by (metis prod_cases3)
  then have l: "lst' \<le> cur + 1" and f: "f \<longrightarrow> lst' = cur + 1"
    using Cons.prems(1) by (auto simp: track_def split: if_splits)
  obtain k where k: "j = Suc k" using Cons.prems(2) by (cases j) simp_all
  show ?case
  proof (cases i)
    case 0
    with Cons.prems t f k show ?thesis using fires_after_last [of lst' "cur + 1" k bs m c cyc'] by simp
  next
    case (Suc h)
    with Cons.prems t l k Cons.IH [of lst' "cur + 1" h k cyc'] show ?thesis by simp
  qed
qed simp

lemma fires_streak:
  "0 \<le> cyc \<Longrightarrow> i < length bs \<Longrightarrow> fires m c (cyc, lst) cur bs ! i \<Longrightarrow>
     bs ! i \<and> m \<le> cyc + int i + 1 \<and> (\<forall>k\<le>i. int i - int k < m \<longrightarrow> bs ! k)"
proof (induction bs arbitrary: cyc lst cur i)
  case (Cons b bs)
  obtain f cyc' lst' where t: "track m c (cur + 1) b (cyc, lst) = (f, cyc', lst')" by (metis prod_cases3)
  then have cyc': "cyc' = (if b then cyc + 1 else 0)" and f: "f \<longrightarrow> b \<and> m \<le> cyc + 1"
    by (auto simp: track_def split: if_splits)
  show ?case
  proof (cases i)
    case 0
    with Cons.prems t f show ?thesis by simp
  next
    case (Suc h)
    with Cons.prems t have "fires m c (cyc', lst') (cur + 1) bs ! h" by simp
    with Cons.IH [of cyc' h lst' "cur + 1"] Cons.prems Suc cyc'
    have ih: "bs ! h" "m \<le> cyc' + int h + 1" "\<forall>k\<le>h. int h - int k < m \<longrightarrow> bs ! k" by auto
    have "(b # bs) ! k" if "k \<le> i" "int i - int k < m" for k
      using that ih cyc' Suc by (cases k) (auto split: if_splits)
    moreover have "m \<le> cyc + int i + 1" using ih(2) cyc' Suc Cons.prems(1) by (simp split: if_splits)
    ultimately show ?thesis using ih(1) Suc by simp
  qed
qed simp

text \<open>Under a lasting overload the tracker fires when the streak is long enough, then every \<open>c\<close> cycles.\<close>

lemma fires_periodic:
  assumes "1 \<le> c" "m \<le> n" "n - lst < c" "lst \<le> n" "(lst - m) mod c = 0" "i < k"
  shows "fires m c (n, lst) n (replicate k True) ! i \<longleftrightarrow> (n + 1 + int i - m) mod c = 0"
  using assms
proof (induction k arbitrary: n lst i)
  case (Suc k)
  note prems = Suc.prems and IH = Suc.IH
  have fire_now: "c \<le> n + 1 - lst \<longleftrightarrow> (n + 1 - m) mod c = 0"
  proof -
    have "(n + 1 - m) mod c = ((lst - m) mod c + (n + 1 - lst)) mod c" by (simp add: mod_add_left_eq)
    also have "\<dots> = (n + 1 - lst) mod c" using Suc.prems(5) by simp
    finally have e: "(n + 1 - m) mod c = (n + 1 - lst) mod c" .
    show ?thesis
    proof (cases "n + 1 - lst = c")
      case True
      then show ?thesis using e by simp
    next
      case False
      then have "0 < n + 1 - lst" "n + 1 - lst < c" using Suc.prems by simp_all
      then show ?thesis using e by (simp add: mod_pos_pos_trivial)
    qed
  qed
  let ?lst = "if c \<le> n + 1 - lst then n + 1 else lst"
  have t: "track m c (n + 1) True (n, lst) = (c \<le> n + 1 - lst, n + 1, ?lst)"
    using Suc.prems by (simp add: track_def)
  show ?case
  proof (cases i)
    case 0
    with t fire_now show ?thesis by simp
  next
    case (Suc h)
    have "fires m c (n + 1, ?lst) (n + 1) (replicate k True) ! h \<longleftrightarrow> (n + 1 + 1 + int h - m) mod c = 0"
      using prems fire_now \<open>i = Suc h\<close> by (intro IH) auto
    with t Suc show ?thesis by (simp add: algebra_simps)
  qed
qed simp

lemma fires_schedule:
  assumes "1 \<le> c" "c \<le> m - lst" "n < m" "i < k"
  shows "fires m c (n, lst) n (replicate k True) ! i \<longleftrightarrow> m \<le> n + 1 + int i \<and> (n + 1 + int i - m) mod c = 0"
  using assms
proof (induction k arbitrary: n i)
  case (Suc k)
  show ?case
  proof (cases "n + 1 = m")
    case True
    with Suc.prems have t: "track m c (n + 1) True (n, lst) = (True, m, m)" by (simp add: track_def)
    show ?thesis
    proof (cases i)
      case 0
      with t True show ?thesis by simp
    next
      case (Suc h)
      have "fires m c (m, m) m (replicate k True) ! h \<longleftrightarrow> (m + 1 + int h - m) mod c = 0"
        using \<open>1 \<le> c\<close> Suc.prems Suc by (intro fires_periodic) auto
      with t True Suc show ?thesis by (simp add: algebra_simps)
    qed
  next
    case False
    with Suc.prems have t: "track m c (n + 1) True (n, lst) = (False, n + 1, lst)" by (simp add: track_def)
    show ?thesis
    proof (cases i)
      case 0
      with t False Suc.prems show ?thesis by simp
    next
      case (Suc h)
      with t False Suc.prems Suc.IH [of "n + 1" h] show ?thesis by (simp add: algebra_simps)
    qed
  qed
qed simp

section \<open>The agent over a stream of snapshots\<close>

fun alert_trace :: "alert_agent \<Rightarrow> snapshot list \<Rightarrow> alert list list" where
  "alert_trace a [] = []"
| "alert_trace a (s # ss) = (case analyze s a of (a', als) \<Rightarrow> als # alert_trace a' ss)"

definition raised :: "string \<Rightarrow> alert list \<Rightarrow> bool" where
  "raised metric als \<longleftrightarrow> list_ex (\<lambda>al. al_Metric al = metric) als"

lemma raised_simps [simp]:
  "raised metric [] = False" "raised metric (al # als) = (al_Metric al = metric \<or> raised metric als)"
  "raised metric (xs @ ys) = (raised metric xs \<or> raised metric ys)"
  "raised metric (if b then xs else []) = (b \<and> raised metric xs)"
  "al_Metric (streak_alert ts metric v thr n) = metric" "al_Metric (disk_alert ts v thr) = ''DISK''"
  by (simp_all add: raised_def streak_alert_def disk_alert_def)

definition over_threshold :: "alert_agent \<Rightarrow> string \<Rightarrow> snapshot \<Rightarrow> bool" where
  "over_threshold a metric s =
     (if metric = ''CPU'' then f_ge (sn_CPUPercent s) (aa_cpuThreshold a)
      else f_ge (sn_MemPercent s) (aa_ramThreshold a))"

definition tracker_state :: "alert_agent \<Rightarrow> string \<Rightarrow> int \<times> int" where
  "tracker_state a metric =
     (if metric = ''CPU'' then (as_CPUCycles (aa_state a), as_LastAlertCPU (aa_state a))
      else (as_RAMCycles (aa_state a), as_LastAlertRAM (aa_state a)))"

lemma analyze_tracks:
  assumes "metric \<in> {''CPU'', ''RAM''}" "analyze s a = (a', als)"
  shows "track (aa_minCycles a) (aa_cooldown a) (as_CurrentCycle (aa_state a) + 1) (over_threshold a metric s)
      (tracker_state a metric) = (raised metric als, tracker_state a' metric)
    \<and> as_CurrentCycle (aa_state a') = as_CurrentCycle (aa_state a) + 1
    \<and> aa_minCycles a' = aa_minCycles a \<and> aa_cooldown a' = aa_cooldown a
    \<and> over_threshold a' metric = over_threshold a metric"
  using assms
  by (auto simp: analyze_def Let_def over_threshold_def tracker_state_def fun_eq_iff split: prod.splits)

lemma trace_fires:
  assumes "metric \<in> {''CPU'', ''RAM''}"
  shows "map (raised metric) (alert_trace a ss) =
    fires (aa_minCycles a) (aa_cooldown a) (tracker_state a metric) (as_CurrentCycle (aa_state a))
      (map (over_threshold a metric) ss)"
proof (induction ss arbitrary: a)
  case (Cons s ss)
  obtain a' als where an: "analyze s a = (a', als)" by fastforce
  from analyze_tracks [OF assms an] Cons [of a'] an show ?case by simp
qed simp

lemma length_alert_trace [simp]: "length (alert_trace a ss) = length ss"
  by (induction ss arbitrary: a) (auto split: prod.split)

lemma raised_fires:
  assumes "metric \<in> {''CPU'', ''RAM''}" "i < length ss"
  shows "raised metric (alert_trace (new_alert_agent cpuT ramT diskT m c path d) ss ! i)
    \<longleftrightarrow> fires m c (0, -999) 0 (map (over_threshold (new_alert_agent cpuT ramT diskT m c path d) metric) ss) ! i"
  using arg_cong [where f = "\<lambda>xs. xs ! i", OF trace_fires [OF assms(1), of "new_alert_agent cpuT ramT diskT m c path d" ss]]
    assms(2)
  by (simp add: new_alert_agent_def tracker_state_def)

section \<open>Properties\<close>

text \<open>C17: alerts are raised on streaks and spaced. Over any stream of snapshots, a CPU or RAM alert of a new
  agent is raised only when the metric was at or above its threshold for the last \<open>minCycles\<close> snapshots, and
  two alerts for the same metric are at least \<open>cooldown\<close> snapshots apart.\<close>
theorem alerts_on_streaks_and_spaced:
  assumes "metric \<in> {''CPU'', ''RAM''}" "a = new_alert_agent cpuT ramT diskT minCycles cooldown path d"
    and "j < length ss" "raised metric (alert_trace a ss ! j)"
  shows "over_threshold a metric (ss ! j) \<and> minCycles \<le> int j + 1
     \<and> (\<forall>k\<le>j. int j - int k < minCycles \<longrightarrow> over_threshold a metric (ss ! k))
     \<and> (\<forall>i<j. raised metric (alert_trace a ss ! i) \<longrightarrow> cooldown \<le> int j - int i)"
proof -
  let ?bs = "map (over_threshold a metric) ss"
  have r: "i < length ss \<Longrightarrow> raised metric (alert_trace a ss ! i) \<longleftrightarrow> fires minCycles cooldown (0, -999) 0 ?bs ! i" for i
    unfolding assms(2) by (rule raised_fires [OF assms(1)])
  have f: "fires minCycles cooldown (0, -999) 0 ?bs ! j" using r assms(3,4) by blast
  have "?bs ! j \<and> minCycles \<le> 0 + int j + 1 \<and> (\<forall>k\<le>j. int j - int k < minCycles \<longrightarrow> ?bs ! k)"
    by (rule fires_streak [OF _ _ f]) (use assms(3) in simp_all)
  moreover have "cooldown \<le> int j - int i" if "i < j" "raised metric (alert_trace a ss ! i)" for i
    using that r assms(3) f by (intro fires_spaced [of "-999" 0 i j ?bs minCycles cooldown 0]) auto
  ultimately show ?thesis using assms(3) by auto
qed

definition hot :: snapshot where "hot = zero_snapshot\<lparr>sn_CPUPercent := Fin 97\<rparr>"

definition sample_alert_agent :: alert_agent where
  "sample_alert_agent = new_alert_agent (Fin 90) (Fin 90) (Fin 90) 3 4 ''alerts.jsonl'' (new_dispatcher False)"

lemma hot_trace:
  "map (raised ''CPU'') (alert_trace sample_alert_agent (replicate 8 hot))
     = [False, False, True, False, False, False, True, False]"
  by code_simp

theorem alerts_on_streaks_and_spaced_witness:
  "over_threshold sample_alert_agent ''CPU'' (replicate 8 hot ! 6)"
proof -
  have "map (raised ''CPU'') (alert_trace sample_alert_agent (replicate 8 hot)) ! 6"
    unfolding hot_trace by simp
  then have "raised ''CPU'' (alert_trace sample_alert_agent (replicate 8 hot) ! 6)" by simp
  from alerts_on_streaks_and_spaced [OF _ sample_alert_agent_def _ this] show ?thesis by simp
qed



text \<open>C32: delivery. In dry-run mode no request leaves the runtime; otherwise every alert is sent exactly once
  to every registered channel, in registration order, whatever the others answered; and with a working
  file the alert file grows by exactly the lines of the alerts.\<close>
theorem alert_delivery:
  assumes "analyze (ae_snapshot env) a = (a1, als)" "alert_run env (a, fs) = ((a', fs'), ds)"
  shows "(dp_dryRun (aa_dispatcher a) \<longrightarrow> (\<forall>x\<in>set ds. \<exists>n. x = Simulated n))
     \<and> (\<not> dp_dryRun (aa_dispatcher a) \<longrightarrow>
          map (\<lambda>x. case x of Sent n rq _ \<Rightarrow> Some (n, rq) | Simulated _ \<Rightarrow> None) ds
            = concat (map (\<lambda>al. map (\<lambda>n. Some (n, notifier_request (ae_rfc3339 env) n al))
                (dp_notifiers (aa_dispatcher a))) als))
     \<and> (\<not> fe_open (ae_fsenv env) (aa_alertFile a) \<longrightarrow> fe_short (ae_fsenv env) = None \<longrightarrow>
          (\<forall>al\<in>set als. encode_alert (ae_zone env) al \<noteq> None) \<longrightarrow>
          file_of fs' (aa_alertFile a) = file_of fs (aa_alertFile a) @ concat (map (\<lambda>al. the (encode_alert (ae_zone env) al)) als))"
proof -
  have a1: "aa_dispatcher a1 = aa_dispatcher a" "aa_alertFile a1 = aa_alertFile a"
    using assms(1) by (auto simp: analyze_def Let_def split: prod.splits)
  have ds: "ds = concat (map (dispatch (ae_rfc3339 env) (ae_send env) (aa_dispatcher a)) als)"
    using assms by (auto simp: alert_run_def dispatch_alerts_def a1 split: if_splits)
  have fs': "fs' = foldl (\<lambda>fs al. log_alert (ae_zone env) (ae_fsenv env) (aa_alertFile a) al fs) fs als"
    using assms by (auto simp: alert_run_def dispatch_alerts_def a1 split: if_splits)
  have log: "file_of (foldl (\<lambda>fs al. log_alert (ae_zone env) (ae_fsenv env) (aa_alertFile a) al fs) fs als) (aa_alertFile a)
      = file_of fs (aa_alertFile a) @ concat (map (\<lambda>al. the (encode_alert (ae_zone env) al)) als)"
    if "\<not> fe_open (ae_fsenv env) (aa_alertFile a)" "fe_short (ae_fsenv env) = None"
      "\<forall>al\<in>set als. encode_alert (ae_zone env) al \<noteq> None" for als fs
    using that by (induction als arbitrary: fs) (auto simp: log_alert_def)
  show ?thesis
    unfolding ds fs' using log by (auto simp: dispatch_def Let_def map_concat o_def)
qed

theorem alert_delivery_witness:
  "\<exists>r. snd (alert_run \<lparr>ae_snapshot = zero_snapshot\<lparr>sn_DiskPercent := Fin 95\<rparr>, ae_zone = utc,
        ae_fsenv = working_fs, ae_rfc3339 = (\<lambda>_. ''t''), ae_send = (\<lambda>_ _. HttpTransportError ''down''), ae_clock = 5\<rparr>
      (sample_alert_agent\<lparr>aa_dispatcher := dp_register (SlackNotifier ''u'') (new_dispatcher True)\<rparr>, Map.empty))
    = [Simulated r]"
proof -
  let ?env = "\<lparr>ae_snapshot = zero_snapshot\<lparr>sn_DiskPercent := Fin 95\<rparr>, ae_zone = utc,
        ae_fsenv = working_fs, ae_rfc3339 = (\<lambda>_. ''t''), ae_send = (\<lambda>_ _. HttpTransportError ''down''), ae_clock = 5\<rparr>"
  let ?a = "sample_alert_agent\<lparr>aa_dispatcher := dp_register (SlackNotifier ''u'') (new_dispatcher True)\<rparr>"
  let ?r = "alert_run ?env (?a, Map.empty)"
  have d: "dp_dryRun (aa_dispatcher ?a)" by (simp add: dp_register_def new_dispatcher_def)
  have "\<forall>x\<in>set (snd ?r). \<exists>n. x = Simulated n"
    using alert_delivery [of ?env ?a "fst (analyze (ae_snapshot ?env) ?a)" "snd (analyze (ae_snapshot ?env) ?a)"
        Map.empty "fst (fst ?r)" "snd (fst ?r)" "snd ?r"] d by simp
  moreover have "length (snd ?r) = 1"
    by (simp add: alert_run_def dispatch_alerts_def dispatch_def dp_register_def new_dispatcher_def sample_alert_agent_def
        new_alert_agent_def new_base_agent_def analyze_def track_def zero_snapshot_def Let_def)
  ultimately show ?thesis by (cases "snd ?r") auto
qed

section \<open>The alert file of a session\<close>

definition alert_session :: "alert_env list \<Rightarrow> alert_agent \<times> filesystem \<Rightarrow> alert_agent \<times> filesystem" where
  "alert_session envs s = foldl (\<lambda>s env. fst (alert_run env s)) s envs"

definition alert_writes :: "(time \<Rightarrow> int) \<Rightarrow> string \<Rightarrow> alert_env \<Rightarrow> bool" where
  "alert_writes zone p env \<longleftrightarrow>
     ae_zone env = zone \<and> \<not> fe_open (ae_fsenv env) p \<and> fe_short (ae_fsenv env) = None"

lemma analyze_frame:
  "analyze s (a\<lparr>aa_base := b\<rparr>) = (fst (analyze s a)\<lparr>aa_base := b\<rparr>, snd (analyze s a))"
  "aa_alertFile (fst (analyze s a)) = aa_alertFile a"
  by (simp_all add: analyze_def Let_def split: prod.split)

lemma alert_trace_frame [simp]: "alert_trace (a\<lparr>aa_base := b\<rparr>) ss = alert_trace a ss"
  by (induction ss arbitrary: a) (simp_all add: analyze_frame split: prod.split)

lemma log_alerts_file:
  assumes "\<not> fe_open env p" "fe_short env = None" "list_all (\<lambda>al. encode_alert zone al \<noteq> None) als"
  shows "file_of (foldl (\<lambda>fs al. log_alert zone env p al fs) fs als) p
    = file_of fs p @ concat (map (\<lambda>al. the (encode_alert zone al)) als)"
  using assms by (induction als arbitrary: fs) (auto simp: log_alert_def)

lemma log_alerts_none: "als = [] \<Longrightarrow> foldl (\<lambda>fs al. log_alert zone env p al fs) fs als = fs"
  by simp

lemma alert_session_file:
  assumes "list_all (alert_writes zone (aa_alertFile a)) envs"
    and "list_all (\<lambda>al. encode_alert zone al \<noteq> None) (concat (alert_trace a (map ae_snapshot envs)))"
    and "alert_session envs (a, fs) = (a', fs')"
  shows "file_of fs' (aa_alertFile a) = file_of fs (aa_alertFile a)
    @ concat (map (\<lambda>al. the (encode_alert zone al)) (concat (alert_trace a (map ae_snapshot envs))))"
  using assms
proof (induction envs arbitrary: a fs)
  case (Cons env envs)
  let ?p = "aa_alertFile a"
  obtain a1 als where an: "analyze (ae_snapshot env) a = (a1, als)" by (cases "analyze (ae_snapshot env) a")
  have p1: "aa_alertFile a1 = ?p" using analyze_frame(2) [of "ae_snapshot env" a] an by simp
  obtain b fs1 where r: "fst (alert_run env (a, fs)) = (a1\<lparr>aa_base := b\<rparr>, fs1)"
    and f1: "fs1 = foldl (\<lambda>fs al. log_alert zone (ae_fsenv env) ?p al fs) fs als"
    using an Cons.prems(1) p1 by (cases "als = []") (auto simp: alert_run_def dispatch_alerts_def alert_writes_def)
  have w: "\<not> fe_open (ae_fsenv env) ?p" "fe_short (ae_fsenv env) = None"
    using Cons.prems(1) by (simp_all add: alert_writes_def)
  have tr: "alert_trace a (map ae_snapshot (env # envs)) = als # alert_trace (a1\<lparr>aa_base := b\<rparr>) (map ae_snapshot envs)"
    using an by simp
  have "file_of fs1 ?p = file_of fs ?p @ concat (map (\<lambda>al. the (encode_alert zone al)) als)"
    unfolding f1 using log_alerts_file [OF w, of zone als fs] Cons.prems(2) an by simp
  moreover have "file_of fs' ?p = file_of fs1 ?p @ concat (map (\<lambda>al. the (encode_alert zone al))
      (concat (alert_trace (a1\<lparr>aa_base := b\<rparr>) (map ae_snapshot envs))))"
    using Cons.IH [of "a1\<lparr>aa_base := b\<rparr>" fs1] Cons.prems tr r p1 by (simp add: alert_session_def)
  ultimately show ?case unfolding tr by simp
qed (simp add: alert_session_def)

text \<open>Every alert that is raised can be written.\<close>

lemma ascii_append [simp]: "valid_utf8 s \<Longrightarrow> list_all (\<lambda>c. byte c < 0x80) r \<Longrightarrow> valid_utf8 (r @ s)"
  by (induction r) simp_all

lemma fmt_f_ascii: "list_all (\<lambda>c. byte c < 0x80) (fmt_f n x)"
proof -
  have "list_all (\<lambda>c. byte c < 0x80) (fmt_fixed n q)" for q
    using show_nat_digits by (auto simp: fmt_fixed_def Let_def intro!: digits_ascii)
  then show ?thesis by (cases x) simp_all
qed

lemma show_int_ascii: "list_all (\<lambda>c. byte c < 0x80) (show_int i)"
  using show_nat_digits by (auto simp: show_int_def intro!: digits_ascii)

lemma streak_message_valid: "list_all (\<lambda>c. byte c < 0x80) m \<Longrightarrow> valid_utf8 (streak_message m v n)"
  by (intro ascii_valid) (simp add: streak_message_def fmt_f_ascii show_int_ascii)

lemma track_cases:
  "track m c cur over (n, l) = (b, n', l') \<Longrightarrow> (n' = 0 \<or> n' = n + 1) \<and> (b \<longrightarrow> n' = n + 1)"
  by (auto simp: track_def split: if_splits)

lemma raised_alert_ok:
  assumes "al \<in> set (concat (alert_trace a ss))"
    and "list_all (snapshot_ok zone) ss" "list_all float_ok [aa_cpuThreshold a, aa_ramThreshold a, aa_diskThreshold a]"
    and "0 \<le> as_CPUCycles (aa_state a)" "0 \<le> as_RAMCycles (aa_state a)"
    and "as_CPUCycles (aa_state a) + int (length ss) < 2 ^ 63" "as_RAMCycles (aa_state a) + int (length ss) < 2 ^ 63"
  shows "alert_ok zone al"
  using assms
proof (induction ss arbitrary: a)
  case (Cons s ss)
  obtain a1 als where an: "analyze s a = (a1, als)" by (cases "analyze s a")
  let ?st = "aa_state a" and ?st1 = "aa_state a1"
  let ?cur = "as_CurrentCycle ?st + 1"
  obtain cpu n1 l1 where t1: "track (aa_minCycles a) (aa_cooldown a) ?cur (f_ge (sn_CPUPercent s) (aa_cpuThreshold a))
      (as_CPUCycles ?st, as_LastAlertCPU ?st) = (cpu, n1, l1)" by (metis prod_cases3)
  obtain ram n2 l2 where t2: "track (aa_minCycles a) (aa_cooldown a) ?cur (f_ge (sn_MemPercent s) (aa_ramThreshold a))
      (as_RAMCycles ?st, as_LastAlertRAM ?st) = (ram, n2, l2)" by (metis prod_cases3)
  note n = track_cases [OF t1] track_cases [OF t2]
  have fr: "aa_cpuThreshold a1 = aa_cpuThreshold a" "aa_ramThreshold a1 = aa_ramThreshold a"
    "aa_diskThreshold a1 = aa_diskThreshold a" "as_CPUCycles ?st1 = n1" "as_RAMCycles ?st1 = n2"
    using an by (auto simp: analyze_def Let_def t1 t2)
  show ?case
  proof (cases "al \<in> set als")
    case True
    have ok: "snapshot_ok zone s" using Cons.prems(2) by simp
    have b: "int_ok (as_CPUCycles ?st + 1)" "int_ok (as_RAMCycles ?st + 1)" "int_ok 0"
      using Cons.prems(4-7) by (simp_all add: int_ok_def)
    have v: "valid_utf8 (''Disque a '' @ fmt_f 1 x @ ''% - cleanup recommended'')" for x
      by (intro ascii_valid) (simp add: fmt_f_ascii)
    have "als = (if cpu then [streak_alert (sn_Timestamp s) ''CPU'' (sn_CPUPercent s) (aa_cpuThreshold a) n1] else [])
        @ (if ram then [streak_alert (sn_Timestamp s) ''RAM'' (sn_MemPercent s) (aa_ramThreshold a) n2] else [])
        @ (if f_ge (sn_DiskPercent s) (aa_diskThreshold a) \<and> aa_cooldown a \<le> ?cur - as_LastAlertDsk ?st
           then [disk_alert (sn_Timestamp s) (sn_DiskPercent s) (aa_diskThreshold a)] else [])"
      using an by (auto simp: analyze_def Let_def t1 t2)
    with True n consider
      "al = streak_alert (sn_Timestamp s) ''CPU'' (sn_CPUPercent s) (aa_cpuThreshold a) (as_CPUCycles ?st + 1)"
      | "al = streak_alert (sn_Timestamp s) ''RAM'' (sn_MemPercent s) (aa_ramThreshold a) (as_RAMCycles ?st + 1)"
      | "al = disk_alert (sn_Timestamp s) (sn_DiskPercent s) (aa_diskThreshold a)"
      by (auto split: if_splits)
    then show ?thesis
      by cases (use ok b v Cons.prems(3) in \<open>simp_all add: alert_ok_def snapshot_ok_def streak_alert_def disk_alert_def
          AlertCritical_def AlertWarning_def streak_message_valid\<close>)
  next
    case False
    with Cons.prems(1) an have "al \<in> set (concat (alert_trace a1 ss))" by simp
    moreover have "list_all (snapshot_ok zone) ss" using Cons.prems(2) by simp
    moreover have "0 \<le> n1" "0 \<le> n2" "n1 + int (length ss) < 2 ^ 63" "n2 + int (length ss) < 2 ^ 63"
      using n Cons.prems(4-7) by auto
    ultimately show ?thesis using Cons.prems(3) by (intro Cons.IH [of a1]) (simp_all only: fr)
  qed
qed simp

end
