(* ===== verification/JX_System.thy ===== *)
theory JX_System
  imports JX_Context JX_Ollama JX_Stores JX_Agent
begin

text \<open>
  The system agent, \<open>runtime/agents/system_agent.go\<close>: it asks the model for a decision about the current
  snapshot, with the recent history in the prompt, and records the decision and the snapshot in the store.
  The server's answers depend on the request, so the prompts matter.
\<close>

section \<open>The agent\<close>

record system_agent =
  sa_base :: base_agent
  sa_baseURL :: string
  sa_model :: string
  sa_circuit :: circuit_breaker
  sa_retry :: retry_config
  sa_cpuThreshold :: f64
  sa_ramThreshold :: f64
  sa_diskThreshold :: f64

definition new_system_agent :: "string \<Rightarrow> string \<Rightarrow> f64 \<Rightarrow> f64 \<Rightarrow> f64 \<Rightarrow> system_agent" where
  "new_system_agent baseURL model cpuT ramT diskT =
     \<lparr>sa_base = new_base_agent ''system'' (15 * second), sa_baseURL = baseURL, sa_model = model,
      sa_circuit = default_circuit_breaker, sa_retry = default_retry_config, sa_cpuThreshold = cpuT,
      sa_ramThreshold = ramT, sa_diskThreshold = diskT\<rparr>"

text \<open>
  What a run meets outside. \<open>se_attempts\<close> answers the attempts of a request; \<open>se_now\<close>, \<open>se_tend\<close> and
  \<open>se_clock\<close> are the clock at the breaker's check, after the last attempt and when the outcome is recorded;
  \<open>se_errText\<close> is \<open>err.Error()\<close>; \<open>se_writes\<close> says whether the state file can be written.
\<close>

record system_env =
  se_context :: context_env
  se_clockTime :: "time \<Rightarrow> string"
  se_goos :: string
  se_attempts :: "ollama_request \<Rightarrow> int \<Rightarrow> attempt_env"
  se_now :: time
  se_tend :: time
  se_clock :: time
  se_errText :: "think_failure \<Rightarrow> string"
  se_zone :: "time \<Rightarrow> int"
  se_writes :: bool
  se_similar :: "string list"
  se_snapshot :: snapshot

definition make_system_context :: "system_env \<Rightarrow> system_agent \<Rightarrow> store \<Rightarrow> system_context" where
  "make_system_context env a st =
     (let snap = se_snapshot env in
      \<lparr>sx_Timestamp = sn_Timestamp snap, sx_CPUPercent = sn_CPUPercent snap, sx_MemUsed = sn_MemUsed snap,
       sx_MemTotal = sn_MemTotal snap, sx_MemPercent = sn_MemPercent snap, sx_DiskUsed = sn_DiskUsed snap,
       sx_DiskTotal = sn_DiskTotal snap, sx_DiskPercent = sn_DiskPercent snap,
       sx_History = (case store_last 10 st of None \<Rightarrow> [] | Some xs \<Rightarrow> xs),
       sx_Cycles = (case store_last_cycles 20 st of None \<Rightarrow> [] | Some xs \<Rightarrow> xs),
       sx_CPUThreshold = sa_cpuThreshold a, sx_RAMThreshold = sa_ramThreshold a,
       sx_DiskThreshold = sa_diskThreshold a, sx_GOOS = se_goos env, sx_SimilarDecisions = se_similar env\<rparr>)"

definition system_request :: "system_env \<Rightarrow> system_agent \<Rightarrow> store \<Rightarrow> ollama_request" where
  "system_request env a st =
     (let ctx = make_system_context env a st in
      think_request (sa_baseURL a) (sa_model a) (build_adaptive_prompt (se_context env) ctx)
        (build_user_prompt (se_clockTime env) ctx))"

definition system_think ::
  "system_env \<Rightarrow> system_agent \<Rightarrow> store \<Rightarrow> (decision \<times> int \<times> think_failure option) \<times> circuit_breaker" where
  "system_think env a st =
     think_with_decision (se_now env) (se_attempts env (system_request env a st)) (se_tend env) (sa_retry a) (sa_circuit a)"

text \<open>The record of a decision: the trigger levels are kept for an execution only.\<close>

definition decision_record :: "snapshot \<Rightarrow> decision \<Rightarrow> cycle_record" where
  "decision_record snap d =
     (let r = (new_cycle_record snap (d_Action d) (d_Analysis d) (d_Reason d) (d_Command d))
                \<lparr>cr_Confidence := d_Confidence d\<rparr>
      in if d_Action d = ''execute''
         then r\<lparr>cr_TriggerCPU := sn_CPUPercent snap, cr_TriggerRAM := sn_MemPercent snap,
                cr_TriggerDisk := sn_DiskPercent snap\<rparr>
         else r)"

definition system_run ::
  "system_env \<Rightarrow> system_agent \<times> store \<Rightarrow> (system_agent \<times> store) \<times> (string \<times> string) option \<times> think_failure option" where
  "system_run env s =
     (case s of (a, st) \<Rightarrow>
        (case system_think env a st of ((d, attempts, err), cb) \<Rightarrow>
           let base = (case err of
                 Some e \<Rightarrow> record_error (se_clock env) (se_errText env e) (sa_base a)
               | None \<Rightarrow> record_success (se_clock env) (sa_base a));
               st1 = fst (store_add_cycle (decision_record (se_snapshot env) d) st);
               st2 = fst (store_add (se_snapshot env) st1)
           in ((a\<lparr>sa_base := base, sa_circuit := cb\<rparr>, st2), fst (store_save (encode_state (se_zone env)) (se_writes env) st2), err)))"

section \<open>Facts\<close>

interpretation system: agent "\<lambda>s. sa_base (fst s)" "\<lambda>env s. fst (system_run env s)"
  by unfold_locales (auto simp: system_run_def Let_def split: prod.splits option.splits)

lemma store_last_total: "0 \<le> n \<Longrightarrow> store_last n s \<noteq> None"
  by (induction s) (auto simp: js_last_def go_last_eq split: option.splits)

lemma store_last_cycles_total: "0 \<le> n \<Longrightarrow> store_last_cycles n s \<noteq> None"
  by (induction s) (auto simp: js_last_cycles_def go_last_eq split: option.splits)

lemma decision_record_fields [simp]:
  "cr_CycleNum (decision_record snap d) = 0" "cr_Command (decision_record snap d) = d_Command d"
  "cr_Action (decision_record snap d) = d_Action d" "cr_Confidence (decision_record snap d) = d_Confidence d"
  "cr_Analysis (decision_record snap d) = d_Analysis d" "cr_Snapshot (decision_record snap d) = snap"
  by (simp_all add: decision_record_def new_cycle_record_def Let_def)

lemma decision_record_triggers:
  "d_Action d = ''execute'' \<Longrightarrow> cr_TriggerCPU (decision_record snap d) = sn_CPUPercent snap"
  "d_Action d = ''execute'' \<Longrightarrow> cr_TriggerRAM (decision_record snap d) = sn_MemPercent snap"
  "d_Action d = ''execute'' \<Longrightarrow> cr_TriggerDisk (decision_record snap d) = sn_DiskPercent snap"
  "d_Action d \<noteq> ''execute'' \<Longrightarrow> cr_TriggerCPU (decision_record snap d) = Fin 0"
  "d_Action d \<noteq> ''execute'' \<Longrightarrow> cr_TriggerRAM (decision_record snap d) = Fin 0"
  "d_Action d \<noteq> ''execute'' \<Longrightarrow> cr_TriggerDisk (decision_record snap d) = Fin 0"
  by (simp_all add: decision_record_def new_cycle_record_def Let_def)

text \<open>A snapshot the database can hold and an answer of the client give a record it can hold.\<close>

lemma decision_record_ok:
  assumes "snapshot_row_ok snap" "valid_decision d \<or> (\<exists>why. d = fallback_decision why)"
  shows "cycle_ok (decision_record snap d)"
proof -
  have "d_Confidence d \<noteq> NaN" using assms(2) by (auto simp: valid_decision_def fallback_decision_def)
  then show ?thesis
    using assms(1) decision_record_triggers [of d snap]
    by (cases "d_Action d = ''execute''")
      (simp_all add: cycle_ok_def cycle_row_ok_def cycle_row_readable_def snapshot_row_ok_def)
qed

definition system_ok :: "system_agent \<Rightarrow> bool" where
  "system_ok a \<longleftrightarrow> 0 < rc_MaxAttempts (sa_retry a) \<and> cb_inv (sa_circuit a)"

lemma system_ok_new: "system_ok (new_system_agent u m c r d)"
  by (simp add: system_ok_def new_system_agent_def default_retry_config_def default_circuit_breaker_def
      new_circuit_breaker_def cb_inv_def)

lemma system_ok_run: "system_ok a \<Longrightarrow> system_ok (fst (fst (system_run env (a, st))))"
  using think_breaker_inv [of "sa_circuit a" "se_now env" "se_attempts env (system_request env a st)" "se_tend env" "sa_retry a"]
  by (auto simp: system_ok_def system_run_def system_think_def Let_def split: prod.splits)

lemma system_think_cases:
  assumes "system_ok a" "system_think env a st = ((d, n, err), cb)"
  shows "(err = None \<and> valid_decision d) \<or> (err \<noteq> None \<and> (\<exists>why. d = fallback_decision why))"
  using think_answer [of "sa_retry a" "se_now env" "se_attempts env (system_request env a st)" "se_tend env" "sa_circuit a" d n err cb] assms
  by (auto simp: system_ok_def system_think_def)

lemma system_run_store:
  "system_think env a st = ((d, n, err), cb) \<Longrightarrow>
     snd (fst (system_run env (a, st)))
       = fst (store_add (se_snapshot env) (fst (store_add_cycle (decision_record (se_snapshot env) d) st)))"
  by (simp add: system_run_def Let_def)

section \<open>Properties\<close>


definition sample_system_agent :: system_agent where
  "sample_system_agent = new_system_agent ''http://localhost:11434'' ''mistral'' (Fin 90) (Fin 90) (Fin 90)"

definition sample_system_env :: "string \<Rightarrow> system_env" where
  "sample_system_env content =
     \<lparr>se_context = \<lparr>ce_hour = 9, ce_weekday = 1, ce_walk = id\<rparr>, se_clockTime = (\<lambda>_. ''09:00:00''),
      se_goos = ''linux'',
      se_attempts = (\<lambda>rq i. \<lparr>ae_cancelled = None, ae_http = chat_ok content, ae_now = i\<rparr>),
      se_now = 0, se_tend = 9, se_clock = 9, se_errText = (\<lambda>_. ''err''), se_zone = utc, se_writes = True,
      se_similar = [], se_snapshot = zero_snapshot\<rparr>"

lemma sample_first_answer:
  assumes "ollama_think (chat_ok content) = Inr raw" "parse_decision raw = (d, None)"
  shows "system_think (sample_system_env content) sample_system_agent sample_store = ((d, 1, None), default_circuit_breaker)"
proof -
  have "cb_allow now default_circuit_breaker = (None, default_circuit_breaker)" for now
    by (simp add: cb_allow_def default_circuit_breaker_def new_circuit_breaker_def)
  moreover have "cb_record_success default_circuit_breaker = default_circuit_breaker"
    by (simp add: cb_record_success_def default_circuit_breaker_def new_circuit_breaker_def)
  ultimately show ?thesis
    using assms by (simp add: system_think_def sample_system_agent_def new_system_agent_def sample_system_env_def
        default_retry_config_def first_answer [where raw = raw])
qed

lemma sample_system_think:
  "system_think (sample_system_env sample_chat) sample_system_agent sample_store =
     ((\<lparr>d_Analysis = ''a'', d_Action = ''log'', d_Command = [], d_Reason = [], d_Confidence = Fin (1 / 2)\<rparr>, 1, None),
      default_circuit_breaker)"
  by (rule sample_first_answer [OF sample_chat_reads sample_content_parses])


end
