(* ===== verification/JX_Docker.thy ===== *)
theory JX_Docker
  imports JX_Agent JX_Json JX_Http JX_Decision
begin

text \<open>
  Containers: \<open>runtime/tools/docker.go\<close> reads their states from the Docker API, and
  \<open>runtime/agents/docker_agent.go\<close> reports what changed since the last scan. The API's answers are the
  environment; the sockets the client dials are I/O. Log lines other than the alerts are not modelled.
\<close>

section \<open>Reading the container list\<close>

record container =
  ct_ID :: string
  ct_Name :: string
  ct_Image :: string
  ct_Status :: string
  ct_Running :: bool
  ct_Exited :: bool
  ct_Unhealthy :: bool
  ct_RestartCount :: int
  ct_CreatedAt :: time

record raw_container =
  rw_ID :: string
  rw_Names :: "string list"
  rw_Image :: string
  rw_State :: string
  rw_Status :: string
  rw_Created :: int

definition empty_raw :: raw_container where
  "empty_raw = \<lparr>rw_ID = [], rw_Names = [], rw_Image = [], rw_State = [], rw_Status = [], rw_Created = 0\<rparr>"

text \<open>
  Decoding: every field that has the wrong type makes the whole call fail; keys match up to case. The
  second component of the accumulator says whether all fields fitted so far.
\<close>

definition str_field :: "json \<Rightarrow> string \<Rightarrow> string \<times> bool" where
  "str_field v old = (case v of JStr s \<Rightarrow> (s, True) | JNull \<Rightarrow> (old, True) | _ \<Rightarrow> (old, False))"

definition int_field :: "json \<Rightarrow> int \<Rightarrow> int \<times> bool" where
  "int_field v old =
     (case v of JNum t \<Rightarrow> (case atoi t of Some n \<Rightarrow> (n, True) | None \<Rightarrow> (old, False))
      | JNull \<Rightarrow> (old, True) | _ \<Rightarrow> (old, False))"

definition names_field :: "json \<Rightarrow> string list \<Rightarrow> string list \<times> bool" where
  "names_field v old =
     (case v of
        JArr vs \<Rightarrow> (map (\<lambda>x. fst (str_field x [])) vs, list_all (\<lambda>x. snd (str_field x [])) vs)
      | JNull \<Rightarrow> ([], True) | _ \<Rightarrow> (old, False))"

definition raw_field :: "string \<Rightarrow> json \<Rightarrow> raw_container \<Rightarrow> raw_container \<times> bool" where
  "raw_field k v r =
     (let n = fold_name k in
      if n = ''id'' then (case str_field v (rw_ID r) of (s, ok) \<Rightarrow> (r\<lparr>rw_ID := s\<rparr>, ok))
      else if n = ''names'' then (case names_field v (rw_Names r) of (ss, ok) \<Rightarrow> (r\<lparr>rw_Names := ss\<rparr>, ok))
      else if n = ''image'' then (case str_field v (rw_Image r) of (s, ok) \<Rightarrow> (r\<lparr>rw_Image := s\<rparr>, ok))
      else if n = ''state'' then (case str_field v (rw_State r) of (s, ok) \<Rightarrow> (r\<lparr>rw_State := s\<rparr>, ok))
      else if n = ''status'' then (case str_field v (rw_Status r) of (s, ok) \<Rightarrow> (r\<lparr>rw_Status := s\<rparr>, ok))
      else if n = ''created'' then (case int_field v (rw_Created r) of (i, ok) \<Rightarrow> (r\<lparr>rw_Created := i\<rparr>, ok))
      else (r, True))"

fun decode_raw :: "(string \<times> json) list \<Rightarrow> raw_container \<times> bool \<Rightarrow> raw_container \<times> bool" where
  "decode_raw [] acc = acc"
| "decode_raw ((k, v) # ms) (r, ok) = (case raw_field k v r of (r', ok') \<Rightarrow> decode_raw ms (r', ok \<and> ok'))"

fun decode_raws :: "json list \<Rightarrow> raw_container list \<times> bool \<Rightarrow> raw_container list \<times> bool" where
  "decode_raws [] acc = acc"
| "decode_raws (v # vs) (rs, ok) =
     (case v of
        JObj ms \<Rightarrow> (case decode_raw ms (empty_raw, ok) of (r, ok') \<Rightarrow> decode_raws vs (rs @ [r], ok'))
      | JNull \<Rightarrow> decode_raws vs (rs @ [empty_raw], ok)
      | _ \<Rightarrow> decode_raws vs (rs @ [empty_raw], False))"

definition unmarshal_containers :: "string \<Rightarrow> raw_container list option" where
  "unmarshal_containers s =
     (case parse_json s of
        Some (JArr vs) \<Rightarrow> (case decode_raws vs ([], True) of (rs, ok) \<Rightarrow> if ok then Some rs else None)
      | Some JNull \<Rightarrow> Some []
      | _ \<Rightarrow> None)"

text \<open>The first match of the expression \<open>(\d+)\s+restarts?\<close>: its digits.\<close>

definition re_space :: "char \<Rightarrow> bool" where
  "re_space c \<longleftrightarrow> byte c \<in> {0x09, 0x0A, 0x0C, 0x0D, 0x20}"

fun restart_digits :: "string \<Rightarrow> string option" where
  "restart_digits [] = None"
| "restart_digits (c # cs) =
     (let d = takeWhile is_digit (c # cs); r = dropWhile is_digit (c # cs);
          sp = takeWhile re_space r; tl = dropWhile re_space r
      in if d \<noteq> [] \<and> sp \<noteq> [] \<and> prefix ''restart'' tl then Some d else restart_digits cs)"

definition restart_count :: "string \<Rightarrow> int" where
  "restart_count status =
     (case restart_digits status of None \<Rightarrow> 0 | Some d \<Rightarrow> (case atoi d of None \<Rightarrow> 0 | Some n \<Rightarrow> n))"

definition unix_epoch :: int where "unix_epoch = 62135596800"

text \<open>One entry of the list; \<open>None\<close> is the panic of \<open>c.ID[:12]\<close> on a shorter id.\<close>

definition to_container :: "raw_container \<Rightarrow> container option" where
  "to_container r =
     (if length (rw_ID r) < 12 then None
      else
        let name = (case rw_Names r of [] \<Rightarrow> take 12 (rw_ID r)
                    | n # _ \<Rightarrow> (case n of [] \<Rightarrow> [] | c # cs \<Rightarrow> if c = CHR ''/'' then cs else n))
        in Some \<lparr>ct_ID = take 12 (rw_ID r), ct_Name = name, ct_Image = rw_Image r, ct_Status = rw_State r,
             ct_Running = (rw_State r = ''running''), ct_Exited = (rw_State r = ''exited''),
             ct_Unhealthy = contains (rw_Status r) ''unhealthy'', ct_RestartCount = restart_count (rw_Status r),
             ct_CreatedAt = (rw_Created r + unix_epoch) * second\<rparr>)"

fun to_containers :: "raw_container list \<Rightarrow> container list option" where
  "to_containers [] = Some []"
| "to_containers (r # rs) =
     (case to_container r of None \<Rightarrow> None
      | Some c \<Rightarrow> (case to_containers rs of None \<Rightarrow> None | Some cs \<Rightarrow> Some (c # cs)))"

datatype docker_error =
  DockerCreate string | DockerRequest string | DockerStatus int | DockerRead string | DockerParse

definition docker_available :: "http_result \<Rightarrow> bool" where
  "docker_available res = (case res of HttpResponse status _ \<Rightarrow> status = status_ok | _ \<Rightarrow> False)"

definition list_containers :: "http_result \<Rightarrow> (docker_error + container list) option" where
  "list_containers res =
     (case res of
        HttpRequestError e \<Rightarrow> Some (Inl (DockerCreate e))
      | HttpTransportError e \<Rightarrow> Some (Inl (DockerRequest e))
      | HttpResponse status body \<Rightarrow>
          if status \<noteq> status_ok then Some (Inl (DockerStatus status))
          else (case body of Inl e \<Rightarrow> Some (Inl (DockerRead e))
                | Inr raw \<Rightarrow> (case unmarshal_containers raw of None \<Rightarrow> Some (Inl DockerParse)
                     | Some rs \<Rightarrow> map_option Inr (to_containers rs))))"

section \<open>The agent\<close>

record docker_agent =
  da_base :: base_agent
  da_dryRun :: bool
  da_watchList :: "string list"
  da_prevStates :: "string \<Rightarrow> string option"
  da_prevUnhealthy :: "string \<Rightarrow> bool"

definition new_docker_agent :: "bool \<Rightarrow> string list \<Rightarrow> docker_agent" where
  "new_docker_agent dry watch =
     \<lparr>da_base = new_base_agent ''docker'' (30 * second), da_dryRun = dry, da_watchList = watch,
      da_prevStates = Map.empty, da_prevUnhealthy = (\<lambda>_. False)\<rparr>"

datatype docker_alert = FirstSeenExited container | Stopped container | BecameUnhealthy container

fun docker_alert_text :: "docker_alert \<Rightarrow> string" where
  "docker_alert_text (FirstSeenExited c) =
     ''Container '' @ [CHR 0x27] @ ct_Name c @ [CHR 0x27] @ '' ('' @ ct_Image c @ '') est en '' @ e_acute @ ''tat exited''"
| "docker_alert_text (Stopped c) =
     ''Container '' @ [CHR 0x27] @ ct_Name c @ [CHR 0x27] @ '' ('' @ ct_Image c @ '') vient de s'' @ [CHR 0x27]
     @ ''arr'' @ e_circ @ ''ter (running '' @ right_arrow @ '' exited)''"
| "docker_alert_text (BecameUnhealthy c) =
     ''Container '' @ [CHR 0x27] @ ct_Name c @ [CHR 0x27] @ '' ('' @ ct_Image c @ '') is unhealthy''"

text \<open>
  \<open>strings.EqualFold\<close>: exact on the names Docker accepts (ASCII), which fold only with ASCII letters, the
  Kelvin sign and the long s.
\<close>

definition equal_fold :: "string \<Rightarrow> string \<Rightarrow> bool" where
  "equal_fold s t \<longleftrightarrow> fold_name s = fold_name t"

definition filter_watch_list :: "docker_agent \<Rightarrow> container list \<Rightarrow> container list" where
  "filter_watch_list a cs = filter (\<lambda>c. list_ex (equal_fold (ct_Name c)) (da_watchList a)) cs"

definition container_alerts :: "docker_agent \<Rightarrow> container \<Rightarrow> docker_alert list" where
  "container_alerts a c =
     (let prev = da_prevStates a (ct_Name c) in
      if prev = None \<and> ct_Exited c then [FirstSeenExited c]
      else (if prev = Some ''running'' \<and> ct_Exited c then [Stopped c] else [])
         @ (if ct_Unhealthy c \<and> \<not> da_prevUnhealthy a (ct_Name c) then [BecameUnhealthy c] else []))"

definition detect_changes :: "docker_agent \<Rightarrow> container list \<Rightarrow> docker_alert list" where
  "detect_changes a cs = concat (map (container_alerts a) cs)"

definition remember :: "container \<Rightarrow> docker_agent \<Rightarrow> docker_agent" where
  "remember c a =
     a\<lparr>da_prevStates := (da_prevStates a)(ct_Name c \<mapsto> ct_Status c),
       da_prevUnhealthy := (da_prevUnhealthy a)(ct_Name c := ct_Unhealthy c)\<rparr>"

text \<open>The part of \<open>Run\<close> after the list has been read.\<close>

definition docker_scan :: "container list \<Rightarrow> docker_agent \<Rightarrow> docker_agent \<times> docker_alert list" where
  "docker_scan all a =
     (let cs = (if da_watchList a \<noteq> [] then filter_watch_list a all else all)
      in (foldl (\<lambda>a c. remember c a) a cs, detect_changes a cs))"

record docker_env =
  de_version :: http_result
  de_list :: http_result
  de_clock :: time
  de_errText :: "docker_error \<Rightarrow> string"

definition docker_run :: "docker_env \<Rightarrow> docker_agent \<Rightarrow> docker_agent \<times> run_end \<times> docker_alert list" where
  "docker_run env a =
     (if \<not> docker_available (de_version env)
      then (a\<lparr>da_base := record_success (de_clock env) (da_base a)\<rparr>, RunOk, [])
      else case list_containers (de_list env) of
        None \<Rightarrow> (a, RunPanic ''slice bounds out of range'', [])
      | Some (Inl e) \<Rightarrow>
          (a\<lparr>da_base := record_error (de_clock env) (de_errText env e) (da_base a)\<rparr>,
           RunError (''list containers: '' @ de_errText env e), [])
      | Some (Inr all) \<Rightarrow>
          (case docker_scan all a of (a', alerts) \<Rightarrow>
             (a'\<lparr>da_base := (if alerts \<noteq> [] then record_alert (de_clock env) (da_base a')
                             else record_success (de_clock env) (da_base a'))\<rparr>, RunOk, alerts)))"

section \<open>Facts\<close>

lemma remember_frame [simp]: "da_base (remember c a) = da_base a" "da_watchList (remember c a) = da_watchList a"
  by (simp_all add: remember_def)

lemma remember_all_frame [simp]:
  "da_base (foldl (\<lambda>a c. remember c a) a cs) = da_base a"
  "da_watchList (foldl (\<lambda>a c. remember c a) a cs) = da_watchList a"
  by (induction cs arbitrary: a) simp_all

interpretation docker: agent da_base "\<lambda>env a. fst (docker_run env a)"
  by unfold_locales
    (auto simp: docker_run_def docker_scan_def Let_def split: option.splits sum.splits prod.splits)

text \<open>The last entry of a name in a sequence of scans.\<close>

definition last_seen :: "container list list \<Rightarrow> string \<Rightarrow> container option" where
  "last_seen scans n = find (\<lambda>c. ct_Name c = n) (rev (concat scans))"

lemma remember_all_states:
  "da_prevStates (foldl (\<lambda>a c. remember c a) a cs) n =
     (case find (\<lambda>c. ct_Name c = n) (rev cs) of Some c \<Rightarrow> Some (ct_Status c) | None \<Rightarrow> da_prevStates a n)"
  "da_prevUnhealthy (foldl (\<lambda>a c. remember c a) a cs) n =
     (case find (\<lambda>c. ct_Name c = n) (rev cs) of Some c \<Rightarrow> ct_Unhealthy c | None \<Rightarrow> da_prevUnhealthy a n)"
  by (induction cs rule: rev_induct) (simp_all add: remember_def)

lemma find_append: "find P (xs @ ys) = (case find P xs of Some x \<Rightarrow> Some x | None \<Rightarrow> find P ys)"
  by (induction xs) simp_all

lemma scans_history:
  assumes "da_watchList a0 = []" "da_prevStates a0 = Map.empty" "da_prevUnhealthy a0 = (\<lambda>_. False)"
    and "a = foldl (\<lambda>a cs. fst (docker_scan cs a)) a0 scans"
  shows "da_watchList a = [] \<and> da_prevStates a n = map_option ct_Status (last_seen scans n)
     \<and> da_prevUnhealthy a n = (case last_seen scans n of Some c \<Rightarrow> ct_Unhealthy c | None \<Rightarrow> False)"
  using assms(4)
proof (induction scans arbitrary: a rule: rev_induct)
  case Nil
  with assms(1-3) show ?case by (simp add: last_seen_def)
next
  case (snoc cs scans)
  let ?b = "foldl (\<lambda>a cs. fst (docker_scan cs a)) a0 scans"
  from snoc.IH [OF refl] have ih: "da_watchList ?b = []" "da_prevStates ?b n = map_option ct_Status (last_seen scans n)"
    "da_prevUnhealthy ?b n = (case last_seen scans n of Some c \<Rightarrow> ct_Unhealthy c | None \<Rightarrow> False)" by simp_all
  then have "a = foldl (\<lambda>a c. remember c a) ?b cs" by (simp add: snoc.prems docker_scan_def)
  with ih show ?case
    by (simp add: remember_all_states last_seen_def find_append split: option.splits)
qed

section \<open>Properties\<close>

text \<open>C30: alerts follow the history. After any scans by an agent that watches every container, a scan reports
  that a container stopped exactly when it is exited now and was \<open>running\<close> when it was last listed, that it
  is exited exactly when it was never listed before, and that it is unhealthy exactly when it is now and
  was not at its last listing (or has none), unless it is exited on first sight.\<close>
theorem docker_alerts_follow_history:
  assumes "a = foldl (\<lambda>a cs. fst (docker_scan cs a)) (new_docker_agent dry []) scans"
    and "c \<in> set cs" "distinct (map ct_Name cs)"
  shows "(Stopped c \<in> set (snd (docker_scan cs a))
            \<longleftrightarrow> ct_Exited c \<and> map_option ct_Status (last_seen scans (ct_Name c)) = Some ''running'')
     \<and> (FirstSeenExited c \<in> set (snd (docker_scan cs a)) \<longleftrightarrow> ct_Exited c \<and> last_seen scans (ct_Name c) = None)
     \<and> (BecameUnhealthy c \<in> set (snd (docker_scan cs a))
            \<longleftrightarrow> ct_Unhealthy c \<and> (case last_seen scans (ct_Name c) of Some c' \<Rightarrow> \<not> ct_Unhealthy c' | None \<Rightarrow> \<not> ct_Exited c))"
proof -
  have h: "da_watchList a = []" "da_prevStates a n = map_option ct_Status (last_seen scans n)"
    "da_prevUnhealthy a n = (case last_seen scans n of Some c \<Rightarrow> ct_Unhealthy c | None \<Rightarrow> False)" for n
    using scans_history [OF _ _ _ assms(1), of n] by (simp_all add: new_docker_agent_def)
  have mem: "x \<in> set (snd (docker_scan cs a)) \<longleftrightarrow> (\<exists>d\<in>set cs. x \<in> set (container_alerts a d))" for x
    by (simp add: docker_scan_def h detect_changes_def)
  have own: "set (container_alerts a d) \<subseteq> {Stopped d, FirstSeenExited d, BecameUnhealthy d}" for d
    by (auto simp: container_alerts_def Let_def)
  have "x \<in> set (snd (docker_scan cs a)) \<longleftrightarrow> x \<in> set (container_alerts a c)"
    if "x \<in> {Stopped c, FirstSeenExited c, BecameUnhealthy c}" for x
    using that mem own assms(2) by blast
  then show ?thesis
    by (auto simp: container_alerts_def Let_def h split: option.splits)
qed

definition sample_container :: "string \<Rightarrow> container" where
  "sample_container state =
     \<lparr>ct_ID = ''0123456789ab'', ct_Name = ''web'', ct_Image = ''nginx'', ct_Status = state,
      ct_Running = (state = ''running''), ct_Exited = (state = ''exited''), ct_Unhealthy = False,
      ct_RestartCount = 0, ct_CreatedAt = 0\<rparr>"

theorem docker_alerts_follow_history_witness:
  "Stopped (sample_container ''exited'') \<in> set (snd (docker_scan [sample_container ''exited'']
      (foldl (\<lambda>a cs. fst (docker_scan cs a)) (new_docker_agent False []) [[sample_container ''running'']])))
   \<and> Stopped (sample_container ''exited'') \<notin> set (snd (docker_scan [sample_container ''exited'']
      (foldl (\<lambda>a cs. fst (docker_scan cs a)) (new_docker_agent False [])
        [[sample_container ''running''], [sample_container ''paused'']])))"
  using docker_alerts_follow_history [OF refl, of "sample_container ''exited''" "[sample_container ''exited'']" False
      "[[sample_container ''running'']]"]
    docker_alerts_follow_history [OF refl, of "sample_container ''exited''" "[sample_container ''exited'']" False
      "[[sample_container ''running''], [sample_container ''paused'']]"]
  by (simp add: last_seen_def sample_container_def)

text \<open>the reader of the Docker API panics exactly when the answer decodes and lists a container whose id is
  shorter than 12 bytes; every other answer gives a list or an error.\<close>
theorem list_containers_panics_iff:
  "list_containers res = None \<longleftrightarrow>
     (\<exists>raw rs. res = HttpResponse status_ok (Inr raw) \<and> unmarshal_containers raw = Some rs
        \<and> list_ex (\<lambda>r. length (rw_ID r) < 12) rs)"
proof -
  have "to_containers rs = None \<longleftrightarrow> list_ex (\<lambda>r. length (rw_ID r) < 12) rs" for rs
    by (induction rs) (auto simp: to_container_def Let_def split: option.splits)
  then show ?thesis
    by (auto simp: list_containers_def split: http_result.splits sum.splits option.splits)
qed

end
