(* ===== verification/JX_Files.thy ===== *)
theory JX_Files
  imports JX_Agent "HOL-Library.Multiset"
begin

text \<open>
  Watched directories: \<open>runtime/tools/filesystem.go\<close> scans one, \<open>runtime/agents/file_agent.go\<close> compares
  scans. What \<open>os.Stat\<close>, \<open>filepath.Walk\<close> and the third-party disk usage return is the environment.
  \<open>sort.Slice\<close> is not stable: it is a parameter \<open>srt\<close> that may be any function returning an ordered
  permutation.
\<close>

section \<open>Scanning a directory\<close>

record file_info =
  fi_Path :: string
  fi_SizeBytes :: int
  fi_SizeMB :: f64
  fi_ModTime :: time

record dir_stats =
  ds_Path :: string
  ds_TotalBytes :: int
  ds_TotalMB :: f64
  ds_FileCount :: int
  ds_LargeFiles :: "file_info list"
  ds_LastModified :: time
  ds_InodesUsed :: "64 word"
  ds_InodesPercent :: f64
  ds_Error :: string

definition empty_stats :: "string \<Rightarrow> dir_stats" where
  "empty_stats path =
     \<lparr>ds_Path = path, ds_TotalBytes = 0, ds_TotalMB = Fin 0, ds_FileCount = 0, ds_LargeFiles = [],
      ds_LastModified = 0, ds_InodesUsed = 0, ds_InodesPercent = Fin 0, ds_Error = []\<rparr>"

text \<open>One call of the walk function: the entry and whether it could be read.\<close>

record walk_entry =
  we_path :: string
  we_err :: bool
  we_isDir :: bool
  we_size :: int
  we_mtime :: time

datatype stat_result = StatError string | StatFile | StatDir

definition size_mb :: "int \<Rightarrow> f64" where
  "size_mb n = f_div (f_div (f_of_int n) (Fin 1024)) (Fin 1024)"

definition large_file :: "walk_entry \<Rightarrow> file_info" where
  "large_file e =
     \<lparr>fi_Path = we_path e, fi_SizeBytes = we_size e, fi_SizeMB = size_mb (we_size e), fi_ModTime = we_mtime e\<rparr>"

definition visit :: "int \<Rightarrow> walk_entry \<Rightarrow> dir_stats \<Rightarrow> dir_stats" where
  "visit maxBytes e s =
     (if we_err e \<or> we_isDir e then s
      else s\<lparr>ds_TotalBytes := wrap64 (ds_TotalBytes s + we_size e), ds_FileCount := ds_FileCount s + 1,
             ds_LastModified := (if ds_LastModified s < we_mtime e then we_mtime e else ds_LastModified s),
             ds_LargeFiles := ds_LargeFiles s @ (if maxBytes \<le> we_size e then [large_file e] else [])\<rparr>)"

text \<open>What one scan meets; \<open>sv_inodes\<close> is \<open>disk.Usage\<close> when it succeeds.\<close>

record scan_env =
  sv_stat :: stat_result
  sv_walk :: "walk_entry list"
  sv_inodes :: "(64 word \<times> f64) option"

definition scan_directory ::
  "(file_info list \<Rightarrow> file_info list) \<Rightarrow> scan_env \<Rightarrow> string \<Rightarrow> int \<Rightarrow> dir_stats" where
  "scan_directory srt env path maxSizeMB =
     (case sv_stat env of
        StatError e \<Rightarrow> (empty_stats path)\<lparr>ds_Error := ''inaccessible : '' @ e\<rparr>
      | StatFile \<Rightarrow> (empty_stats path)\<lparr>ds_Error :=
          [CHR 0x27] @ path @ [CHR 0x27] @ '' n'' @ [CHR 0x27] @ ''est pas un dossier''\<rparr>
      | StatDir \<Rightarrow>
          let s = foldl (\<lambda>s e. visit (wrap64 (maxSizeMB * 1024 * 1024)) e s) (empty_stats path) (sv_walk env);
              s = s\<lparr>ds_TotalMB := size_mb (ds_TotalBytes s)\<rparr>;
              s = (case sv_inodes env of None \<Rightarrow> s
                   | Some (u, p) \<Rightarrow> s\<lparr>ds_InodesUsed := u, ds_InodesPercent := p\<rparr>);
              large = srt (ds_LargeFiles s)
          in s\<lparr>ds_LargeFiles := (if 10 < length large then take 10 large else large)\<rparr>)"

definition is_sorter :: "(file_info list \<Rightarrow> file_info list) \<Rightarrow> bool" where
  "is_sorter srt \<longleftrightarrow>
     (\<forall>xs. mset (srt xs) = mset xs \<and> sorted_wrt (\<lambda>f g. fi_SizeBytes g \<le> fi_SizeBytes f) (srt xs))"

section \<open>The agent\<close>

record file_agent =
  fa_base :: base_agent
  fa_watchPaths :: "string list"
  fa_maxSizeMB :: int
  fa_dryRun :: bool
  fa_prevSizes :: "string \<Rightarrow> f64 option"
  fa_prevTimes :: "string \<Rightarrow> time option"

definition new_file_agent :: "string list \<Rightarrow> int \<Rightarrow> bool \<Rightarrow> file_agent" where
  "new_file_agent paths mx dry =
     \<lparr>fa_base = new_base_agent ''file'' (5 * minute), fa_watchPaths = paths, fa_maxSizeMB = mx,
      fa_dryRun = dry, fa_prevSizes = Map.empty, fa_prevTimes = Map.empty\<rparr>"

datatype file_alert = LargeFile file_info | Growth string f64 f64 f64

text \<open>\<open>Duration.Minutes\<close>.\<close>

definition minutes_of :: "duration \<Rightarrow> f64" where
  "minutes_of d = f_add (f_of_int (go_div d minute)) (f_div (f_of_int (go_mod d minute)) (Fin (60 * 10 ^ 9)))"

definition growth_alert :: "time \<Rightarrow> file_agent \<Rightarrow> string \<Rightarrow> dir_stats \<Rightarrow> file_alert list" where
  "growth_alert now a path stats =
     (case fa_prevSizes a path of None \<Rightarrow> []
      | Some prev \<Rightarrow>
          let growth = f_sub (ds_TotalMB stats) prev in
          if f_gt growth (f_div (f_of_int (fa_maxSizeMB a)) (Fin 2)) then
            let rate = (case fa_prevTimes a path of None \<Rightarrow> Fin 0
                        | Some t \<Rightarrow> let elapsed = minutes_of (time_sub now t)
                                    in if f_gt elapsed (Fin 0) then f_div growth elapsed else Fin 0)
            in [Growth path growth rate (ds_TotalMB stats)]
          else [])"

text \<open>One path of the loop: the new state and the alerts.\<close>

definition check_path ::
  "(file_info list \<Rightarrow> file_info list) \<Rightarrow> time \<Rightarrow> scan_env \<Rightarrow> string \<Rightarrow> file_agent \<Rightarrow> file_agent \<times> file_alert list" where
  "check_path srt now env path a =
     (let stats = scan_directory srt env path (fa_maxSizeMB a) in
      if ds_Error stats \<noteq> [] then (a, [])
      else (a\<lparr>fa_prevSizes := (fa_prevSizes a)(path \<mapsto> ds_TotalMB stats),
              fa_prevTimes := (fa_prevTimes a)(path \<mapsto> now)\<rparr>,
            map LargeFile (ds_LargeFiles stats) @ growth_alert now a path stats))"

text \<open>
  The loop over the paths. Before each path the context may be found cancelled, which ends the run with
  its error and records nothing.
\<close>

fun check_paths ::
  "(file_info list \<Rightarrow> file_info list) \<Rightarrow> (string \<Rightarrow> string option \<times> time \<times> scan_env) \<Rightarrow> string list
     \<Rightarrow> file_agent \<times> file_alert list \<Rightarrow> (file_agent \<times> file_alert list) \<times> string option" where
  "check_paths srt env [] acc = (acc, None)"
| "check_paths srt env (p # ps) (a, als) =
     (case env p of (cancelled, now, scan) \<Rightarrow>
        (case cancelled of
           Some e \<Rightarrow> ((a, als), Some e)
         | None \<Rightarrow> (case check_path srt now scan p a of (a', new) \<Rightarrow> check_paths srt env ps (a', als @ new))))"

record file_env =
  fe_sorter :: "file_info list \<Rightarrow> file_info list"
  fe_paths :: "string \<Rightarrow> string option \<times> time \<times> scan_env"
  fe_clock :: time

definition file_run :: "file_env \<Rightarrow> file_agent \<Rightarrow> file_agent \<times> run_end \<times> file_alert list" where
  "file_run env a =
     (if fa_watchPaths a = [] then (a\<lparr>fa_base := record_success (fe_clock env) (fa_base a)\<rparr>, RunOk, [])
      else case check_paths (fe_sorter env) (fe_paths env) (fa_watchPaths a) (a, []) of
        ((a', als), Some e) \<Rightarrow> (a', RunError e, als)
      | ((a', als), None) \<Rightarrow>
          (a'\<lparr>fa_base := (if als \<noteq> [] then record_alert (fe_clock env) (fa_base a')
                          else record_success (fe_clock env) (fa_base a'))\<rparr>, RunOk, als))"

section \<open>Facts\<close>

lemma check_path_frame: "fa_base (fst (check_path srt now env p a)) = fa_base a"
  by (simp add: check_path_def Let_def)

lemma check_paths_frame: "fa_base (fst (fst (check_paths srt env ps acc))) = fa_base (fst acc)"
proof (induction ps arbitrary: acc)
  case (Cons p ps)
  obtain a als where acc: "acc = (a, als)" by fastforce
  obtain cancelled now scan where e: "env p = (cancelled, now, scan)" by (metis prod_cases3)
  show ?case
    using Cons check_path_frame [of srt now scan p a]
    by (cases "check_path srt now scan p a") (simp add: acc e split: option.split)
qed simp

interpretation files: agent fa_base "\<lambda>env a. fst (file_run env a)"
proof unfold_locales
  fix a :: file_agent and env :: file_env
  obtain a' als err where c: "check_paths (fe_sorter env) (fe_paths env) (fa_watchPaths a) (a, []) = ((a', als), err)"
    by (metis prod.exhaust_sel)
  with check_paths_frame [of "fe_sorter env" "fe_paths env" "fa_watchPaths a" "(a, [])"]
  have "fa_base a' = fa_base a" by simp
  with c show "ba_step (fa_base a) (fa_base (fst (file_run env a)))"
    by (simp add: file_run_def split: option.split)
qed

text \<open>The regular files of a walk.\<close>

definition regular :: "walk_entry list \<Rightarrow> walk_entry list" where
  "regular es = filter (\<lambda>e. \<not> we_err e \<and> \<not> we_isDir e) es"

lemma walk_counts:
  assumes "s = foldl (\<lambda>s e. visit b e s) (empty_stats path) es"
  shows "ds_FileCount s = int (length (regular es))
     \<and> ds_LargeFiles s = map large_file (filter (\<lambda>e. b \<le> we_size e) (regular es))
     \<and> ds_Error s = []"
  using assms
  by (induction es arbitrary: s rule: rev_induct) (auto simp: empty_stats_def regular_def visit_def)

lemma walk_total:
  assumes "s = foldl (\<lambda>s e. visit b e s) (empty_stats path) es"
    and "\<And>e. e \<in> set (regular es) \<Longrightarrow> 0 \<le> we_size e" "sum_list (map we_size (regular es)) < 2 ^ 63"
  shows "ds_TotalBytes s = sum_list (map we_size (regular es))"
  using assms
proof (induction es arbitrary: s rule: rev_induct)
  case (snoc e es)
  let ?s = "foldl (\<lambda>s e. visit b e s) (empty_stats path) es"
  have r: "regular (es @ [e]) = regular es @ (if \<not> we_err e \<and> \<not> we_isDir e then [e] else [])"
    by (simp add: regular_def)
  have nn: "0 \<le> sum_list (map we_size (regular es))"
    using snoc.prems(2) unfolding r by (intro sum_list_nonneg) auto
  have ih: "ds_TotalBytes ?s = sum_list (map we_size (regular es))"
  proof (rule snoc.IH [OF refl])
    show "sum_list (map we_size (regular es)) < 2 ^ 63"
      using snoc.prems(2,3) unfolding r by (auto split: if_splits) (smt (verit))
  qed (use snoc.prems(2) in \<open>auto simp: r\<close>)
  have s: "s = visit b e ?s" by (simp add: snoc.prems(1))
  show ?case
  proof (cases "we_err e \<or> we_isDir e")
    case True
    then show ?thesis unfolding s r using ih by (auto simp: visit_def [of b e])
  next
    case False
    then have "0 \<le> we_size e" "sum_list (map we_size (regular es)) + we_size e < 2 ^ 63"
      using snoc.prems(2,3) r by auto
    with False nn show ?thesis unfolding s r using ih by (simp add: visit_def [of b e] wrap64_id)
  qed
qed (simp add: empty_stats_def regular_def)

lemma sorted_take_drop:
  "sorted_wrt R xs \<Longrightarrow> x \<in> set (take n xs) \<Longrightarrow> y \<in> set (drop n xs) \<Longrightarrow> R x y"
  using sorted_wrt_append [of R "take n xs" "drop n xs"] by simp

section \<open>Properties\<close>

text \<open>C31: a scan reports the right large files. Whatever order \<open>sort.Slice\<close> gives equal sizes, the list holds
  the ten largest of the regular files at or above the threshold (all of them when there are at most ten),
  in decreasing size; any such file that is left out is no larger than any file listed; and the counts
  and the total size cover exactly the regular files that could be read.\<close>
theorem scan_reports_largest_files:
  assumes "is_sorter srt" "sv_stat env = StatDir" "s = scan_directory srt env path maxSizeMB"
    and "b = wrap64 (maxSizeMB * 1024 * 1024)"
    and "big = map large_file (filter (\<lambda>e. b \<le> we_size e) (regular (sv_walk env)))"
  shows "ds_Error s = [] \<and> ds_FileCount s = int (length (regular (sv_walk env)))
     \<and> length (ds_LargeFiles s) = min 10 (length big)
     \<and> sorted_wrt (\<lambda>f g. fi_SizeBytes g \<le> fi_SizeBytes f) (ds_LargeFiles s)
     \<and> (\<exists>rest. mset big = mset (ds_LargeFiles s) + mset rest
          \<and> (\<forall>f\<in>set (ds_LargeFiles s). \<forall>g\<in>set rest. fi_SizeBytes g \<le> fi_SizeBytes f))
     \<and> ((\<forall>e\<in>set (regular (sv_walk env)). 0 \<le> we_size e) \<longrightarrow> sum_list (map we_size (regular (sv_walk env))) < 2 ^ 63
          \<longrightarrow> ds_TotalBytes s = sum_list (map we_size (regular (sv_walk env))))"
proof -
  let ?w = "foldl (\<lambda>s e. visit b e s) (empty_stats path) (sv_walk env)"
  have w: "ds_FileCount ?w = int (length (regular (sv_walk env)))" "ds_LargeFiles ?w = big" "ds_Error ?w = []"
    using walk_counts [OF refl, of b path "sv_walk env"] assms(5) by simp_all
  have total: "ds_TotalBytes s = ds_TotalBytes ?w"
    unfolding assms(3) scan_directory_def assms(4) [symmetric] using assms(2)
    by (auto simp: Let_def split: option.splits)
  have s: "ds_Error s = []" "ds_FileCount s = int (length (regular (sv_walk env)))" "ds_LargeFiles s = take 10 (srt big)"
    unfolding assms(3) scan_directory_def assms(4) [symmetric] using assms(2) w
    by (auto simp: Let_def split: option.splits)
  have sorted: "sorted_wrt (\<lambda>f g. fi_SizeBytes g \<le> fi_SizeBytes f) (srt big)" and m: "mset (srt big) = mset big"
    using assms(1) by (auto simp: is_sorter_def)
  have len: "length (srt big) = length big" using m by (metis size_mset)
  have "mset big = mset (take 10 (srt big)) + mset (drop 10 (srt big))"
    by (metis m append_take_drop_id mset_append)
  moreover have "\<forall>f\<in>set (take 10 (srt big)). \<forall>g\<in>set (drop 10 (srt big)). fi_SizeBytes g \<le> fi_SizeBytes f"
    using sorted_take_drop [OF sorted] by blast
  ultimately show ?thesis
    using s len sorted walk_total [OF refl, of "sv_walk env" b path] unfolding total
    by (auto simp: sorted_wrt_take min.commute)
qed

definition sample_walk :: "walk_entry list" where
  "sample_walk =
     [\<lparr>we_path = ''/d'', we_err = False, we_isDir = True, we_size = 4096, we_mtime = 1\<rparr>,
      \<lparr>we_path = ''/d/a'', we_err = False, we_isDir = False, we_size = 3000000, we_mtime = 2\<rparr>,
      \<lparr>we_path = ''/d/b'', we_err = False, we_isDir = False, we_size = 10, we_mtime = 3\<rparr>]"

definition sample_sort :: "file_info list \<Rightarrow> file_info list" where
  "sample_sort = sort_key (\<lambda>f. - fi_SizeBytes f)"

lemma sample_sorter: "is_sorter sample_sort"
proof -
  have "sorted_wrt (\<lambda>f g. fi_SizeBytes g \<le> fi_SizeBytes f) (sort_key (\<lambda>f. - fi_SizeBytes f) xs)" for xs :: "file_info list"
    using sorted_sort_key [of "\<lambda>f. - fi_SizeBytes f" xs] by (simp add: sorted_wrt_map)
  then show ?thesis by (simp add: is_sorter_def sample_sort_def)
qed

theorem scan_reports_largest_files_witness:
  "length (ds_LargeFiles (scan_directory sample_sort
      \<lparr>sv_stat = StatDir, sv_walk = sample_walk, sv_inodes = None\<rparr> ''/d'' 1)) = 1"
proof -
  let ?env = "\<lparr>sv_stat = StatDir, sv_walk = sample_walk, sv_inodes = None\<rparr>"
  have "length (ds_LargeFiles (scan_directory sample_sort ?env ''/d'' 1))
      = min 10 (length (map large_file (filter (\<lambda>e. wrap64 (1 * 1024 * 1024) \<le> we_size e) (regular (sv_walk ?env)))))"
    by (rule scan_reports_largest_files [OF sample_sorter _ refl refl refl, THEN conjunct2, THEN conjunct2, THEN conjunct1]) simp
  then show ?thesis by (simp add: sample_walk_def regular_def wrap64_def)
qed

end
