(* ===== verification/JX_Daily.thy ===== *)
theory JX_Daily
  imports JX_Alert JX_Stores JX_Context
begin

text \<open>
  The daily report, \<open>runtime/agents/daily_report.go\<close>: every minute the reporter looks at the wall clock and
  at its hour sends the statistics of the stored decisions through the notification channels. The local
  time of a tick and the date text are the environment.
\<close>

section \<open>The report\<close>

record report_data =
  rp_Date :: string
  rp_TotalCycles :: int
  rp_Actions :: "(string \<times> int) list"
  rp_CPUAvg :: f64
  rp_CPUMax :: f64
  rp_RAMAvg :: f64
  rp_RAMMax :: f64
  rp_DiskMax :: f64
  rp_AlertCount :: int
  rp_ExecuteCount :: int

definition empty_report :: "string \<Rightarrow> report_data" where
  "empty_report date =
     \<lparr>rp_Date = date, rp_TotalCycles = 0, rp_Actions = [], rp_CPUAvg = Fin 0, rp_CPUMax = Fin 0,
      rp_RAMAvg = Fin 0, rp_RAMMax = Fin 0, rp_DiskMax = Fin 0, rp_AlertCount = 0, rp_ExecuteCount = 0\<rparr>"

definition running_max :: "f64 \<Rightarrow> f64 \<Rightarrow> f64" where
  "running_max mx x = (if f_gt x mx then x else mx)"

text \<open>The loop over the decisions; the last two components are the sums of CPU and RAM.\<close>

definition report_step :: "report_data \<times> f64 \<times> f64 \<Rightarrow> cycle_record \<Rightarrow> report_data \<times> f64 \<times> f64" where
  "report_step acc c =
     (case acc of (d, cpuSum, ramSum) \<Rightarrow>
        let snap = cr_Snapshot c in
        (d\<lparr>rp_Actions := incr (cr_Action c) (rp_Actions d),
           rp_CPUMax := running_max (rp_CPUMax d) (sn_CPUPercent snap),
           rp_RAMMax := running_max (rp_RAMMax d) (sn_MemPercent snap),
           rp_DiskMax := running_max (rp_DiskMax d) (sn_DiskPercent snap)\<rparr>,
         f_add cpuSum (sn_CPUPercent snap), f_add ramSum (sn_MemPercent snap)))"

definition build_report :: "string \<Rightarrow> cycle_record list \<Rightarrow> report_data" where
  "build_report date cycles =
     (if cycles = [] then empty_report date
      else case foldl report_step ((empty_report date)\<lparr>rp_TotalCycles := int (length cycles)\<rparr>, Fin 0, Fin 0) cycles of
        (d, cpuSum, ramSum) \<Rightarrow>
          d\<lparr>rp_CPUAvg := f_div cpuSum (f_of_int (rp_TotalCycles d)),
            rp_RAMAvg := f_div ramSum (f_of_int (rp_TotalCycles d)),
            rp_AlertCount := count_of ''alert'' (rp_Actions d),
            rp_ExecuteCount := count_of ''execute'' (rp_Actions d)\<rparr>)"

definition report_limit :: int where "report_limit = 5760"

definition report_of_store :: "string \<Rightarrow> store \<Rightarrow> report_data" where
  "report_of_store date st =
     build_report date (case store_last_cycles report_limit st of None \<Rightarrow> [] | Some cs \<Rightarrow> cs)"

definition dot_sep :: string where "dot_sep = '' '' @ middle_dot @ '' ''"

definition format_report :: "report_data \<Rightarrow> string" where
  "format_report d =
     ''JARVINx '' @ em_dash @ '' Rapport du '' @ rp_Date d @ nl @ nl
     @ ''Cycles        : '' @ show_int (rp_TotalCycles d) @ nl
     @ ''Actions       : '' @ show_int (count_of ''log'' (rp_Actions d)) @ '' log'' @ dot_sep
     @ show_int (count_of ''suggest'' (rp_Actions d)) @ '' suggest'' @ dot_sep
     @ show_int (rp_AlertCount d) @ '' alert'' @ dot_sep
     @ show_int (rp_ExecuteCount d) @ '' execute'' @ nl @ nl
     @ ''CPU           : moy '' @ fmt_f 1 (rp_CPUAvg d) @ ''%'' @ dot_sep @ ''pic '' @ fmt_f 1 (rp_CPUMax d) @ ''%'' @ nl
     @ ''RAM           : moy '' @ fmt_f 1 (rp_RAMAvg d) @ ''%'' @ dot_sep @ ''pic '' @ fmt_f 1 (rp_RAMMax d) @ ''%'' @ nl
     @ ''Disk (max)    : '' @ fmt_f 1 (rp_DiskMax d) @ ''%'' @ nl @ nl
     @ ''Alertes       : '' @ show_int (rp_AlertCount d) @ nl
     @ ''Commands     : '' @ show_int (rp_ExecuteCount d)"

section \<open>The reporter\<close>

record daily_reporter =
  dr_dispatcher :: dispatcher
  dr_hour :: int
  dr_minute :: int
  dr_dryRun :: bool
  dr_lastSent :: time

definition new_daily_reporter :: "dispatcher \<Rightarrow> int \<Rightarrow> int \<Rightarrow> bool \<Rightarrow> daily_reporter" where
  "new_daily_reporter d h m dry =
     \<lparr>dr_dispatcher = d, dr_hour = h, dr_minute = m, dr_dryRun = dry, dr_lastSent = 0\<rparr>"

record daily_env =
  dy_hour :: int
  dy_minute :: int
  dy_now :: time
  dy_sent :: time
  dy_date :: string
  dy_rfc3339 :: "time \<Rightarrow> string"
  dy_send :: "notifier \<Rightarrow> http_request \<Rightarrow> http_result"
  dy_store :: store

definition report_alert :: "time \<Rightarrow> string \<Rightarrow> alert" where
  "report_alert now msg =
     \<lparr>al_Timestamp = now, al_Level = AlertWarning, al_Metric = ''DAILY REPORT'', al_Value = Fin 0,
      al_Threshold = Fin 0, al_Message = msg, al_CyclesAbove = 0\<rparr>"

text \<open>\<open>send\<close> (and \<open>SendNow\<close>): the clock is read again when the time of sending is remembered.\<close>

definition daily_send :: "daily_env \<Rightarrow> daily_reporter \<Rightarrow> daily_reporter \<times> delivery list" where
  "daily_send env r =
     (let msg = format_report (report_of_store (dy_date env) (dy_store env)) in
      if dr_dryRun r then (r\<lparr>dr_lastSent := dy_sent env\<rparr>, [])
      else (r\<lparr>dr_lastSent := dy_sent env\<rparr>,
            dispatch (dy_rfc3339 env) (dy_send env) (dr_dispatcher r) (report_alert (dy_now env) msg)))"

definition daily_tick :: "daily_env \<Rightarrow> daily_reporter \<Rightarrow> daily_reporter \<times> delivery list \<times> bool" where
  "daily_tick env r =
     (if dy_hour env = dr_hour r \<and> dy_minute env = dr_minute r
      then if time_sub (dy_now env) (dr_lastSent r) < 2 * minute then (r, [], False)
           else (case daily_send env r of (r', ds) \<Rightarrow> (r', ds, True))
      else (r, [], False))"

section \<open>Facts\<close>

lemma f_gt_running_max: "f_le mx (running_max mx x) \<or> mx = NaN"
  by (cases mx; cases x) (auto simp: running_max_def)

lemma running_max_ge: "mx \<noteq> NaN \<Longrightarrow> f_le mx (running_max mx x) \<and> running_max mx x \<noteq> NaN \<and> (x = NaN \<or> f_le x (running_max mx x))"
  by (cases mx; cases x) (auto simp: running_max_def)

lemma report_fold:
  assumes "rp_CPUMax d \<noteq> NaN" "foldl report_step (d, a, b) cs = (d', a', b')"
  shows "rp_TotalCycles d' = rp_TotalCycles d \<and> rp_Actions d' = foldl (\<lambda>m c. incr (cr_Action c) m) (rp_Actions d) cs
     \<and> rp_CPUMax d' \<noteq> NaN \<and> f_le (rp_CPUMax d) (rp_CPUMax d')
     \<and> (\<forall>c\<in>set cs. sn_CPUPercent (cr_Snapshot c) = NaN \<or> f_le (sn_CPUPercent (cr_Snapshot c)) (rp_CPUMax d'))
     \<and> (rp_CPUMax d' = rp_CPUMax d \<or> (\<exists>c\<in>set cs. rp_CPUMax d' = sn_CPUPercent (cr_Snapshot c)))"
  using assms
proof (induction cs arbitrary: d a b)
  case (Cons c cs)
  obtain d1 a1 b1 where st: "report_step (d, a, b) c = (d1, a1, b1)" by (metis prod_cases3)
  then have d1: "rp_CPUMax d1 = running_max (rp_CPUMax d) (sn_CPUPercent (cr_Snapshot c))"
    "rp_TotalCycles d1 = rp_TotalCycles d" "rp_Actions d1 = incr (cr_Action c) (rp_Actions d)"
    by (auto simp: report_step_def Let_def)
  note m = running_max_ge [OF Cons.prems(1), of "sn_CPUPercent (cr_Snapshot c)"]
  have "foldl report_step (d1, a1, b1) cs = (d', a', b')" using Cons.prems(2) st by simp
  from Cons.IH [OF _ this] m d1 have ih:
    "rp_TotalCycles d' = rp_TotalCycles d" "rp_Actions d' = foldl (\<lambda>m c. incr (cr_Action c) m) (rp_Actions d) (c # cs)"
    "rp_CPUMax d' \<noteq> NaN" "f_le (rp_CPUMax d1) (rp_CPUMax d')"
    "\<forall>c\<in>set cs. sn_CPUPercent (cr_Snapshot c) = NaN \<or> f_le (sn_CPUPercent (cr_Snapshot c)) (rp_CPUMax d')"
    "rp_CPUMax d' = rp_CPUMax d1 \<or> (\<exists>c\<in>set cs. rp_CPUMax d' = sn_CPUPercent (cr_Snapshot c))" by auto
  have "f_le (rp_CPUMax d) (rp_CPUMax d')" using m ih(4) d1(1) f_le_trans by metis
  moreover have "sn_CPUPercent (cr_Snapshot c) = NaN \<or> f_le (sn_CPUPercent (cr_Snapshot c)) (rp_CPUMax d')"
    using m ih(4) d1(1) f_le_trans by metis
  moreover have "rp_CPUMax d1 = rp_CPUMax d \<or> rp_CPUMax d1 = sn_CPUPercent (cr_Snapshot c)"
    by (simp add: d1 running_max_def)
  ultimately show ?case using ih by auto
qed simp

lemma occurrences_sum: "a \<noteq> b \<Longrightarrow> occurrences a cs + occurrences b cs \<le> int (length cs)"
  by (induction cs) (auto simp: occurrences_def)

lemma build_report_spec:
  assumes "cs \<noteq> []" "d = build_report date cs"
  shows "rp_TotalCycles d = int (length cs)
     \<and> rp_AlertCount d = occurrences ''alert'' cs \<and> rp_ExecuteCount d = occurrences ''execute'' cs
     \<and> f_le (Fin 0) (rp_CPUMax d)
     \<and> (\<forall>c\<in>set cs. sn_CPUPercent (cr_Snapshot c) = NaN \<or> f_le (sn_CPUPercent (cr_Snapshot c)) (rp_CPUMax d))
     \<and> (rp_CPUMax d = Fin 0 \<or> (\<exists>c\<in>set cs. rp_CPUMax d = sn_CPUPercent (cr_Snapshot c)))"
proof -
  let ?d0 = "(empty_report date)\<lparr>rp_TotalCycles := int (length cs)\<rparr>"
  obtain d' a b where f: "foldl report_step (?d0, Fin 0, Fin 0) cs = (d', a, b)" by (metis prod_cases3)
  have d0: "rp_CPUMax ?d0 \<noteq> NaN" by (simp add: empty_report_def)
  have d: "rp_TotalCycles d = rp_TotalCycles d'" "rp_AlertCount d = count_of ''alert'' (rp_Actions d')"
    "rp_ExecuteCount d = count_of ''execute'' (rp_Actions d')" "rp_CPUMax d = rp_CPUMax d'"
    using assms f by (simp_all add: build_report_def)
  have "rp_Actions d' = action_counts cs"
    using report_fold [OF d0 f] by (simp add: action_counts_def empty_report_def)
  then show ?thesis
    using report_fold [OF d0 f] action_counts_spec [of cs] unfolding d by (simp add: empty_report_def)
qed

section \<open>Properties\<close>

text \<open>the report tells the truth about the decisions it read: their number, how many were alerts and how
  many executions (never more than all of them together), and the highest CPU level among them.\<close>
theorem report_is_truthful:
  assumes "store_last_cycles report_limit st = Some cs" "cs \<noteq> []" "d = report_of_store date st"
  shows "rp_TotalCycles d = int (length cs)
     \<and> rp_AlertCount d = occurrences ''alert'' cs \<and> rp_ExecuteCount d = occurrences ''execute'' cs
     \<and> rp_AlertCount d + rp_ExecuteCount d \<le> rp_TotalCycles d
     \<and> (\<forall>c\<in>set cs. sn_CPUPercent (cr_Snapshot c) = NaN \<or> f_le (sn_CPUPercent (cr_Snapshot c)) (rp_CPUMax d))
     \<and> (rp_CPUMax d = Fin 0 \<or> (\<exists>c\<in>set cs. rp_CPUMax d = sn_CPUPercent (cr_Snapshot c)))"
  using build_report_spec [OF assms(2), of d date] occurrences_sum [of "''alert''" "''execute''" cs] assms(1,3)
  by (simp add: report_of_store_def)

theorem report_is_truthful_witness:
  "rp_ExecuteCount (report_of_store ''d'' (fst (store_add_cycle (sample_cycle ''uptime'') (SJson (empty_state ''s''))))) = 1"
proof -
  let ?st = "fst (store_add_cycle (sample_cycle ''uptime'') (SJson (empty_state ''s'')))"
  have l: "store_last_cycles report_limit ?st = Some [(sample_cycle ''uptime'')\<lparr>cr_CycleNum := 1\<rparr>]"
    by (simp add: report_limit_def js_last_cycles_def go_last_def js_add_cycle_def empty_state_def max_history_def Let_def)
  show ?thesis
    using report_is_truthful [OF l _ refl, of "''d''"]
    by (simp add: occurrences_def sample_cycle_def new_cycle_record_def)
qed

text \<open>with the JSON store alone the report covers at most the 20 latest decisions, not a day's.\<close>
theorem json_report_covers_twenty:
  assumes "js_inv s"
  shows "rp_TotalCycles (report_of_store date (SJson s)) \<le> 20"
proof -
  have len: "length (js_Cycles s) \<le> 20" using assms by (simp add: js_inv_def max_history_def)
  then have l: "store_last_cycles report_limit (SJson s) = Some (js_Cycles s)"
    by (simp add: report_limit_def js_last_cycles_def go_last_def)
  show ?thesis
  proof (cases "js_Cycles s = []")
    case True
    with l show ?thesis by (simp add: report_of_store_def build_report_def empty_report_def)
  next
    case False
    with build_report_spec [OF False refl, of date] l len show ?thesis by (simp add: report_of_store_def)
  qed
qed

theorem json_report_covers_twenty_witness:
  "rp_TotalCycles (report_of_store ''d'' (SJson (empty_state ''s''))) \<le> 20"
  by (rule json_report_covers_twenty [OF js_inv_empty])

text \<open>the ticks of one day send one report. After a report, no tick within the next two minutes sends
  another, and a tick sends only at the configured hour and minute; in dry-run mode nothing is delivered.\<close>
theorem daily_report_once:
  assumes "daily_tick env r = (r', ds, sent)" "daily_tick env' r' = (r'', ds', sent')" "sent"
  shows "dy_hour env = dr_hour r \<and> dy_minute env = dr_minute r
     \<and> (sent' \<longrightarrow> 2 * minute \<le> time_sub (dy_now env') (dy_sent env))
     \<and> (dr_dryRun r \<longrightarrow> ds = [])"
  using assms by (auto simp: daily_tick_def daily_send_def Let_def split: if_splits prod.splits)

definition sample_daily_env :: "time \<Rightarrow> daily_env" where
  "sample_daily_env t =
     \<lparr>dy_hour = 8, dy_minute = 0, dy_now = t, dy_sent = t, dy_date = ''d'', dy_rfc3339 = (\<lambda>_. ''t''),
      dy_send = (\<lambda>_ _. HttpTransportError ''down''), dy_store = SNoop\<rparr>"

theorem daily_report_once_witness:
  "\<not> snd (snd (daily_tick (sample_daily_env (hour + minute))
      (fst (daily_tick (sample_daily_env hour) (new_daily_reporter (new_dispatcher True) 8 0 True)))))"
proof -
  let ?t1 = "daily_tick (sample_daily_env hour) (new_daily_reporter (new_dispatcher True) 8 0 True)"
  let ?t2 = "daily_tick (sample_daily_env (hour + minute)) (fst ?t1)"
  have 1: "?t1 = (fst ?t1, fst (snd ?t1), snd (snd ?t1))" and 2: "?t2 = (fst ?t2, fst (snd ?t2), snd (snd ?t2))"
    by simp_all
  have "snd (snd ?t1)"
    by (simp add: daily_tick_def sample_daily_env_def new_daily_reporter_def daily_send_def time_sub_def
        min_duration_def max_duration_def Let_def)
  from daily_report_once [OF 1 2 this] show ?thesis
    by (auto simp: sample_daily_env_def time_sub_def min_duration_def max_duration_def)
qed

end
