(* ===== verification/JX_Qdrant.thy ===== *)
theory JX_Qdrant
  imports JX_Ollama JX_Stores JX_Agent
begin

text \<open>
  The semantic memory, \<open>runtime/agents/qdrant_agent.go\<close>: the latest decision is embedded and stored in a
  Qdrant collection, the current state is embedded and the closest past decisions are recalled for the next
  prompt. Requests to Qdrant go through a circuit breaker of their own, the same state machine as the
  client's. The two servers and the clock are the environment; a vector keeps the literals of its numbers.
\<close>

section \<open>Point identifiers\<close>

text \<open>FNV-1a on 64-bit words, \<open>hash/fnv\<close>'s \<open>New64a\<close>.\<close>

definition fnv_offset :: "64 word" where "fnv_offset = 14695981039346656037"
definition fnv_prime :: "64 word" where "fnv_prime = 1099511628211"

definition fnv_step :: "64 word \<Rightarrow> char \<Rightarrow> 64 word" where
  "fnv_step h c = xor h (word_of_nat (byte c)) * fnv_prime"

definition fnv1a :: "string \<Rightarrow> 64 word" where
  "fnv1a s = foldl fnv_step fnv_offset s"

definition cycle_point_id :: "string \<Rightarrow> int \<Rightarrow> 64 word" where
  "cycle_point_id instanceID n = fnv1a (instanceID @ '':'' @ show_int n)"

section \<open>Scores\<close>

text \<open>
  A score is a \<open>float32\<close>: the nearest one to the JSON literal, ties to even; a literal beyond its range is
  a decoding error.
\<close>

definition round32 :: "rat \<Rightarrow> rat" where
  "round32 a =
     (if a = 0 then 0
      else let u = 2 powi (max (fexp \<bar>a\<bar>) (- 126) - 23) in sgn a * of_int (rhe (\<bar>a\<bar> / u)) * u)"

definition min_similarity_score :: rat where "min_similarity_score = round32 (3 / 5)"

definition similar_decisions_k :: int where "similar_decisions_k = 3"

record search_hit =
  sh_score :: rat
  sh_payload :: "(string \<times> json) list"

text \<open>A payload is a \<open>map[string]any\<close>: a repeated key overwrites, null leaves what was there.\<close>

fun decode_hit :: "(string \<times> json) list \<Rightarrow> search_hit \<times> bool \<Rightarrow> search_hit \<times> bool" where
  "decode_hit [] acc = acc"
| "decode_hit ((k, v) # ms) (h, ok) =
     (if named_field ''score'' k then
        (case v of
           JNum t \<Rightarrow> if float32_ok t then decode_hit ms (h\<lparr>sh_score := round32 (num_rat t)\<rparr>, ok)
                     else decode_hit ms (h, False)
         | JNull \<Rightarrow> decode_hit ms (h, ok) | _ \<Rightarrow> decode_hit ms (h, False))
      else if named_field ''payload'' k then
        (case v of
           JObj fs \<Rightarrow> decode_hit ms (h\<lparr>sh_payload := sh_payload h @ fs\<rparr>, ok \<and> json_numbers_ok v)
         | JNull \<Rightarrow> decode_hit ms (h\<lparr>sh_payload := []\<rparr>, ok) | _ \<Rightarrow> decode_hit ms (h, False))
      else decode_hit ms (h, ok))"

definition empty_hit :: search_hit where
  "empty_hit = \<lparr>sh_score = 0, sh_payload = []\<rparr>"

fun decode_hits :: "json list \<Rightarrow> search_hit list \<times> bool \<Rightarrow> search_hit list \<times> bool" where
  "decode_hits [] acc = acc"
| "decode_hits (v # vs) (hs, ok) =
     (case v of
        JObj fs \<Rightarrow> (case decode_hit fs (empty_hit, ok) of (h, ok') \<Rightarrow> decode_hits vs (hs @ [h], ok'))
      | JNull \<Rightarrow> decode_hits vs (hs @ [empty_hit], ok)
      | _ \<Rightarrow> decode_hits vs (hs @ [empty_hit], False))"

fun decode_result :: "(string \<times> json) list \<Rightarrow> search_hit list \<times> bool \<Rightarrow> search_hit list \<times> bool" where
  "decode_result [] acc = acc"
| "decode_result ((k, v) # ms) (hs, ok) =
     (if named_field ''result'' k then
        (case v of JArr vs \<Rightarrow> decode_result ms (decode_hits vs ([], ok))
         | JNull \<Rightarrow> decode_result ms ([], ok) | _ \<Rightarrow> decode_result ms (hs, False))
      else decode_result ms (hs, ok))"

definition decode_search :: "string \<Rightarrow> search_hit list option" where
  "decode_search s =
     (case parse_value (2 * length s + 2) 0 s of
        Some (JObj ms, _) \<Rightarrow> (case decode_result ms ([], True) of (hs, ok) \<Rightarrow> if ok then Some hs else None)
      | Some (JNull, _) \<Rightarrow> Some []
      | _ \<Rightarrow> None)"

definition payload_get :: "(string \<times> json) list \<Rightarrow> string \<Rightarrow> json option" where
  "payload_get fs k = map_of (rev fs) k"

definition payload_string :: "(string \<times> json) list \<Rightarrow> string \<Rightarrow> string" where
  "payload_string fs k = (case payload_get fs k of Some (JStr s) \<Rightarrow> s | _ \<Rightarrow> [])"

definition payload_float :: "(string \<times> json) list \<Rightarrow> string \<Rightarrow> f64" where
  "payload_float fs k =
     (case payload_get fs k of
        Some (JNum t) \<Rightarrow> (case json_float t of Some x \<Rightarrow> x | None \<Rightarrow> Fin 0) | _ \<Rightarrow> Fin 0)"

definition hit_text :: "search_hit \<Rightarrow> string" where
  "hit_text h =
     ''['' @ payload_string (sh_payload h) ''action'' @ ''] '' @ payload_string (sh_payload h) ''analysis''
     @ ''. '' @ payload_string (sh_payload h) ''reason'' @ '' (score:'' @ fmt_f 2 (Fin (sh_score h))
     @ '' conf:'' @ fmt_f 2 (payload_float (sh_payload h) ''confidence'') @ '')''"

definition similar_texts :: "search_hit list \<Rightarrow> string list" where
  "similar_texts hs = map hit_text (filter (\<lambda>h. \<not> sh_score h < min_similarity_score) hs)"

section \<open>Requests\<close>

datatype qdrant_request =
    CheckCollection
  | CreateCollection int
  | Upsert "64 word" "string list" cycle_record
  | Search "string list" int

definition collection_url :: "string \<Rightarrow> string" where
  "collection_url base = base @ ''/collections/jarvinx_decisions''"

definition request_url :: "string \<Rightarrow> qdrant_request \<Rightarrow> string" where
  "request_url base rq =
     (case rq of
        CheckCollection \<Rightarrow> collection_url base
      | CreateCollection _ \<Rightarrow> collection_url base
      | Upsert _ _ _ \<Rightarrow> collection_url base @ ''/points''
      | Search _ _ \<Rightarrow> collection_url base @ ''/points/search'')"

datatype qdrant_error =
  QdrantOpen | QdrantCreateRequest string | QdrantTransport string | QdrantStatus int | QdrantDecode

section \<open>The agent\<close>

record qdrant_agent =
  qa_base :: base_agent
  qa_url :: string
  qa_embedCircuit :: circuit_breaker
  qa_circuit :: circuit_breaker
  qa_instanceID :: string
  qa_collReady :: bool
  qa_lastSimilar :: "string list"

definition new_qdrant_agent :: "string \<Rightarrow> string \<Rightarrow> qdrant_agent" where
  "new_qdrant_agent url inst =
     \<lparr>qa_base = new_base_agent ''qdrant'' (15 * second), qa_url = url,
      qa_embedCircuit = default_circuit_breaker, qa_circuit = default_circuit_breaker, qa_instanceID = inst,
      qa_collReady = False, qa_lastSimilar = []\<rparr>"

text \<open>What a run meets: Ollama's answer for a text, Qdrant's answer for a request, the clock.\<close>

record qdrant_env =
  qe_embed :: "string \<Rightarrow> http_result"
  qe_qdrant :: "qdrant_request \<Rightarrow> http_result"
  qe_now :: time

text \<open>
  One operation on Qdrant: the requests made, the result, the breaker. \<open>ensureCollection\<close> may make two.
\<close>

definition ensure_collection ::
  "qdrant_env \<Rightarrow> int \<Rightarrow> circuit_breaker \<Rightarrow> qdrant_request list \<times> qdrant_error option \<times> circuit_breaker" where
  "ensure_collection env vdim cb0 =
     (case cb_allow (qe_now env) cb0 of
        (Some _, cb) \<Rightarrow> ([], Some QdrantOpen, cb)
      | (None, cb) \<Rightarrow>
          (case qe_qdrant env CheckCollection of
             HttpRequestError e \<Rightarrow> ([], Some (QdrantCreateRequest e), cb)
           | HttpTransportError e \<Rightarrow> ([CheckCollection], Some (QdrantTransport e), cb_record_failure (qe_now env) cb)
           | HttpResponse status _ \<Rightarrow>
               if status = status_ok then ([CheckCollection], None, cb_record_success cb)
               else if status \<noteq> status_not_found
               then ([CheckCollection], Some (QdrantStatus status), cb_record_failure (qe_now env) cb)
               else (case qe_qdrant env (CreateCollection vdim) of
                  HttpRequestError e \<Rightarrow> ([CheckCollection], Some (QdrantCreateRequest e), cb)
                | HttpTransportError e \<Rightarrow>
                    ([CheckCollection, CreateCollection vdim], Some (QdrantTransport e), cb_record_failure (qe_now env) cb)
                | HttpResponse status' _ \<Rightarrow>
                    if status' \<noteq> status_ok
                    then ([CheckCollection, CreateCollection vdim], Some (QdrantStatus status'),
                          cb_record_failure (qe_now env) cb)
                    else ([CheckCollection, CreateCollection vdim], None, cb_record_success cb))))"

definition ensure_collection_once ::
  "qdrant_env \<Rightarrow> int \<Rightarrow> qdrant_agent \<Rightarrow> qdrant_request list \<times> qdrant_error option \<times> qdrant_agent" where
  "ensure_collection_once env vdim a =
     (if qa_collReady a then ([], None, a)
      else case ensure_collection env vdim (qa_circuit a) of
        (rqs, Some e, cb) \<Rightarrow> (rqs, Some e, a\<lparr>qa_circuit := cb\<rparr>)
      | (rqs, None, cb) \<Rightarrow> (rqs, None, a\<lparr>qa_circuit := cb, qa_collReady := True\<rparr>))"

definition qdrant_upsert ::
  "qdrant_env \<Rightarrow> cycle_record \<Rightarrow> string list \<Rightarrow> qdrant_agent \<Rightarrow> qdrant_request list \<times> qdrant_error option \<times> qdrant_agent" where
  "qdrant_upsert env r vec a =
     (let rq = Upsert (cycle_point_id (qa_instanceID a) (cr_CycleNum r)) vec r in
      case cb_allow (qe_now env) (qa_circuit a) of
        (Some _, cb) \<Rightarrow> ([], Some QdrantOpen, a\<lparr>qa_circuit := cb\<rparr>)
      | (None, cb) \<Rightarrow>
          (case qe_qdrant env rq of
             HttpRequestError e \<Rightarrow> ([], Some (QdrantCreateRequest e), a\<lparr>qa_circuit := cb\<rparr>)
           | HttpTransportError e \<Rightarrow>
               ([rq], Some (QdrantTransport e), a\<lparr>qa_circuit := cb_record_failure (qe_now env) cb\<rparr>)
           | HttpResponse status _ \<Rightarrow>
               if status \<noteq> status_ok
               then ([rq], Some (QdrantStatus status), a\<lparr>qa_circuit := cb_record_failure (qe_now env) cb\<rparr>)
               else ([rq], None, a\<lparr>qa_circuit := cb_record_success cb\<rparr>)))"

definition qdrant_search ::
  "qdrant_env \<Rightarrow> string list \<Rightarrow> qdrant_agent \<Rightarrow> qdrant_request list \<times> (qdrant_error + string list) \<times> qdrant_agent" where
  "qdrant_search env vec a =
     (let rq = Search vec similar_decisions_k in
      case cb_allow (qe_now env) (qa_circuit a) of
        (Some _, cb) \<Rightarrow> ([], Inl QdrantOpen, a\<lparr>qa_circuit := cb\<rparr>)
      | (None, cb) \<Rightarrow>
          (case qe_qdrant env rq of
             HttpRequestError e \<Rightarrow> ([], Inl (QdrantCreateRequest e), a\<lparr>qa_circuit := cb\<rparr>)
           | HttpTransportError e \<Rightarrow>
               ([rq], Inl (QdrantTransport e), a\<lparr>qa_circuit := cb_record_failure (qe_now env) cb\<rparr>)
           | HttpResponse status body \<Rightarrow>
               if status \<noteq> status_ok
               then ([rq], Inl (QdrantStatus status), a\<lparr>qa_circuit := cb_record_failure (qe_now env) cb\<rparr>)
               else (case (case body of Inl _ \<Rightarrow> None | Inr raw \<Rightarrow> decode_search raw) of
                  None \<Rightarrow> ([rq], Inl QdrantDecode, a\<lparr>qa_circuit := cb_record_failure (qe_now env) cb\<rparr>)
                | Some hits \<Rightarrow> ([rq], Inr (similar_texts hits), a\<lparr>qa_circuit := cb_record_success cb\<rparr>))))"

definition embed_text :: "qdrant_env \<Rightarrow> string \<Rightarrow> qdrant_agent \<Rightarrow> (embed_failure + string list) \<times> qdrant_agent" where
  "embed_text env text a =
     (case embed (qe_now env) (qe_embed env text) (qe_now env) (qa_embedCircuit a) of
        (r, cb) \<Rightarrow> (r, a\<lparr>qa_embedCircuit := cb\<rparr>))"

definition decision_text :: "cycle_record \<Rightarrow> string" where
  "decision_text r = ''['' @ cr_Action r @ ''] '' @ cr_Analysis r @ ''. '' @ cr_Reason r"

definition store_decision :: "qdrant_env \<Rightarrow> store \<Rightarrow> qdrant_agent \<Rightarrow> qdrant_request list \<times> qdrant_agent" where
  "store_decision env st a0 =
     (case store_last_cycles 1 st of
        Some (r # _) \<Rightarrow>
          (case embed_text env (decision_text r) a0 of
             (Inl _, a) \<Rightarrow> ([], a)
           | (Inr vec, a) \<Rightarrow>
               (case ensure_collection_once env (int (length vec)) a of
                  (rqs, Some _, a') \<Rightarrow> (rqs, a')
                | (rqs, None, a') \<Rightarrow> (case qdrant_upsert env r vec a' of (rqs', _, a'') \<Rightarrow> (rqs @ rqs', a''))))
      | _ \<Rightarrow> ([], a0))"

definition query_text :: "snapshot \<Rightarrow> string" where
  "query_text s =
     ''[observe] CPU:'' @ fmt_f 1 (sn_CPUPercent s) @ ''% RAM:'' @ fmt_f 1 (sn_MemPercent s)
     @ ''% Disk:'' @ fmt_f 1 (sn_DiskPercent s) @ ''%.''"

definition update_similar :: "qdrant_env \<Rightarrow> snapshot \<Rightarrow> qdrant_agent \<Rightarrow> qdrant_request list \<times> qdrant_agent" where
  "update_similar env snap a0 =
     (if \<not> qa_collReady a0 then ([], a0)
      else case embed_text env (query_text snap) a0 of
        (Inl _, a) \<Rightarrow> ([], a)
      | (Inr vec, a) \<Rightarrow>
          (case qdrant_search env vec a of
             (rqs, Inl _, a') \<Rightarrow> (rqs, a')
           | (rqs, Inr similar, a') \<Rightarrow> (rqs, a'\<lparr>qa_lastSimilar := similar\<rparr>)))"

definition qdrant_run ::
  "qdrant_env \<times> snapshot \<times> store \<Rightarrow> qdrant_agent \<Rightarrow> qdrant_agent \<times> qdrant_request list" where
  "qdrant_run i a =
     (case i of (env, snap, st) \<Rightarrow>
        (case store_decision env st a of (rqs, a1) \<Rightarrow>
           (case update_similar env snap a1 of (rqs', a2) \<Rightarrow>
              (a2\<lparr>qa_base := record_success (qe_now env) (qa_base a2)\<rparr>, rqs @ rqs'))))"

section \<open>The hash separates\<close>

lemma fnv_prime_inverse: "fnv_prime * 14886173955864302971 = 1"
  by (simp add: fnv_prime_def)

lemma fnv_step_inj_hash: "fnv_step h c = fnv_step h' c \<longleftrightarrow> h = h'"
proof
  assume "fnv_step h c = fnv_step h' c"
  then have "xor h (word_of_nat (byte c)) * (fnv_prime * 14886173955864302971)
      = xor h' (word_of_nat (byte c)) * (fnv_prime * 14886173955864302971)"
    by (simp only: fnv_step_def mult.assoc [symmetric])
  then have "xor (xor h (word_of_nat (byte c))) (word_of_nat (byte c))
      = xor (xor h' (word_of_nat (byte c))) (word_of_nat (byte c))" by (simp add: fnv_prime_inverse)
  then show "h = h'" by (simp add: xor.assoc)
qed simp

lemma word_of_byte_inj: "(word_of_nat (byte c) :: 64 word) = word_of_nat (byte c') \<longleftrightarrow> c = c'"
proof -
  have b: "unat (word_of_nat (byte c) :: 64 word) = byte c" for c
  proof -
    have "byte c < 18446744073709551616" using nat_of_char_less_256 [of c] by linarith
    then show ?thesis by (simp add: unat_of_nat)
  qed
  have "(word_of_nat (byte c) :: 64 word) = word_of_nat (byte c') \<longleftrightarrow> byte c = byte c'"
    using b by metis
  then show ?thesis by simp
qed

lemma fnv_step_inj_char: "fnv_step h c = fnv_step h c' \<longleftrightarrow> c = c'"
proof
  assume "fnv_step h c = fnv_step h c'"
  then have "xor h (word_of_nat (byte c)) * (fnv_prime * 14886173955864302971)
      = xor h (word_of_nat (byte c')) * (fnv_prime * 14886173955864302971)"
    by (simp only: fnv_step_def mult.assoc [symmetric])
  then have "xor h (xor h (word_of_nat (byte c))) = xor h (xor h (word_of_nat (byte c')))"
    by (simp add: fnv_prime_inverse)
  then have "(word_of_nat (byte c) :: 64 word) = word_of_nat (byte c')" by (simp add: xor.assoc [symmetric])
  then show "c = c'" by (simp only: word_of_byte_inj)
qed simp

lemma fnv_fold_inj: "foldl fnv_step h s = foldl fnv_step h' s \<longleftrightarrow> h = h'"
  by (induction s arbitrary: h h') (simp_all add: fnv_step_inj_hash)

lemma fnv_separates: "c \<noteq> c' \<Longrightarrow> fnv1a (p @ c # s) \<noteq> fnv1a (p @ c' # s)"
  by (simp add: fnv1a_def fnv_fold_inj fnv_step_inj_char)

section \<open>Facts\<close>

lemma embed_text_frame:
  "embed_text env t a = (r, a') \<Longrightarrow> qa_base a' = qa_base a \<and> qa_collReady a' = qa_collReady a
     \<and> qa_circuit a' = qa_circuit a \<and> qa_lastSimilar a' = qa_lastSimilar a \<and> qa_instanceID a' = qa_instanceID a"
  by (auto simp: embed_text_def split: prod.splits)

lemma ensure_once_frame:
  "ensure_collection_once env d a = (rqs, e, a') \<Longrightarrow>
     qa_base a' = qa_base a \<and> qa_lastSimilar a' = qa_lastSimilar a \<and> qa_instanceID a' = qa_instanceID a
     \<and> (qa_collReady a' \<longleftrightarrow> qa_collReady a \<or> e = None) \<and> (\<forall>rq\<in>set rqs. \<not> qa_collReady a \<and> (rq = CheckCollection \<or> rq = CreateCollection d))"
  by (auto simp: ensure_collection_once_def ensure_collection_def
      split: if_splits prod.splits option.splits http_result.splits)

lemma upsert_frame:
  "qdrant_upsert env r v a = (rqs, e, a') \<Longrightarrow>
     qa_base a' = qa_base a \<and> qa_lastSimilar a' = qa_lastSimilar a \<and> qa_collReady a' = qa_collReady a
     \<and> (\<forall>rq\<in>set rqs. rq = Upsert (cycle_point_id (qa_instanceID a) (cr_CycleNum r)) v r)"
  by (auto simp: qdrant_upsert_def Let_def split: if_splits prod.splits option.splits http_result.splits)

lemma search_frame:
  "qdrant_search env v a = (rqs, res, a') \<Longrightarrow>
     qa_base a' = qa_base a \<and> qa_lastSimilar a' = qa_lastSimilar a \<and> qa_collReady a' = qa_collReady a
     \<and> (\<forall>rq\<in>set rqs. rq = Search v similar_decisions_k)
     \<and> (\<forall>xs. res = Inr xs \<longrightarrow> (\<exists>hits. xs = similar_texts hits))"
  by (auto simp: qdrant_search_def Let_def split: if_splits prod.splits option.splits http_result.splits sum.splits)

lemma search_blocked:
  "fst (cb_allow (qe_now env) (qa_circuit a)) \<noteq> None \<Longrightarrow> fst (qdrant_search env v a) = []"
  by (auto simp: qdrant_search_def Let_def split: prod.splits option.splits)

lemma store_decision_frame:
  "store_decision env st a = (rqs, a') \<Longrightarrow>
     qa_base a' = qa_base a \<and> qa_lastSimilar a' = qa_lastSimilar a \<and> (qa_collReady a \<longrightarrow> qa_collReady a')
     \<and> (\<forall>rq\<in>set rqs. case rq of CheckCollection \<Rightarrow> \<not> qa_collReady a | CreateCollection _ \<Rightarrow> \<not> qa_collReady a
          | Upsert _ _ _ \<Rightarrow> qa_collReady a' | Search _ _ \<Rightarrow> False)"
proof -
  assume run: "store_decision env st a = (rqs, a')"
  show ?thesis
  proof (cases "\<exists>r more v b. store_last_cycles 1 st = Some (r # more) \<and> embed_text env (decision_text r) a = (Inr v, b)")
    case False
    then show ?thesis
      using run by (auto simp: store_decision_def split: option.splits list.splits prod.splits sum.splits
          dest!: embed_text_frame)
  next
    case True
    then obtain r more v b where e: "store_last_cycles 1 st = Some (r # more)" "embed_text env (decision_text r) a = (Inr v, b)"
      by blast
    obtain rq1 err c where n: "ensure_collection_once env (int (length v)) b = (rq1, err, c)" by (metis prod_cases3)
    obtain rq2 err2 d where u: "qdrant_upsert env r v c = (rq2, err2, d)" by (metis prod_cases3)
    note frames = embed_text_frame [OF e(2)] ensure_once_frame [OF n] upsert_frame [OF u]
    show ?thesis
    proof (cases err)
      case None
      with run e n u have r: "rqs = rq1 @ rq2" "a' = d" by (simp_all add: store_decision_def)
      show ?thesis using frames None unfolding r by fastforce
    next
      case (Some x)
      with run e n have r: "rqs = rq1" "a' = c" by (simp_all add: store_decision_def)
      show ?thesis using frames Some unfolding r by fastforce
    qed
  qed
qed

lemma update_similar_frame:
  "update_similar env snap a = (rqs, a') \<Longrightarrow>
     qa_base a' = qa_base a \<and> qa_collReady a' = qa_collReady a
     \<and> (\<forall>rq\<in>set rqs. qa_collReady a \<and> (\<exists>v. rq = Search v similar_decisions_k))
     \<and> (qa_lastSimilar a' = qa_lastSimilar a \<or> (\<exists>hits. qa_lastSimilar a' = similar_texts hits))"
  by (auto simp: update_similar_def split: if_splits prod.splits sum.splits
      dest!: embed_text_frame search_frame)

interpretation qdrant: agent qa_base "\<lambda>i a. fst (qdrant_run i a)"
  by unfold_locales
    (auto simp: qdrant_run_def split: prod.splits dest!: store_decision_frame update_similar_frame)

section \<open>Properties\<close>

text \<open>point identifiers do not collide where it matters most: two runs whose instance ids differ in one
  byte never share the identifier of a cycle, and within a run neither do two cycles whose numbers differ in
  one decimal digit.\<close>
theorem point_ids_separate:
  "c \<noteq> c' \<Longrightarrow> cycle_point_id (p @ c # s) n \<noteq> cycle_point_id (p @ c' # s) n
     \<and> (show_int i = q @ c # t \<longrightarrow> show_int j = q @ c' # t \<longrightarrow> cycle_point_id inst i \<noteq> cycle_point_id inst j)"
  using fnv_separates [of c c' p "s @ '':'' @ show_int n"] fnv_separates [of c c' "inst @ '':'' @ q" t]
  by (simp add: cycle_point_id_def)

theorem point_ids_separate_witness:
  "cycle_point_id ''ab'' 41 \<noteq> cycle_point_id ''ab'' 42"
proof -
  have "show_int 41 = ''4'' @ CHR ''1'' # []" "show_int 42 = ''4'' @ CHR ''2'' # []" by code_simp+
  with point_ids_separate [of "CHR ''1''" "CHR ''2''" "[]" "[]" 0 41 "''4''" "[]" 42 "''ab''"]
  show ?thesis by simp
qed



end
