(* ===== verification/JX_Config.thy ===== *)
theory JX_Config
  imports JX_Strings JX_Context
begin

text \<open>
  The configuration: \<open>runtime/config/config.go\<close> (the record and its defaults), \<open>env.go\<close> (the \<open>.env\<close> file
  and the variables that override the defaults) and \<open>validate.go\<close>. The environment of the process is a map
  from names to values. \<open>strconv.ParseFloat\<close>, \<open>time.ParseDuration\<close> and \<open>url.Parse\<close> are parameters: the
  code only passes their answer on.
\<close>

section \<open>The configuration\<close>

record config =
  cf_Interval :: duration
  cf_DryRun :: bool
  cf_OllamaURL :: string
  cf_Model :: string
  cf_LogFile :: string
  cf_StateFile :: string
  cf_SQLitePath :: string
  cf_CPUAlertThreshold :: f64
  cf_RAMAlertThreshold :: f64
  cf_DiskAlertThreshold :: f64
  cf_APIToken :: string
  cf_WebPort :: int
  cf_AlertFile :: string
  cf_AlertCooldown :: int
  cf_AlertMinCycles :: int
  cf_DiscordWebhook :: string
  cf_SlackWebhook :: string
  cf_NtfyURL :: string
  cf_NtfyTopic :: string
  cf_GotifyURL :: string
  cf_GotifyToken :: string
  cf_AllowedOrigins :: "string list"
  cf_LogMaxSizeBytes :: int
  cf_LogMaxBackups :: int
  cf_AlertMaxSizeBytes :: int
  cf_AlertMaxBackups :: int
  cf_DockerEnabled :: bool
  cf_DockerWatchList :: "string list"
  cf_FileEnabled :: bool
  cf_FileWatchPaths :: "string list"
  cf_FileMaxSizeMB :: int
  cf_DailyReportEnabled :: bool
  cf_DailyReportHour :: int
  cf_DailyReportMinute :: int
  cf_ExecCooldown :: duration
  cf_QdrantURL :: string
  cf_EmbedModel :: string

definition default_config :: config where
  "default_config =
     \<lparr>cf_Interval = 15 * second, cf_DryRun = False, cf_OllamaURL = ''http://localhost:11434'',
      cf_Model = ''llama3.1:8b'', cf_LogFile = ''logs.jsonl'', cf_StateFile = ''state.json'', cf_SQLitePath = [],
      cf_CPUAlertThreshold = Fin 85, cf_RAMAlertThreshold = Fin 90, cf_DiskAlertThreshold = Fin 85,
      cf_APIToken = [], cf_WebPort = 8080, cf_AlertFile = ''alerts.jsonl'', cf_AlertCooldown = 5,
      cf_AlertMinCycles = 2, cf_DiscordWebhook = [], cf_SlackWebhook = [], cf_NtfyURL = [], cf_NtfyTopic = [],
      cf_GotifyURL = [], cf_GotifyToken = [],
      cf_AllowedOrigins = [''http://localhost:3000'', ''http://localhost:8080''],
      cf_LogMaxSizeBytes = 10 * 1024 * 1024, cf_LogMaxBackups = 3, cf_AlertMaxSizeBytes = 5 * 1024 * 1024,
      cf_AlertMaxBackups = 3, cf_DockerEnabled = True, cf_DockerWatchList = [], cf_FileEnabled = True,
      cf_FileWatchPaths = [], cf_FileMaxSizeMB = 500, cf_DailyReportEnabled = False, cf_DailyReportHour = 8,
      cf_DailyReportMinute = 0, cf_ExecCooldown = 5 * minute, cf_QdrantURL = [],
      cf_EmbedModel = ''nomic-embed-text''\<rparr>"

section \<open>The environment\<close>

type_synonym environ = "string \<Rightarrow> string option"

definition getenv :: "environ \<Rightarrow> string \<Rightarrow> string" where
  "getenv env k = (case env k of None \<Rightarrow> [] | Some v \<Rightarrow> v)"

text \<open>\<open>os.Setenv\<close> refuses an empty name, a name with \<open>=\<close> and NUL bytes; the error is ignored.\<close>

definition setenv :: "string \<Rightarrow> string \<Rightarrow> environ \<Rightarrow> environ" where
  "setenv k v env =
     (if k = [] \<or> CHR ''='' \<in> set k \<or> CHR 0x00 \<in> set k \<or> CHR 0x00 \<in> set v then env else env(k \<mapsto> v))"

text \<open>One line of the file: the name and value it defines, if any.\<close>

definition env_binding :: "string \<Rightarrow> (string \<times> string) option" where
  "env_binding line0 =
     (let line = trim_space line0 in
      if line = [] \<or> prefix ''#'' line then None
      else case index_of line ''='' of
        None \<Rightarrow> None
      | Some i \<Rightarrow> Some (trim_space (take i line), trim_space (drop (i + 1) line)))"

definition load_line :: "string \<Rightarrow> environ \<Rightarrow> environ" where
  "load_line line env =
     (case env_binding line of None \<Rightarrow> env
      | Some (k, v) \<Rightarrow> if getenv env k = [] then setenv k v env else env)"

text \<open>\<open>LoadEnv\<close>: the lines of the file, \<open>None\<close> when it cannot be opened.\<close>

definition load_env :: "string list option \<Rightarrow> environ \<Rightarrow> environ" where
  "load_env file env = (case file of None \<Rightarrow> env | Some ls \<Rightarrow> foldl (\<lambda>e l. load_line l e) env ls)"

record parsers =
  pa_float :: "string \<Rightarrow> f64 option"
  pa_duration :: "string \<Rightarrow> duration option"
  pa_url :: "string \<Rightarrow> string + (string \<times> string)"

definition str_var :: "string \<Rightarrow> string \<Rightarrow> string" where
  "str_var v old = (if v \<noteq> [] then v else old)"

definition parsed_var :: "(string \<Rightarrow> 'a option) \<Rightarrow> string \<Rightarrow> 'a \<Rightarrow> 'a" where
  "parsed_var p v old = (if v = [] then old else case p v of Some x \<Rightarrow> x | None \<Rightarrow> old)"

definition ranged_var :: "int \<Rightarrow> string \<Rightarrow> int \<Rightarrow> int" where
  "ranged_var mx v old =
     (if v = [] then old else case atoi v of Some i \<Rightarrow> if 0 \<le> i \<and> i \<le> mx then i else old | None \<Rightarrow> old)"

definition split_var :: "string \<Rightarrow> string list \<Rightarrow> string list" where
  "split_var v old = (if v \<noteq> [] then split_on (CHR '','') v else old)"

definition origins_var :: "string \<Rightarrow> string list \<Rightarrow> string list" where
  "origins_var v old =
     (if v \<noteq> [] then old @ filter (\<lambda>x. x \<noteq> []) (map trim_space (split_on (CHR '','') v)) else old)"

definition from_env :: "parsers \<Rightarrow> environ \<Rightarrow> config \<Rightarrow> config" where
  "from_env pa env c =
     (let g = getenv env in
      c\<lparr>cf_Model := str_var (g ''JARVINX_MODEL'') (cf_Model c),
        cf_OllamaURL := str_var (g ''JARVINX_OLLAMA_URL'') (cf_OllamaURL c),
        cf_Interval := parsed_var (pa_duration pa) (g ''JARVINX_INTERVAL'') (cf_Interval c),
        cf_CPUAlertThreshold := parsed_var (pa_float pa) (g ''JARVINX_CPU_THRESHOLD'') (cf_CPUAlertThreshold c),
        cf_RAMAlertThreshold := parsed_var (pa_float pa) (g ''JARVINX_RAM_THRESHOLD'') (cf_RAMAlertThreshold c),
        cf_DiskAlertThreshold := parsed_var (pa_float pa) (g ''JARVINX_DISK_THRESHOLD'') (cf_DiskAlertThreshold c),
        cf_AlertCooldown := parsed_var atoi (g ''JARVINX_ALERT_COOLDOWN'') (cf_AlertCooldown c),
        cf_AlertMinCycles := parsed_var atoi (g ''JARVINX_ALERT_MIN_CYCLES'') (cf_AlertMinCycles c),
        cf_LogMaxSizeBytes :=
          parsed_var (\<lambda>v. map_option (\<lambda>i. wrap64 (i * 1024 * 1024)) (atoi v)) (g ''JARVINX_LOG_MAX_MB'') (cf_LogMaxSizeBytes c),
        cf_LogMaxBackups := parsed_var atoi (g ''JARVINX_LOG_MAX_BACKUPS'') (cf_LogMaxBackups c),
        cf_DryRun := (g ''JARVINX_DRY_RUN'' = ''true'' \<or> cf_DryRun c),
        cf_WebPort := parsed_var atoi (g ''JARVINX_PORT'') (cf_WebPort c),
        cf_DiscordWebhook := str_var (g ''DISCORD_WEBHOOK'') (cf_DiscordWebhook c),
        cf_SlackWebhook := str_var (g ''SLACK_WEBHOOK'') (cf_SlackWebhook c),
        cf_NtfyURL := str_var (g ''NTFY_URL'') (cf_NtfyURL c),
        cf_NtfyTopic := str_var (g ''NTFY_TOPIC'') (cf_NtfyTopic c),
        cf_GotifyURL := str_var (g ''GOTIFY_URL'') (cf_GotifyURL c),
        cf_GotifyToken := str_var (g ''GOTIFY_TOKEN'') (cf_GotifyToken c),
        cf_DailyReportEnabled := (g ''JARVINX_DAILY_REPORT'' = ''true'' \<or> cf_DailyReportEnabled c),
        cf_DailyReportHour := ranged_var 23 (g ''JARVINX_REPORT_HOUR'') (cf_DailyReportHour c),
        cf_DailyReportMinute := ranged_var 59 (g ''JARVINX_REPORT_MINUTE'') (cf_DailyReportMinute c),
        cf_AllowedOrigins := origins_var (g ''JARVINX_ALLOWED_ORIGINS'') (cf_AllowedOrigins c),
        cf_DockerEnabled := (g ''JARVINX_DOCKER_ENABLED'' \<noteq> ''false'' \<and> cf_DockerEnabled c),
        cf_DockerWatchList := split_var (g ''JARVINX_DOCKER_WATCH'') (cf_DockerWatchList c),
        cf_FileWatchPaths := split_var (g ''JARVINX_FILE_WATCH'') (cf_FileWatchPaths c),
        cf_FileMaxSizeMB := parsed_var atoi (g ''JARVINX_FILE_MAX_MB'') (cf_FileMaxSizeMB c),
        cf_FileEnabled := (g ''JARVINX_FILE_ENABLED'' \<noteq> ''false'' \<and> cf_FileEnabled c),
        cf_SQLitePath := str_var (g ''JARVINX_SQLITE_PATH'') (cf_SQLitePath c),
        cf_ExecCooldown := parsed_var (pa_duration pa) (g ''JARVINX_EXEC_COOLDOWN'') (cf_ExecCooldown c),
        cf_QdrantURL := str_var (g ''JARVINX_QDRANT_URL'') (cf_QdrantURL c),
        cf_EmbedModel := str_var (g ''JARVINX_EMBED_MODEL'') (cf_EmbedModel c),
        cf_APIToken := str_var (g ''JARVINX_API_TOKEN'') (cf_APIToken c)\<rparr>)"

section \<open>Validation\<close>

definition min_interval :: duration where "min_interval = 5 * second"
definition max_interval :: duration where "max_interval = hour"

text \<open>A check adds its messages to the errors collected so far.\<close>

definition err_if :: "bool \<Rightarrow> string \<Rightarrow> string list" where
  "err_if b msg = (if b then [msg] else [])"

definition validate_threshold :: "string \<Rightarrow> f64 \<Rightarrow> string option" where
  "validate_threshold name v =
     (if f_le v (Fin 0) then Some (name @ '' doit '' @ e_circ @ ''tre > 0, got '' @ fmt_f 1 v)
      else if f_gt v (Fin 100) then Some (name @ '' doit '' @ e_circ @ ''tre <= 100, got '' @ fmt_f 1 v)
      else None)"

definition validate_webhook_url :: "parsers \<Rightarrow> string \<Rightarrow> string \<Rightarrow> string option" where
  "validate_webhook_url pa name raw =
     (if raw = [] then None
      else case pa_url pa raw of
        Inl e \<Rightarrow> Some (name @ '' URL invalide : '' @ e)
      | Inr (scheme, host) \<Rightarrow>
          if scheme \<noteq> ''https'' then Some (name @ '' URL doit commencer par https://, got '' @ squote @ scheme @ squote)
          else if host = [] then Some (name @ '' URL manque un host valide : '' @ squote @ raw @ squote)
          else None)"

abbreviation backslash :: char where "backslash \<equiv> CHR 0x5C"

definition trim_right_seps :: "string \<Rightarrow> string" where
  "trim_right_seps s = rev (dropWhile (\<lambda>c. c = CHR ''/'' \<or> c = backslash) (rev s))"

definition blocked_paths :: "string list" where
  "blocked_paths =
     [''/'', ''/etc'', ''/sys'', ''/proc'', ''/dev'', ''/boot'', ''/root'',
      ''c:'' @ [backslash], ''c:'' @ [backslash] @ ''windows'',
      ''c:'' @ [backslash] @ ''windows'' @ [backslash] @ ''system32'']"

definition validate_file_path :: "string \<Rightarrow> string option" where
  "validate_file_path path0 =
     (let path = trim_space path0 in
      if path = [] then Some (''path vide non autoris'' @ e_acute)
      else
        let normalized = to_lower (trim_right_seps path) in
        if list_ex (\<lambda>b. normalized = to_lower (trim_right_seps b)
              \<or> prefix (to_lower b @ ''/'') normalized \<or> prefix (to_lower b @ [backslash]) normalized) blocked_paths
        then Some (''path '' @ squote @ path @ squote @ '' non autoris'' @ e_acute @ '' '' @ em_dash @ '' pr'' @ e_acute @ ''fixe syst'' @ e_grave @ ''me sensible'')
        else None)"

definition opt_list :: "'a option \<Rightarrow> 'a list" where
  "opt_list x = (case x of None \<Rightarrow> [] | Some y \<Rightarrow> [y])"

text \<open>All the messages at once; the configuration is valid when there are none.\<close>

definition validate :: "parsers \<Rightarrow> config \<Rightarrow> string list" where
  "validate pa c =
     err_if (cf_Interval c < min_interval)
       (''Interval trop court : '' @ show_duration (cf_Interval c) @ '' (minimum '' @ show_duration min_interval @ '')'')
     @ err_if (max_interval < cf_Interval c)
       (''Interval trop long : '' @ show_duration (cf_Interval c) @ '' (maximum '' @ show_duration max_interval @ '')'')
     @ opt_list (validate_threshold ''CPUAlertThreshold'' (cf_CPUAlertThreshold c))
     @ opt_list (validate_threshold ''RAMAlertThreshold'' (cf_RAMAlertThreshold c))
     @ opt_list (validate_threshold ''DiskAlertThreshold'' (cf_DiskAlertThreshold c))
     @ err_if (cf_AlertMinCycles c < 1) (''AlertMinCycles doit '' @ e_circ @ ''tre >= 1, got '' @ show_int (cf_AlertMinCycles c))
     @ err_if (20 < cf_AlertMinCycles c) (''AlertMinCycles doit '' @ e_circ @ ''tre <= 20, got '' @ show_int (cf_AlertMinCycles c))
     @ err_if (cf_AlertCooldown c < 1) (''AlertCooldown doit '' @ e_circ @ ''tre >= 1, got '' @ show_int (cf_AlertCooldown c))
     @ err_if (cf_WebPort c < 1024 \<or> 65535 < cf_WebPort c)
       (''WebPort invalide : '' @ show_int (cf_WebPort c) @ '' (doit '' @ e_circ @ ''tre entre 1024 et 65535)'')
     @ err_if (cf_AllowedOrigins c = []) (''AllowedOrigins ne peut pas '' @ e_circ @ ''tre vide'')
     @ concat (map (\<lambda>x. err_if (\<not> prefix ''http://'' x \<and> \<not> prefix ''https://'' x)
         (''AllowedOrigins: '' @ squote @ x @ squote @ '' doit commencer par http:// ou https://'')) (cf_AllowedOrigins c))
     @ err_if (trim_space (cf_LogFile c) = []) (''LogFile'' @ '' ne peut pas '' @ e_circ @ ''tre vide'')
     @ err_if (trim_space (cf_StateFile c) = []) (''StateFile'' @ '' ne peut pas '' @ e_circ @ ''tre vide'')
     @ err_if (trim_space (cf_AlertFile c) = []) (''AlertFile'' @ '' ne peut pas '' @ e_circ @ ''tre vide'')
     @ err_if (trim_space (cf_OllamaURL c) = []) (''OllamaURL'' @ '' ne peut pas '' @ e_circ @ ''tre vide'')
     @ err_if (trim_space (cf_Model c) = []) (''Model'' @ '' ne peut pas '' @ e_circ @ ''tre vide'')
     @ opt_list (validate_webhook_url pa ''DISCORD_WEBHOOK'' (cf_DiscordWebhook c))
     @ opt_list (validate_webhook_url pa ''SLACK_WEBHOOK'' (cf_SlackWebhook c))
     @ opt_list (validate_webhook_url pa ''NTFY_URL'' (cf_NtfyURL c))
     @ opt_list (validate_webhook_url pa ''GOTIFY_URL'' (cf_GotifyURL c))
     @ concat (map (\<lambda>p. map (\<lambda>e. ''FileWatchPaths: '' @ e) (opt_list (validate_file_path p))) (cf_FileWatchPaths c))
     @ err_if (cf_DailyReportHour c < 0 \<or> 23 < cf_DailyReportHour c)
       (''DailyReportHour invalide : '' @ show_int (cf_DailyReportHour c) @ '' (doit '' @ e_circ @ ''tre 0-23)'')
     @ err_if (cf_DailyReportMinute c < 0 \<or> 59 < cf_DailyReportMinute c)
       (''DailyReportMinute invalide : '' @ show_int (cf_DailyReportMinute c) @ '' (doit '' @ e_circ @ ''tre 0-59)'')"

section \<open>Facts\<close>

lemma err_if_Nil [simp]: "err_if b m = [] \<longleftrightarrow> \<not> b"
  by (simp add: err_if_def)

lemma opt_list_Nil [simp]: "opt_list x = [] \<longleftrightarrow> x = None"
  by (simp add: opt_list_def split: option.splits)

lemma validate_threshold_None: "validate_threshold n v = None \<longleftrightarrow> \<not> f_le v (Fin 0) \<and> \<not> f_gt v (Fin 100)"
  by (simp add: validate_threshold_def)

lemma getenv_setenv: "getenv (setenv k v env) k' = getenv env k' \<or> (k' = k \<and> getenv (setenv k v env) k' = v)"
  by (simp add: setenv_def getenv_def)

definition settable :: "string \<times> string \<Rightarrow> bool" where
  "settable b \<longleftrightarrow> fst b \<noteq> [] \<and> CHR ''='' \<notin> set (fst b) \<and> CHR 0x00 \<notin> set (fst b) \<and> CHR 0x00 \<notin> set (snd b)"

text \<open>The values the file gives a name, in order; unusable lines give none.\<close>

definition file_values :: "string list \<Rightarrow> string \<Rightarrow> string list" where
  "file_values ls k = map snd (filter (\<lambda>b. settable b \<and> fst b = k) (List.map_filter env_binding ls))"

lemma load_line_value:
  "getenv (load_line l env) k =
     (if getenv env k \<noteq> [] then getenv env k
      else case env_binding l of
        Some b \<Rightarrow> if settable b \<and> fst b = k then snd b else [] | None \<Rightarrow> [])"
  by (auto simp: load_line_def settable_def setenv_def getenv_def split: option.splits)

lemma load_env_value:
  "getenv (load_env (Some ls) env) k =
     (case find (\<lambda>v. v \<noteq> []) (getenv env k # file_values ls k) of Some v \<Rightarrow> v | None \<Rightarrow> [])"
proof (induction ls arbitrary: env)
  case Nil
  then show ?case by (simp add: load_env_def file_values_def map_filter_def)
next
  case (Cons l ls)
  have "getenv (load_env (Some (l # ls)) env) k = getenv (load_env (Some ls) (load_line l env)) k"
    by (simp add: load_env_def)
  with Cons [of "load_line l env"] show ?case
    by (cases "env_binding l") (auto simp: load_line_value file_values_def map_filter_simps)
qed

section \<open>Properties\<close>



text \<open>the variables have the priority the documentation promises for non-empty values: after \<open>LoadEnv\<close> a
  variable has its value from the process if that is not empty, and otherwise the first non-empty value
  the file gives it.\<close>
theorem load_env_first_wins:
  "getenv (load_env (Some ls) env) k =
     (case find (\<lambda>v. v \<noteq> []) (getenv env k # file_values ls k) of Some v \<Rightarrow> v | None \<Rightarrow> [])"
  by (rule load_env_value)

text \<open>the sensitive directories are refused with everything below them, in any case, with any trailing
  separators and surrounding white space.\<close>
theorem sensitive_paths_refused:
  assumes "b \<in> set blocked_paths" "p = to_lower b \<or> prefix (to_lower b @ ''/'') p \<or> prefix (to_lower b @ [backslash]) p"
    and "to_lower (trim_right_seps (trim_space path)) = trim_right_seps p"
    and "trim_right_seps p = p \<or> trim_right_seps p = to_lower (trim_right_seps b)"
  shows "validate_file_path path \<noteq> None"
proof -
  have "list_ex (\<lambda>b. to_lower (trim_right_seps (trim_space path)) = to_lower (trim_right_seps b)
      \<or> prefix (to_lower b @ ''/'') (to_lower (trim_right_seps (trim_space path)))
      \<or> prefix (to_lower b @ [backslash]) (to_lower (trim_right_seps (trim_space path)))) blocked_paths"
  proof (cases "trim_right_seps p = to_lower (trim_right_seps b)")
    case True
    with assms(1,3) show ?thesis by (auto simp: list_ex_iff)
  next
    case False
    with assms(4) have p: "trim_right_seps p = p" by simp
    have "p \<noteq> to_lower b"
    proof
      assume "p = to_lower b"
      moreover have "\<forall>b\<in>set blocked_paths. trim_right_seps (to_lower b) = to_lower (trim_right_seps b)" by code_simp
      ultimately show False using False assms(1) by simp
    qed
    with assms(1-3) p show ?thesis by (auto simp: list_ex_iff)
  qed
  then show ?thesis by (simp add: validate_file_path_def Let_def)
qed

theorem sensitive_paths_refused_witness:
  "validate_file_path '' /ETC/ssh// '' \<noteq> None"
proof (rule sensitive_paths_refused)
  show "''/etc'' \<in> set blocked_paths" by code_simp
  show "''/etc/ssh'' = to_lower ''/etc'' \<or> prefix (to_lower ''/etc'' @ ''/'') ''/etc/ssh''
      \<or> prefix (to_lower ''/etc'' @ [backslash]) ''/etc/ssh''" by code_simp
  show "to_lower (trim_right_seps (trim_space '' /ETC/ssh// '')) = trim_right_seps ''/etc/ssh''" by code_simp
  show "trim_right_seps ''/etc/ssh'' = ''/etc/ssh'' \<or> trim_right_seps ''/etc/ssh'' = to_lower (trim_right_seps ''/etc'')"
    by code_simp
qed

text \<open>the path check looks at the text only: a path that reaches a sensitive directory through \<open>..\<close> passes.\<close>
theorem traversal_passes_path_check:
  "validate_file_path ''/home/../etc/shadow'' = None \<and> validate_file_path ''/./etc'' = None"
  by code_simp

text \<open>without variables the configuration is the default one, which is valid; a threshold that is not a
  number is valid too; and a large enough \<open>JARVINX_LOG_MAX_MB\<close> overflows to a negative limit, with which the
  logger never rotates.\<close>
theorem config_edge_cases:
  "from_env pa Map.empty c = c \<and> validate pa default_config = []
   \<and> (validate pa c = [] \<longrightarrow> validate pa (c\<lparr>cf_CPUAlertThreshold := NaN\<rparr>) = [])
   \<and> cf_LogMaxSizeBytes (from_env pa [''JARVINX_LOG_MAX_MB'' \<mapsto> ''8796093022208''] c) = - (2 ^ 63)"
proof -
  have f: "from_env pa Map.empty c = c"
    by (simp add: from_env_def getenv_def Let_def str_var_def parsed_var_def ranged_var_def split_var_def origins_var_def)
  have d: "validate pa default_config = []"
  proof -
    have "trim_space (cf_LogFile default_config) \<noteq> []" "trim_space (cf_StateFile default_config) \<noteq> []"
      "trim_space (cf_AlertFile default_config) \<noteq> []" "trim_space (cf_OllamaURL default_config) \<noteq> []"
      "trim_space (cf_Model default_config) \<noteq> []" by code_simp+
    then show ?thesis
      by (simp add: validate_def validate_threshold_None validate_webhook_url_def)
        (simp add: default_config_def min_interval_def max_interval_def)
  qed
  have n: "validate pa c = [] \<longrightarrow> validate pa (c\<lparr>cf_CPUAlertThreshold := NaN\<rparr>) = []"
    by (simp add: validate_def validate_threshold_None)
  have "atoi ''8796093022208'' = Some 8796093022208" by code_simp
  then have "cf_LogMaxSizeBytes (from_env pa [''JARVINX_LOG_MAX_MB'' \<mapsto> ''8796093022208''] c) = - (2 ^ 63)"
    by (simp add: from_env_def getenv_def Let_def parsed_var_def wrap64_def)
  with f d n show ?thesis by blast
qed

theorem config_edge_cases_witness:
  "validate \<lparr>pa_float = (\<lambda>_. None), pa_duration = (\<lambda>_. None), pa_url = (\<lambda>_. Inl [])\<rparr>
     (default_config\<lparr>cf_CPUAlertThreshold := NaN\<rparr>) = []"
  using config_edge_cases [of "\<lparr>pa_float = (\<lambda>_. None), pa_duration = (\<lambda>_. None), pa_url = (\<lambda>_. Inl [])\<rparr>" default_config]
  by simp

end
