(* ===== verification/JX_History.thy ===== *)
theory JX_History
  imports JX_Stores "HOL-Library.Char_ord" "HOL-Library.List_Lexorder" "HOL-Library.Multiset"
begin

text \<open>
  The history queries of \<open>runtime/memory/sqlite_store.go\<close> (\<open>SnapshotBuckets\<close>, \<open>TotalSnapshots\<close>) and the bucket of
  \<open>store.go\<close>. The SQL text is the code's; what SQLite computes for \<open>strftime\<close>, \<open>AVG\<close> and \<open>ROUND\<close> is a
  parameter (an engine), while \<open>WHERE\<close>, \<open>GROUP BY\<close>, \<open>ORDER BY\<close>, \<open>MAX\<close> and \<open>COUNT\<close> are modelled on the rows. Times
  are stored as text and compared as text.
\<close>

record snapshot_bucket =
  bk_Timestamp :: string
  bk_CPUAvg :: f64
  bk_CPUMax :: f64
  bk_MEMAvg :: f64
  bk_MEMMax :: f64
  bk_DiskAvg :: f64
  bk_DiskMax :: f64
  bk_Count :: int

record sql_engine =
  sg_label :: "string \<Rightarrow> time \<Rightarrow> string"
  sg_avg :: "f64 list \<Rightarrow> f64"
  sg_round2 :: "f64 \<Rightarrow> f64"

abbreviation quote :: string where "quote \<equiv> [CHR 0x27]"

definition bucket_expr :: "int \<Rightarrow> string" where
  "bucket_expr h =
     (if h = 1 then ''strftime('' @ quote @ ''%Y-%m-%dT%H:00:00Z'' @ quote @ '', timestamp)''
      else if h = 6 then
        ''strftime('' @ quote @ ''%Y-%m-%dT'' @ quote @ '', timestamp) || printf('' @ quote @ ''%02d:00:00Z'' @ quote
        @ '', (CAST(strftime('' @ quote @ ''%H'' @ quote @ '', timestamp) AS INTEGER) / 6) * 6)''
      else ''strftime('' @ quote @ ''%Y-%m-%dT00:00:00Z'' @ quote @ '', timestamp)'')"

text \<open>
  \<open>timestamp >= ?\<close> on texts: the bound is written in whole seconds, the rows with their fraction if there is
  one. Up to the seconds the texts compare as the times; then a fraction starts with a point, which is
  smaller than the \<open>Z\<close> that ends the bound.
\<close>

definition text_since :: "time \<Rightarrow> time \<Rightarrow> bool" where
  "text_since from_t t \<longleftrightarrow>
     from_t div second < t div second \<or> (from_t div second = t div second \<and> t mod second = 0)"

definition rows_since :: "time \<Rightarrow> sqlite_store \<Rightarrow> snapshot list" where
  "rows_since from_t s = filter (\<lambda>r. text_since from_t (sn_Timestamp r)) (sq_snapshots s)"

fun column_max :: "f64 list \<Rightarrow> f64" where
  "column_max [] = NaN"
| "column_max (x # xs) = foldl (\<lambda>m y. if f_lt m y then y else m) x xs"

definition bucket_of :: "sql_engine \<Rightarrow> string \<Rightarrow> snapshot list \<Rightarrow> snapshot_bucket" where
  "bucket_of eng label rows =
     (let avg = (\<lambda>col. sg_round2 eng (sg_avg eng (map col rows)));
          mx = (\<lambda>col. sg_round2 eng (column_max (map col rows)))
      in \<lparr>bk_Timestamp = label, bk_CPUAvg = avg sn_CPUPercent, bk_CPUMax = mx sn_CPUPercent,
          bk_MEMAvg = avg sn_MemPercent, bk_MEMMax = mx sn_MemPercent,
          bk_DiskAvg = avg sn_DiskPercent, bk_DiskMax = mx sn_DiskPercent, bk_Count = int (length rows)\<rparr>)"

definition snapshot_buckets :: "sql_engine \<Rightarrow> time \<Rightarrow> int \<Rightarrow> sqlite_store \<Rightarrow> snapshot_bucket list" where
  "snapshot_buckets eng from_t h s =
     (if sq_down s then []
      else
        let label = (\<lambda>r. sg_label eng (bucket_expr h) (sn_Timestamp r));
            rows = rows_since from_t s
        in map (\<lambda>l. bucket_of eng l (filter (\<lambda>r. label r = l) rows)) (sort (remdups (map label rows))))"

definition total_snapshots :: "time \<Rightarrow> sqlite_store \<Rightarrow> int" where
  "total_snapshots from_t s = (if sq_down s then 0 else int (length (rows_since from_t s)))"

section \<open>Facts\<close>

lemma sum_length_filter:
  "finite A \<Longrightarrow> f ` set xs \<subseteq> A \<Longrightarrow> (\<Sum>a\<in>A. length (filter (\<lambda>x. f x = a) xs)) = length xs"
proof (induction xs)
  case (Cons x xs)
  have "(\<Sum>a\<in>A. length (filter (\<lambda>x. f x = a) (x # xs)))
      = (\<Sum>a\<in>A. (if a = f x then 1 else 0) + length (filter (\<lambda>x. f x = a) xs))"
    by (rule sum.cong) auto
  also have "\<dots> = (\<Sum>a\<in>A. if a = f x then 1 else 0) + length xs"
    using Cons by (simp add: sum.distrib)
  also have "\<dots> = Suc (length xs)" using Cons.prems by (simp add: sum.delta)
  finally show ?case by simp
qed simp

lemma sort_remdups_props:
  "sorted_wrt (<) (sort (remdups xs))" "set (sort (remdups xs)) = set xs" "distinct (sort (remdups xs))"
  by (simp_all add: strict_sorted_iff)

lemma column_max_upper:
  "\<forall>x\<in>set xs. x \<noteq> NaN \<Longrightarrow> m \<noteq> NaN \<Longrightarrow> r = foldl (\<lambda>m y. if f_lt m y then y else m) m xs \<Longrightarrow>
     (r = m \<or> r \<in> set xs) \<and> f_le m r \<and> (\<forall>x\<in>set xs. f_le x r)"
proof (induction xs arbitrary: m)
  case (Cons y ys)
  let ?m = "if f_lt m y then y else m"
  have "?m \<noteq> NaN" "f_le m ?m" "f_le y ?m"
    using Cons.prems(1,2) by (auto simp: f_lt_iff) (metis f_le_total f_lt_iff)
  with Cons.IH [of ?m] Cons.prems show ?case by (auto intro: f_le_trans split: if_splits)
qed simp

lemma column_max_spec:
  assumes "xs \<noteq> []" "\<forall>x\<in>set xs. x \<noteq> NaN"
  shows "column_max xs \<in> set xs \<and> (\<forall>x\<in>set xs. f_le x (column_max xs))"
  using assms column_max_upper [of "tl xs" "hd xs" "column_max xs"] by (cases xs) auto


definition sample_engine :: sql_engine where
  "sample_engine = \<lparr>sg_label = (\<lambda>e t. show_int (t div hour)), sg_avg = hd, sg_round2 = id\<rparr>"

definition sample_rows :: sqlite_store where
  "sample_rows =
     open_sqlite_store
       [zero_snapshot\<lparr>sn_Timestamp := 5, sn_CPUPercent := Fin 10\<rparr>, zero_snapshot\<lparr>sn_Timestamp := hour, sn_CPUPercent := Fin 20\<rparr>,
        zero_snapshot\<lparr>sn_Timestamp := hour + 1, sn_CPUPercent := Fin 30\<rparr>] []"


text \<open>A snapshot taken within the first second of the range, but not exactly at its start, is left out.\<close>

lemma first_second_left_out: "total_snapshots 0 (open_sqlite_store [zero_snapshot\<lparr>sn_Timestamp := 5\<rparr>] []) = 0"
  by (simp add: total_snapshots_def rows_since_def open_sqlite_store_def text_since_def)

end
