(* ===== verification/JX_Log.thy ===== *)
theory JX_Log
  imports JX_Strings
begin

text \<open>
  The log of the runtime: \<open>runtime/jxlog/log.go\<close> (levels, the line of a record, durations) and the colours of
  \<open>runtime/core/color.go\<close>. A line is the text that is written; the clock and \<open>slog\<close> itself are the
  environment. \<open>Duration.Hours\<close>, \<open>Minutes\<close> and \<open>Seconds\<close> are floats, so the last lemma shows for how long
  the text of a duration is exact.
\<close>

section \<open>Durations\<close>

text \<open>\<open>Duration.Seconds\<close>, \<open>Hours\<close> and \<open>Minutes\<close>: the whole units and the rest, added as floats.\<close>

definition in_units :: "duration \<Rightarrow> duration \<Rightarrow> f64" where
  "in_units unit d = f_add (f_of_int (go_div d unit)) (f_div (f_of_int (go_mod d unit)) (f_of_int unit))"

text \<open>Conversion to \<open>int\<close> truncates; the values converted here are finite.\<close>

fun f_trunc :: "f64 \<Rightarrow> int" where
  "f_trunc (Fin q) = (if q < 0 then - \<lfloor>- q\<rfloor> else \<lfloor>q\<rfloor>)"
| "f_trunc _ = - (2 ^ 63)"

definition format_duration :: "duration \<Rightarrow> string" where
  "format_duration d =
     (let h = f_trunc (in_units hour d);
          m = go_mod (f_trunc (in_units minute d)) 60;
          s = go_mod (f_trunc (in_units second d)) 60
      in if 0 < h then show_int h @ ''h '' @ show_int m @ ''m '' @ show_int s @ ''s''
         else show_int m @ ''m '' @ show_int s @ ''s'')"

section \<open>Colours\<close>

abbreviation esc :: string where "esc \<equiv> [CHR 0x1B]"

definition color_reset :: string where "color_reset = esc @ ''[0m''"
definition color_red :: string where "color_red = esc @ ''[31m''"
definition color_green :: string where "color_green = esc @ ''[32m''"
definition color_yellow :: string where "color_yellow = esc @ ''[33m''"

definition colorize :: "bool \<Rightarrow> string \<Rightarrow> string \<Rightarrow> string" where
  "colorize enabled color text = (if \<not> enabled then text else color @ text @ color_reset)"

definition metric_color :: "f64 \<Rightarrow> f64 \<Rightarrow> f64 \<Rightarrow> string" where
  "metric_color pct warn crit =
     (if f_ge pct crit then color_red else if f_ge pct warn then color_yellow else color_green)"

definition color_metric :: "string \<Rightarrow> f64 \<Rightarrow> f64 \<Rightarrow> f64 \<Rightarrow> string" where
  "color_metric label pct warnAt critAt =
     label @ '' : '' @ metric_color pct warnAt critAt @ fmt_f 1 pct @ ''%'' @ color_reset"

section \<open>Records\<close>

text \<open>The levels of \<open>slog\<close>.\<close>

definition level_debug :: int where "level_debug = - 4"
definition level_info :: int where "level_info = 0"
definition level_warn :: int where "level_warn = 4"
definition level_error :: int where "level_error = 8"

definition format_level :: "int \<Rightarrow> string" where
  "format_level level =
     (if level_error \<le> level then esc @ ''[31m[ ERROR ]'' @ esc @ ''[0m''
      else if level_warn \<le> level then esc @ ''[33m[ WARN  ]'' @ esc @ ''[0m''
      else if level_info \<le> level then esc @ ''[97m[ INFO  ]'' @ esc @ ''[0m''
      else esc @ ''[90m[ DEBUG ]'' @ esc @ ''[0m'')"

definition tag_colors :: "(string \<times> string) list" where
  "tag_colors =
     [(''ORCHESTRATOR'', esc @ ''[34m''),
      (''SCHEDULER'', esc @ ''[36m''),
      (''REGISTRY'', esc @ ''[36m''),
      (''WEB'', esc @ ''[36m''),
      (''CLI'', esc @ ''[34m''),
      (''SYSTEM AGENT'', esc @ ''[35m''),
      (''AGENT'', esc @ ''[35m''),
      (''ALERT'', esc @ ''[31m''),
      (''EXEC'', esc @ ''[33m''),
      (''STATE'', esc @ ''[90m''),
      (''OK'', esc @ ''[32m''),
      (''WARN'', esc @ ''[33m''),
      (''ERROR'', esc @ ''[31m''),
      (''OLLAMA'', esc @ ''[32m''),
      (''JARVINX'', esc @ ''[36m'')]"

definition color_tag :: "string \<Rightarrow> string" where
  "color_tag tag =
     (case map_of tag_colors tag of Some c \<Rightarrow> c | None \<Rightarrow> esc @ ''[97m'') @ ''[ '' @ tag @ '' ]'' @ esc @ ''[0m''"

text \<open>The attributes of a record are pairs of texts; the last one named \<open>tag\<close> is the tag.\<close>

definition tag_of :: "(string \<times> string) list \<Rightarrow> string" where
  "tag_of attrs = (case map_of (rev attrs) ''tag'' of Some t \<Rightarrow> t | None \<Rightarrow> [])"

definition jx_handle :: "string \<Rightarrow> int \<Rightarrow> string \<Rightarrow> (string \<times> string) list \<Rightarrow> string" where
  "jx_handle timestamp level msg attrs =
     (let tag = tag_of attrs;
          extras = map (\<lambda>(k, v). k @ ''='' @ v) (filter (\<lambda>(k, _). k \<noteq> ''tag'') attrs);
          line = esc @ ''[90m'' @ timestamp @ esc @ ''[0m '' @ format_level level @ '' ''
                 @ (if tag \<noteq> [] then tag @ '' '' else []) @ msg;
          line = (if extras \<noteq> [] then line @ '' '' @ esc @ ''[90m'' @ join '' '' extras @ esc @ ''[0m'' else line)
      in line @ nl)"

text \<open>\<open>emit\<close>: without a logger, or below its level, nothing is written.\<close>

definition jx_emit :: "int option \<Rightarrow> string \<Rightarrow> int \<Rightarrow> string \<Rightarrow> string \<Rightarrow> (string \<times> string) list \<Rightarrow> string" where
  "jx_emit lg timestamp level tag msg args =
     (case lg of None \<Rightarrow> []
      | Some least \<Rightarrow> if least \<le> level then jx_handle timestamp level msg ((''tag'', color_tag tag) # args) else [])"

definition log_init :: "bool \<Rightarrow> int" where
  "log_init debug = (if debug then level_debug else level_info)"

section \<open>Facts\<close>

lemma rnd_range: "a \<le> q \<Longrightarrow> q \<le> b \<Longrightarrow> rnd a = Fin a' \<Longrightarrow> rnd b = Fin b' \<Longrightarrow> \<exists>v. rnd q = Fin v \<and> a' \<le> v \<and> v \<le> b'"
  using rnd_mono [of a q] rnd_mono [of q b] by (cases "rnd q") simp_all

lemma is_fin_seconds:
  assumes "min_duration \<le> d" "d \<le> max_duration"
  shows "is_fin (in_units second d)"
proof -
  let ?n = "go_div d second" and ?a = "go_mod d second"
  have n: "\<bar>?n\<bar> \<le> 9999999999"
  proof -
    have "\<bar>d\<bar> div second \<le> 9999999999" using assms by (auto simp: max_duration_def min_duration_def abs_if)
    moreover have "\<bar>?n\<bar> \<le> \<bar>d\<bar> div second" by (simp add: go_div_def abs_mult abs_sgn_eq)
    ultimately show ?thesis by linarith
  qed
  have "?a = sgn d * (\<bar>d\<bar> - second * (\<bar>d\<bar> div second))"
    by (simp add: go_mod_def go_div_def right_diff_distrib mult_sgn_abs)
  then have a: "?a = sgn d * (\<bar>d\<bar> mod second)" by (simp only: minus_mult_div_eq_mod)
  then have a': "\<bar>?a\<bar> \<le> 999999999"
    using pos_mod_bound [of second "\<bar>d\<bar>"] by (cases "d = 0") (simp_all add: abs_mult abs_sgn_eq del: pos_mod_bound)
  have "(of_int \<bar>?a\<bar> :: rat) \<le> of_int 999999999" using a' by (simp only: of_int_le_iff)
  then have "\<bar>of_int ?a / 1000000000 :: rat\<bar> \<le> 1" by simp
  then have lo: "- 1 \<le> (of_int ?a / 1000000000 :: rat)" and hi: "of_int ?a / 1000000000 \<le> (1 :: rat)" by linarith+
  have m1: "rnd (- 1) = Fin (- 1)" using rnd_of_int [of "- 1"] by simp
  from rnd_range [OF lo hi m1 rnd_1]
  obtain f where f: "rnd (of_int ?a / 1000000000) = Fin f" "- 1 \<le> f" "f \<le> 1" by blast
  have "(of_int \<bar>?n\<bar> :: rat) \<le> of_int 9999999999" using n by (simp only: of_int_le_iff)
  then have lo: "- 10000000000 \<le> of_int ?n + f" and hi: "of_int ?n + f \<le> (10000000000::rat)" using f by auto
  have "rnd (- 10000000000) = Fin (- 10000000000)" "rnd 10000000000 = Fin 10000000000" by simp_all
  from rnd_range [OF lo hi this] obtain x where "rnd (of_int ?n + f) = Fin x" by blast
  moreover have "f_of_int ?n = Fin (of_int ?n)" "f_of_int ?a = Fin (of_int ?a)" using n a' by simp_all
  ultimately show ?thesis using f by (simp add: in_units_def)
qed

lemma whole_units:
  assumes "0 \<le> d" "0 < u" "u \<le> 2 ^ k" "(d div u + 1) * 2 ^ k \<le> 2 ^ 53" "k \<le> 42"
  shows "f_trunc (in_units u d) = d div u"
proof -
  let ?n = "d div u" and ?a = "d mod u"
  let ?e = "2 powi (- int k) :: rat"
  have n: "0 \<le> ?n" using assms by (simp add: pos_imp_zdiv_nonneg_iff)
  have a: "0 \<le> ?a" "?a \<le> u - 1" using assms pos_mod_bound [of u d] by simp_all
  have p: "(1::int) \<le> 2 ^ k" by simp
  have p42: "(2::int) ^ k \<le> 2 ^ 42" using assms(5) by (rule power_increasing) simp
  have n53: "?n < 2 ^ 53"
  proof -
    have "?n + 1 \<le> (?n + 1) * 2 ^ k" using mult_left_mono [OF p, of "?n + 1"] n by simp
    then show ?thesis using assms(4) by linarith
  qed
  have e: "?e * 2 ^ k = 1" by (simp add: power_int_minus)
  have epos: "0 < ?e" by simp
  have ub: "of_int u * ?e \<le> 1"
  proof -
    have "(of_int u :: rat) \<le> 2 ^ k" using assms(3) by (metis of_int_le_iff of_int_numeral of_int_power)
    then have "of_int u * ?e \<le> 2 ^ k * ?e" by (rule mult_right_mono) simp
    then show ?thesis using e by (simp only: mult.commute [of _ ?e])
  qed
  have frac: "of_int ?a / of_int u \<le> 1 - ?e"
  proof -
    have "of_int ?a \<le> (of_int u - 1 :: rat)" using a(2) by (metis of_int_1 of_int_diff of_int_le_iff)
    also have "\<dots> \<le> (1 - ?e) * of_int u" using ub by (simp add: algebra_simps)
    finally show ?thesis using assms(2) by (simp add: pos_divide_le_eq)
  qed
  have d1: "rnd (1 - ?e) = Fin (1 - ?e)"
  proof -
    have "(1 - ?e) = of_int (2 ^ k - 1) * ?e" using e by (simp add: algebra_simps)
    moreover have "\<bar>2 ^ k - 1 :: int\<bar> < 2 ^ 53" using p p42 by simp
    ultimately show ?thesis using rnd_dyadic [of "2 ^ k - 1" "- int k"] assms(5) by simp
  qed
  have d2: "rnd (of_int ?n + (1 - ?e)) = Fin (of_int ?n + (1 - ?e))"
  proof -
    have "of_int ?n + (1 - ?e) = of_int ((?n + 1) * 2 ^ k - 1) * ?e" using e by (simp add: algebra_simps)
    moreover have "\<bar>(?n + 1) * 2 ^ k - 1\<bar> < 2 ^ 53"
      using assms(4) n mult_mono [of 1 "?n + 1" 1 "2 ^ k"] by simp
    ultimately show ?thesis using rnd_dyadic [of "(?n + 1) * 2 ^ k - 1" "- int k"] assms(5) by simp
  qed
  have u53: "u < 2 ^ 53" using assms(3) p42 by simp
  have a53: "?a < 2 ^ 53" using a u53 by linarith
  have "f_of_int ?a = Fin (of_int ?a)" "f_of_int u = Fin (of_int u)"
    using a a53 u53 assms(2) by (intro f_of_int_small; simp only: abs_of_nonneg abs_of_pos)+
  then have q: "f_div (f_of_int ?a) (f_of_int u) = rnd (of_int ?a / of_int u)"
    using assms(2) by simp
  obtain f where f: "rnd (of_int ?a / of_int u) = Fin f" "0 \<le> f" "f \<le> 1 - ?e"
  proof -
    have "f_le (rnd 0) (rnd (of_int ?a / of_int u))" using a assms(2) by (intro rnd_mono) simp
    moreover have "f_le (rnd (of_int ?a / of_int u)) (rnd (1 - ?e))" using frac by (rule rnd_mono)
    ultimately show ?thesis using that d1 by (cases "rnd (of_int ?a / of_int u)") simp_all
  qed
  have eq: "in_units u d = rnd (of_int ?n + f)"
    using assms n n53 a f q by (simp add: in_units_def go_div_nonneg go_mod_nonneg)
  have "f_le (rnd (of_int ?n)) (rnd (of_int ?n + f))" using f by (intro rnd_mono) simp
  moreover have "f_le (rnd (of_int ?n + f)) (rnd (of_int ?n + (1 - ?e)))" using f by (intro rnd_mono) simp
  ultimately obtain x where x: "rnd (of_int ?n + f) = Fin x" "of_int ?n \<le> x" "x \<le> of_int ?n + (1 - ?e)"
    using n n53 d2 by (cases "rnd (of_int ?n + f)") simp_all
  have "\<lfloor>x\<rfloor> = ?n" using x epos by (intro floor_unique) linarith+
  moreover have "0 \<le> x" using n x(2) by (metis le_less_trans not_less of_int_0_le_iff)
  ultimately show ?thesis using eq x by simp
qed

text \<open>the text of a duration is exact for 2048 hours. Although the hours, minutes and seconds are taken from
  floats, up to that bound they are those of the whole seconds elapsed, and the hours are left out exactly
  when there are none.\<close>
theorem duration_text_is_exact:
  assumes "0 \<le> d" "d < 2048 * hour" "t = d div second"
  shows "format_duration d =
    (if 3600 \<le> t then show_int (t div 3600) @ ''h '' else []) @ show_int (t div 60 mod 60) @ ''m ''
      @ show_int (t mod 60) @ ''s''"
proof -
  have s: "f_trunc (in_units second d) = t"
    using assms by (simp only: assms(3), intro whole_units [where k = 30]) simp_all
  have m: "f_trunc (in_units minute d) = t div 60"
    using assms whole_units [of d minute 36] by (simp add: zdiv_zmult2_eq)
  have h: "f_trunc (in_units hour d) = t div 3600"
    using assms whole_units [of d hour 42] by (simp add: zdiv_zmult2_eq)
  have "0 \<le> t" using assms by simp
  then have "0 \<le> t div 60" by simp
  moreover have "3600 \<le> t \<longleftrightarrow> 0 < t div 3600" by (simp add: pos_imp_zdiv_pos_iff)
  ultimately show ?thesis using \<open>0 \<le> t\<close> s m h by (simp add: format_duration_def Let_def go_mod_nonneg)
qed

theorem duration_text_is_exact_witness:
  "format_duration (hour + 61 * second + 999999999) = ''1h 1m 1s''"
proof -
  have "show_int 1 = ''1''" by code_simp
  then show ?thesis using duration_text_is_exact [of "hour + 61 * second + 999999999", OF _ _ refl] by simp
qed

end
