(* ===== verification/JX_Web.thy ===== *)
theory JX_Web
  imports JX_History JX_Log JX_Ollama JX_Config JX_Orchestrator JX_Daily JX_Docker
begin

text \<open>
  The dashboard server: \<open>runtime/web/server.go\<close> and \<open>ratelimit.go\<close>. A request goes through the CORS and the
  token middleware, then to the handler of its route. The server reads the components it was given; what
  it changes are the two token buckets and, through the toggle, the registry. \<open>go SendNow()\<close> is an effect
  of its own in the answer. The clock, the files, Docker and \<open>path.Clean\<close> are the environment; a handler
  that panics has no answer (\<open>net/http\<close> drops the connection and goes on).
\<close>

section \<open>The token bucket\<close>

record token_bucket =
  tb_tokens :: f64
  tb_capacity :: f64
  tb_refillRate :: f64
  tb_lastRefill :: time

definition new_token_bucket :: "time \<Rightarrow> f64 \<Rightarrow> f64 \<Rightarrow> token_bucket" where
  "new_token_bucket now rate capacity =
     \<lparr>tb_tokens = capacity, tb_capacity = capacity, tb_refillRate = rate, tb_lastRefill = now\<rparr>"

definition tb_allow :: "time \<Rightarrow> token_bucket \<Rightarrow> bool \<times> token_bucket" where
  "tb_allow now tb =
     (let t0 = f_add (tb_tokens tb) (f_mul (in_units second (time_sub now (tb_lastRefill tb))) (tb_refillRate tb));
          t = (if f_gt t0 (tb_capacity tb) then tb_capacity tb else t0);
          tb' = tb\<lparr>tb_tokens := t, tb_lastRefill := now\<rparr>
      in if f_ge t (Fin 1) then (True, tb'\<lparr>tb_tokens := f_sub t (Fin 1)\<rparr>) else (False, tb'))"

section \<open>Requests and answers\<close>

record web_request =
  rq_method :: string
  rq_path :: string
  rq_authorization :: string
  rq_origin :: string
  rq_query :: "string \<Rightarrow> string"
  rq_content :: string

record exec_guard_info =
  eg_LastCmd :: string
  eg_CooldownRemainingSeconds :: f64

record exec_last_result =
  er_Command :: string
  er_Output :: string
  er_Error :: string
  er_Success :: bool
  er_DurationMs :: f64
  er_TimedOut :: bool

record status_response =
  sr_Online :: bool
  sr_Model :: string
  sr_Interval :: string
  sr_CycleNum :: int
  sr_Uptime :: string
  sr_DryRun :: bool
  sr_CircuitState :: string
  sr_LastCycle :: "cycle_record option"
  sr_ExecGuard :: exec_guard_info
  sr_LastExecResult :: "exec_last_result option"

record docker_response =
  kr_Available :: bool
  kr_Containers :: "container list option"
  kr_Total :: int
  kr_Running :: int
  kr_Exited :: int

record file_response =
  fr_Enabled :: bool
  fr_WatchPaths :: "string list"
  fr_MaxSizeMB :: int
  fr_LastRun :: string
  fr_RunCount :: int
  fr_AlertCount :: int
  fr_LastError :: string

record daily_response =
  yr_Enabled :: bool
  yr_ScheduledAt :: string
  yr_LastSent :: string
  yr_NextSend :: string

record history_full_response =
  hr_Range :: string
  hr_From :: time
  hr_To :: time
  hr_BucketHours :: int
  hr_Buckets :: "snapshot_bucket list"
  hr_TotalSnapshots :: int
  hr_Available :: bool

record context_response =
  lr_CycleCount :: int
  lr_DominantAction :: string
  lr_AlertRate :: f64
  lr_CPUTrend :: string
  lr_RAMTrend :: string
  lr_DiskTrend :: string
  lr_CPUForecast :: string
  lr_RAMForecast :: string
  lr_DiskForecast :: string
  lr_RecentAlerts :: "string list"

text \<open>
  The body of an answer: text, or the structure that is written as JSON. The containers are \<open>None\<close> where
  the code leaves the slice nil.
\<close>

datatype web_body =
    NoBody
  | PlainText string
  | StatusBody status_response
  | HistoryBody "cycle_record list" int
  | AgentsBody "agent_status list" int
  | ToggleBody string bool string
  | DockerBody docker_response
  | LogsBody log_status log_status
  | FileBody file_response
  | DailyBody daily_response
  | SendBody bool string
  | AlertsBody "alert list" int
  | ContextBody context_response
  | HistoryFullBody history_full_response

record web_reply =
  rp_status :: int
  rp_headers :: "(string \<times> string) list"
  rp_body :: web_body

definition write_json :: "web_body \<Rightarrow> web_reply" where
  "write_json b = \<lparr>rp_status = 200, rp_headers = [(''Content-Type'', ''application/json'')], rp_body = b\<rparr>"

definition http_error :: "string \<Rightarrow> int \<Rightarrow> web_reply" where
  "http_error msg code =
     \<lparr>rp_status = code, rp_headers = [(''Content-Type'', ''text/plain; charset=utf-8'')],
      rp_body = PlainText (msg @ nl)\<rparr>"

section \<open>The server\<close>

record server =
  ws_cfg :: config
  ws_state :: json_state
  ws_registry :: registry
  ws_mainLogger :: "logger option"
  ws_alertLogger :: "logger option"
  ws_dailyReporter :: "daily_reporter option"
  ws_execGuard :: "orchestrator option"
  ws_history :: "((time \<Rightarrow> int \<Rightarrow> snapshot_bucket list) \<times> (time \<Rightarrow> int)) option"
  ws_allowedOrigins :: "string list"
  ws_limitToggle :: token_bucket
  ws_limitSendReport :: token_bucket

definition new_server ::
  "time \<Rightarrow> config \<Rightarrow> json_state \<Rightarrow> registry \<Rightarrow> logger option \<Rightarrow> logger option \<Rightarrow> daily_reporter option
   \<Rightarrow> orchestrator option \<Rightarrow> ((time \<Rightarrow> int \<Rightarrow> snapshot_bucket list) \<times> (time \<Rightarrow> int)) option \<Rightarrow> server" where
  "new_server now cfg st reg ml al dr g h =
     \<lparr>ws_cfg = cfg, ws_state = st, ws_registry = reg, ws_mainLogger = ml, ws_alertLogger = al,
      ws_dailyReporter = dr, ws_execGuard = g, ws_history = h, ws_allowedOrigins = cf_AllowedOrigins cfg,
      ws_limitToggle = new_token_bucket now (Fin 1) (Fin 1), ws_limitSendReport = new_token_bucket now (Fin 1) (Fin 1)\<rparr>"

record web_env =
  we_now :: time
  we_to :: time
  we_uptime :: duration
  we_rfc3339 :: "time \<Rightarrow> string"
  we_nextSend :: time
  we_context :: context_env
  we_fsenv :: fs_env
  we_fs :: filesystem
  we_denied :: "string \<Rightarrow> bool"
  we_dockerVersion :: http_result
  we_dockerList :: http_result
  we_clean :: "string \<Rightarrow> string"
  we_static :: "string \<Rightarrow> string option"
  we_fileServer :: "web_request \<Rightarrow> web_reply"

text \<open>What a handler gives: the server after it, the answer (none if it panicked), and whether a report was
  started in the background.\<close>

type_synonym handled = "server \<times> web_reply option \<times> bool"

abbreviation answers :: "server \<Rightarrow> web_reply \<Rightarrow> handled" where
  "answers s r \<equiv> (s, Some r, False)"

section \<open>Middleware\<close>

definition auth_middleware :: "(web_request \<Rightarrow> server \<Rightarrow> handled) \<Rightarrow> web_request \<Rightarrow> server \<Rightarrow> handled" where
  "auth_middleware handler rq s =
     (if cf_APIToken (ws_cfg s) = [] \<or> \<not> prefix ''/api/'' (rq_path rq) then handler rq s
      else if \<not> prefix ''Bearer '' (rq_authorization rq)
              \<or> trim_prefix (rq_authorization rq) ''Bearer '' \<noteq> cf_APIToken (ws_cfg s)
      then answers s (http_error ''unauthorized'' 401)
      else handler rq s)"

definition security_headers :: "(string \<times> string) list" where
  "security_headers =
     [(''X-Frame-Options'', ''DENY''), (''X-Content-Type-Options'', ''nosniff''),
      (''Content-Security-Policy'',
       ''default-src '' @ squote @ ''self'' @ squote @ ''; script-src '' @ squote @ ''self'' @ squote @ '' ''
       @ squote @ ''unsafe-inline'' @ squote @ ''; style-src '' @ squote @ ''self'' @ squote @ '' ''
       @ squote @ ''unsafe-inline'' @ squote @ ''; img-src '' @ squote @ ''self'' @ squote @ '' data:'')]"

definition cors_headers :: "string \<Rightarrow> (string \<times> string) list" where
  "cors_headers origin =
     [(''Access-Control-Allow-Origin'', origin), (''Access-Control-Allow-Methods'', ''GET, POST, OPTIONS''),
      (''Access-Control-Allow-Headers'', ''Content-Type, Authorization''), (''Access-Control-Max-Age'', ''86400'')]"

definition cors_middleware :: "(web_request \<Rightarrow> server \<Rightarrow> handled) \<Rightarrow> web_request \<Rightarrow> server \<Rightarrow> handled" where
  "cors_middleware handler rq s =
     (let ok = rq_origin rq \<noteq> [] \<and> rq_origin rq \<in> set (ws_allowedOrigins s);
          hs = security_headers @ (if ok then cors_headers (rq_origin rq) else [])
      in if rq_method rq = ''OPTIONS''
         then answers s \<lparr>rp_status = (if ok then 204 else 403), rp_headers = hs, rp_body = NoBody\<rparr>
         else (case handler rq s of (s', rp, sent) \<Rightarrow>
                 (s', map_option (\<lambda>r. r\<lparr>rp_headers := hs @ rp_headers r\<rparr>) rp, sent)))"

section \<open>Reading handlers\<close>

text \<open>
  \<open>bufio.Scanner\<close> over lines: the line break and a carriage return before it are dropped, and the scan ends
  for good at a line that does not fit its buffer of 64 KB.
\<close>

definition drop_cr :: "string \<Rightarrow> string" where
  "drop_cr l = trim_suffix l [CHR 0x0D]"

definition scan_lines :: "string \<Rightarrow> string list" where
  "scan_lines s =
     (let ls = split_on (CHR 0x0A) s;
          ls = (if last ls = [] then butlast ls else ls)
      in map drop_cr (takeWhile (\<lambda>l. length l < 65536) ls))"

definition alerts_limit :: "string \<Rightarrow> int" where
  "alerts_limit lq = (case atoi lq of Some n \<Rightarrow> if 0 < n \<and> n \<le> 500 then n else 100 | None \<Rightarrow> 100)"

fun some_values :: "'a option list \<Rightarrow> 'a list" where
  "some_values [] = []"
| "some_values (None # xs) = some_values xs"
| "some_values (Some x # xs) = x # some_values xs"

definition method_not_allowed :: "server \<Rightarrow> handled" where
  "method_not_allowed s = answers s (http_error ''method not allowed'' 405)"

definition handle_alerts :: "web_env \<Rightarrow> web_request \<Rightarrow> server \<Rightarrow> handled" where
  "handle_alerts env rq s =
     (if rq_method rq \<noteq> ''GET'' then method_not_allowed s
      else case ws_alertLogger s of None \<Rightarrow> answers s (write_json (AlertsBody [] 0))
      | Some lg \<Rightarrow>
          if we_denied env (lg_filepath lg) then answers s (http_error ''cannot read alerts'' 500)
          else (case we_fs env (lg_filepath lg) of
             None \<Rightarrow> answers s (write_json (AlertsBody [] 0))
           | Some content \<Rightarrow>
               let level = rq_query rq ''level'';
                   matching = filter (\<lambda>a. level = [] \<or> al_Level a = level)
                                (some_values (map decode_alert (scan_lines content)));
                   newest = rev matching
               in answers s (write_json (AlertsBody (take (nat (alerts_limit (rq_query rq ''limit''))) newest)
                               (int (length newest))))))"

definition handle_file :: "web_env \<Rightarrow> web_request \<Rightarrow> server \<Rightarrow> handled" where
  "handle_file env rq s =
     (let empty = \<lparr>fr_Enabled = False, fr_WatchPaths = cf_FileWatchPaths (ws_cfg s),
                   fr_MaxSizeMB = cf_FileMaxSizeMB (ws_cfg s), fr_LastRun = [], fr_RunCount = 0,
                   fr_AlertCount = 0, fr_LastError = []\<rparr>
      in answers s (write_json (FileBody
           (case registry_get ''file'' (ws_registry s) of None \<Rightarrow> empty
            | Some a \<Rightarrow>
                let st = ba_status (sl_base a) in
                empty\<lparr>fr_Enabled := st_Enabled st, fr_RunCount := st_RunCount st,
                      fr_AlertCount := st_AlertCount st, fr_LastError := st_LastError st,
                      fr_LastRun := (if st_LastRun st = 0 then [] else we_rfc3339 env (st_LastRun st))\<rparr>))))"

definition handle_daily_report :: "web_env \<Rightarrow> web_request \<Rightarrow> server \<Rightarrow> handled" where
  "handle_daily_report env rq s =
     (let c = ws_cfg s;
          resp = \<lparr>yr_Enabled = cf_DailyReportEnabled c,
                  yr_ScheduledAt = show_02d (nat (cf_DailyReportHour c)) @ '':'' @ show_02d (nat (cf_DailyReportMinute c)),
                  yr_LastSent = [], yr_NextSend = []\<rparr>
      in answers s (write_json (DailyBody
           (case ws_dailyReporter s of None \<Rightarrow> resp
            | Some r \<Rightarrow>
                let next = (if we_nextSend env < we_now env then we_nextSend env + 24 * hour else we_nextSend env)
                in resp\<lparr>yr_LastSent := (if dr_lastSent r = 0 then [] else we_rfc3339 env (dr_lastSent r)),
                        yr_NextSend := we_rfc3339 env next\<rparr>))))"

definition context_response_of :: "adaptive_context \<Rightarrow> context_response" where
  "context_response_of ctx =
     \<lparr>lr_CycleCount = cx_CycleCount ctx, lr_DominantAction = cx_DominantAction ctx, lr_AlertRate = cx_AlertRate ctx,
      lr_CPUTrend = cx_CPUTrend ctx, lr_RAMTrend = cx_RAMTrend ctx, lr_DiskTrend = cx_DiskTrend ctx,
      lr_CPUForecast = cx_CPUForecast ctx, lr_RAMForecast = cx_RAMForecast ctx,
      lr_DiskForecast = cx_DiskForecast ctx, lr_RecentAlerts = cx_RecentAlerts ctx\<rparr>"

definition handle_llm_context :: "web_env \<Rightarrow> web_request \<Rightarrow> server \<Rightarrow> handled" where
  "handle_llm_context env rq s =
     (case (js_last_cycles 20 (ws_state s), js_last 10 (ws_state s)) of
        (Some cycles, Some snaps) \<Rightarrow>
          answers s (write_json (ContextBody (context_response_of (build_adaptive_context (we_context env) cycles snaps
            (cf_CPUAlertThreshold (ws_cfg s)) (cf_RAMAlertThreshold (ws_cfg s)) (cf_DiskAlertThreshold (ws_cfg s))))))
      | _ \<Rightarrow> (s, None, False))"

definition history_range :: "string \<Rightarrow> string \<times> int \<times> int" where
  "history_range r =
     (if r = ''30d'' then (r, 30, 6) else if r = ''90d'' then (r, 90, 24) else (''7d'', 7, 1))"

definition handle_history_full :: "web_env \<Rightarrow> web_request \<Rightarrow> server \<Rightarrow> handled" where
  "handle_history_full env rq s =
     (if rq_method rq \<noteq> ''GET'' then method_not_allowed s
      else case ws_history s of
        None \<Rightarrow> answers s (write_json (HistoryFullBody
           \<lparr>hr_Range = [], hr_From = 0, hr_To = 0, hr_BucketHours = 0, hr_Buckets = [], hr_TotalSnapshots = 0,
            hr_Available = False\<rparr>))
      | Some (buckets, count_all) \<Rightarrow>
          (case history_range (rq_query rq ''range'') of (r, days, bucketHours) \<Rightarrow>
             let from_t = we_now env - days * (24 * hour) in
             answers s (write_json (HistoryFullBody
               \<lparr>hr_Range = r, hr_From = from_t, hr_To = we_to env, hr_BucketHours = bucketHours,
                hr_Buckets = buckets from_t bucketHours, hr_TotalSnapshots = count_all from_t, hr_Available = True\<rparr>))))"

definition handle_index :: "web_env \<Rightarrow> web_request \<Rightarrow> server \<Rightarrow> handled" where
  "handle_index env rq s =
     (case we_static env ''static/index.html'' of
        None \<Rightarrow> answers s (http_error ''404 page not found'' 404)
      | Some data \<Rightarrow>
          answers s \<lparr>rp_status = 200, rp_headers = [(''Content-Type'', ''text/html; charset=utf-8'')],
                     rp_body = PlainText data\<rparr>)"

definition format_uptime :: "duration \<Rightarrow> string" where
  "format_uptime d =
     (let h = f_trunc (in_units hour d);
          m = go_mod (f_trunc (in_units minute d)) 60;
          sec = go_mod (f_trunc (in_units second d)) 60
      in if 0 < h then show_int h @ ''h '' @ show_int m @ ''m '' @ show_int sec @ ''s''
         else show_int m @ ''m '' @ show_int sec @ ''s'')"

lemma format_uptime_eq: "format_uptime = format_duration"
  by (rule ext) (simp add: format_uptime_def format_duration_def Let_def)

definition exec_result_of :: "command_result \<Rightarrow> exec_last_result" where
  "exec_result_of r =
     \<lparr>er_Command = rs_Command r, er_Output = rs_Output r, er_Error = rs_Error r, er_Success = rs_Success r,
      er_DurationMs = f_of_int (go_div (rs_Duration r) millisecond), er_TimedOut = rs_TimedOut r\<rparr>"

definition handle_status :: "web_env \<Rightarrow> web_request \<Rightarrow> server \<Rightarrow> handled" where
  "handle_status env rq s =
     (case js_last_cycles 1 (ws_state s) of
        None \<Rightarrow> (s, None, False)
      | Some cycles \<Rightarrow>
          let guard = (case ws_execGuard s of None \<Rightarrow> ([], 0) | Some oc \<Rightarrow> exec_guard_status (we_now env) oc);
              lastr = (case ws_execGuard s of None \<Rightarrow> None
                       | Some oc \<Rightarrow> (case last_exec_result_status oc of (r, ok) \<Rightarrow> if ok then Some (exec_result_of r) else None))
          in answers s (write_json (StatusBody
               \<lparr>sr_Online = True, sr_Model = cf_Model (ws_cfg s), sr_Interval = show_duration (cf_Interval (ws_cfg s)),
                sr_CycleNum = js_CycleNum (ws_state s), sr_Uptime = format_uptime (we_uptime env),
                sr_DryRun = cf_DryRun (ws_cfg s),
                sr_CircuitState = (case registry_circuit_stats (ws_registry s) of
                    Some st \<Rightarrow> cs_State st | None \<Rightarrow> ''unknown''),
                sr_LastCycle = (case cycles of [] \<Rightarrow> None | c # _ \<Rightarrow> Some c),
                sr_ExecGuard = (case ws_execGuard s of
                    None \<Rightarrow> \<lparr>eg_LastCmd = [], eg_CooldownRemainingSeconds = Fin 0\<rparr>
                  | Some _ \<Rightarrow> \<lparr>eg_LastCmd = fst guard, eg_CooldownRemainingSeconds = in_units second (snd guard)\<rparr>),
                sr_LastExecResult = lastr\<rparr>)))"

definition handle_history :: "web_env \<Rightarrow> web_request \<Rightarrow> server \<Rightarrow> handled" where
  "handle_history env rq s =
     (case js_last_cycles 10 (ws_state s) of
        None \<Rightarrow> (s, None, False)
      | Some cycles \<Rightarrow> answers s (write_json (HistoryBody (reverse_in_place cycles) (js_CycleNum (ws_state s)))))"

definition handle_agents :: "web_env \<Rightarrow> web_request \<Rightarrow> server \<Rightarrow> handled" where
  "handle_agents env rq s =
     (let sts = registry_statuses (ws_registry s) in answers s (write_json (AgentsBody sts (int (length sts)))))"

text \<open>A logger that is not there leaves the zero value of \<open>LogStatus\<close> in the answer.\<close>

definition zero_log_status :: log_status where
  "zero_log_status =
     \<lparr>ls_Filepath = [], ls_SizeBytes = 0, ls_SizeMB = Fin 0, ls_MaxBytes = 0, ls_MaxMB = Fin 0,
      ls_UsedPercent = Fin 0, ls_Backups = [], ls_BackupCount = 0\<rparr>"

definition handle_logs_status :: "web_env \<Rightarrow> web_request \<Rightarrow> server \<Rightarrow> handled" where
  "handle_logs_status env rq s =
     (let st = case_option zero_log_status (\<lambda>l. log_status_of (we_fsenv env) l (we_fs env))
      in answers s (write_json (LogsBody (st (ws_mainLogger s)) (st (ws_alertLogger s)))))"

definition handle_docker :: "web_env \<Rightarrow> web_request \<Rightarrow> server \<Rightarrow> handled" where
  "handle_docker env rq s =
     (let down = \<lparr>kr_Available = False, kr_Containers = None, kr_Total = 0, kr_Running = 0, kr_Exited = 0\<rparr> in
      if \<not> docker_available (we_dockerVersion env) then answers s (write_json (DockerBody down))
      else (case list_containers (we_dockerList env) of
         None \<Rightarrow> (s, None, False)
       | Some (Inl _) \<Rightarrow> answers s (write_json (DockerBody (down\<lparr>kr_Available := True\<rparr>)))
       | Some (Inr cs) \<Rightarrow> answers s (write_json (DockerBody
           \<lparr>kr_Available = True, kr_Containers = Some cs, kr_Total = int (length cs),
            kr_Running = int (length (filter ct_Running cs)), kr_Exited = int (length (filter ct_Exited cs))\<rparr>))))"

section \<open>Handlers that act\<close>

definition too_many :: "web_reply" where
  "too_many =
     (http_error ''rate limit exceeded'' 429)
       \<lparr>rp_headers := (''Retry-After'', ''1'') # rp_headers (http_error ''rate limit exceeded'' 429)\<rparr>"

definition handle_daily_report_send :: "web_env \<Rightarrow> web_request \<Rightarrow> server \<Rightarrow> handled" where
  "handle_daily_report_send env rq s =
     (if rq_method rq \<noteq> ''POST'' then method_not_allowed s
      else case tb_allow (we_now env) (ws_limitSendReport s) of
        (False, tb) \<Rightarrow> answers (s\<lparr>ws_limitSendReport := tb\<rparr>) too_many
      | (True, tb) \<Rightarrow>
          (let s' = s\<lparr>ws_limitSendReport := tb\<rparr> in
           if ws_dailyReporter s = None \<or> \<not> cf_DailyReportEnabled (ws_cfg s)
           then answers s' (write_json (SendBody False
                  (''DailyReporter non configur'' @ e_acute @ '' '' @ em_dash @ '' active JARVINX_DAILY_REPORT=true'')))
           else (s', Some (write_json (SendBody True (''Rapport en cours d'' @ squote @ ''envoi''))), True)))"

text \<open>
  The body of a toggle: at most 4096 bytes are read, the first JSON value is decoded into the request and
  what follows it is ignored.
\<close>

fun decode_toggle_fields :: "(string \<times> json) list \<Rightarrow> string \<times> bool \<Rightarrow> string \<times> bool" where
  "decode_toggle_fields [] acc = acc"
| "decode_toggle_fields ((k, v) # ms) (name, ok) =
     (if named_field ''name'' k
      then (case str_field v name of (n, fits) \<Rightarrow> decode_toggle_fields ms (n, ok \<and> fits))
      else decode_toggle_fields ms (name, ok))"

definition decode_toggle :: "string \<Rightarrow> string option" where
  "decode_toggle content =
     (let s = take 4096 content in
      case parse_value (2 * length s + 2) 0 s of
        Some (JObj ms, _) \<Rightarrow> (case decode_toggle_fields ms ([], True) of (name, ok) \<Rightarrow> if ok then Some name else None)
      | Some (JNull, _) \<Rightarrow> Some []
      | _ \<Rightarrow> None)"

definition handle_agent_toggle :: "web_env \<Rightarrow> web_request \<Rightarrow> server \<Rightarrow> handled" where
  "handle_agent_toggle env rq s =
     (if rq_method rq \<noteq> ''POST'' then method_not_allowed s
      else case tb_allow (we_now env) (ws_limitToggle s) of
        (False, tb) \<Rightarrow> answers (s\<lparr>ws_limitToggle := tb\<rparr>) too_many
      | (True, tb) \<Rightarrow>
          (let s' = s\<lparr>ws_limitToggle := tb\<rparr> in
           case decode_toggle (rq_content rq) of
             None \<Rightarrow> answers s' (http_error ''invalid JSON body'' 400)
           | Some name \<Rightarrow>
               if name = [] then answers s' (http_error ''name is required'' 400)
               else (case registry_get name (ws_registry s) of
                  None \<Rightarrow> answers s' (http_error (''agent '' @ squote @ name @ squote @ '' not found'') 404)
                | Some a \<Rightarrow>
                    if ba_enabled (sl_base a)
                    then answers (s'\<lparr>ws_registry := fst (registry_disable name (ws_registry s))\<rparr>)
                           (write_json (ToggleBody name False (''agent '' @ squote @ name @ squote @ '' d'' @ e_acute @ ''sactiv'' @ e_acute)))
                    else answers (s'\<lparr>ws_registry := fst (registry_enable name (ws_registry s))\<rparr>)
                           (write_json (ToggleBody name True (''agent '' @ squote @ name @ squote @ '' activ'' @ e_acute))))))"

section \<open>Routing\<close>

definition routes :: "(string \<times> (web_env \<Rightarrow> web_request \<Rightarrow> server \<Rightarrow> handled)) list" where
  "routes =
     [(''/api/status'', handle_status), (''/api/history'', handle_history), (''/api/agents'', handle_agents),
      (''/api/agents/toggle'', handle_agent_toggle), (''/api/docker'', handle_docker),
      (''/api/logs/status'', handle_logs_status), (''/api/file'', handle_file),
      (''/api/daily-report'', handle_daily_report), (''/api/daily-report/send'', handle_daily_report_send),
      (''/api/alerts'', handle_alerts), (''/api/llm-context'', handle_llm_context),
      (''/api/history/full'', handle_history_full)]"

text \<open>\<open>ServeMux\<close> redirects a path that is not clean, then takes the longest pattern that matches.\<close>

definition mux :: "web_env \<Rightarrow> web_request \<Rightarrow> server \<Rightarrow> handled" where
  "mux env rq s =
     (if we_clean env (rq_path rq) \<noteq> rq_path rq
      then answers s \<lparr>rp_status = 301, rp_headers = [(''Location'', we_clean env (rq_path rq))], rp_body = NoBody\<rparr>
      else case map_of routes (rq_path rq) of
        Some h \<Rightarrow> h env rq s
      | None \<Rightarrow> if prefix ''/static/'' (rq_path rq) then answers s (we_fileServer env rq)
                else handle_index env rq s)"

definition serve :: "web_env \<Rightarrow> web_request \<Rightarrow> server \<Rightarrow> handled" where
  "serve env = cors_middleware (auth_middleware (mux env))"

section \<open>The bucket of one token per second\<close>

text \<open>The largest value of \<open>Seconds()\<close> below one second; it is a double below 1.\<close>

definition below_one :: rat where
  "below_one = 9007199245733793 / 2 ^ 53"

lemma below_one_facts: "rnd (999999999 / 1000000000) = Fin below_one" "rnd below_one = Fin below_one" "below_one < 1"
proof -
  show "rnd (999999999 / 1000000000) = Fin below_one" by code_simp
  have "rnd (of_int 9007199245733793 * 2 powi (- 53)) = Fin (of_int 9007199245733793 * 2 powi (- 53))"
    by (rule rnd_dyadic) simp_all
  then show "rnd below_one = Fin below_one" by (simp add: below_one_def power_int_minus_divide)
  show "below_one < 1" by (simp add: below_one_def)
qed

lemma in_seconds:
  assumes "0 \<le> d" "d \<le> max_duration"
  obtains q where "in_units second d = Fin q" "0 \<le> q" "q \<le> 10000000000"
    "second \<le> d \<Longrightarrow> 1 \<le> q" "d < second \<Longrightarrow> q \<le> below_one"
proof -
  let ?s = "d div second" and ?n = "d mod second"
  have s: "0 \<le> ?s" "?s \<le> 9999999999" using assms by (auto simp: max_duration_def)
  have n: "0 \<le> ?n" "?n \<le> 999999999" using pos_mod_bound [of second d] by simp_all
  have "rnd (of_int ?n / 1000000000) = f_div (f_of_int ?n) (f_of_int second)"
    using n by simp
  moreover have "(0::rat) \<le> of_int ?n / 1000000000" "of_int ?n / 1000000000 \<le> (999999999 / 1000000000 :: rat)"
    using n by (simp_all add: divide_right_mono)
  ultimately obtain f where f: "f_div (f_of_int ?n) (f_of_int second) = Fin f" "0 \<le> f" "f \<le> below_one"
    using rnd_range [OF _ _ rnd_0 below_one_facts(1)] by metis
  have eq: "in_units second d = rnd (of_int ?s + f)"
    using assms s f by (simp add: in_units_def go_div_nonneg go_mod_nonneg)
  have f1: "f \<le> 1" using f below_one_facts(3) by linarith
  have "(0::rat) \<le> of_int ?s" "of_int ?s \<le> (9999999999::rat)"
    using s by (simp_all only: of_int_0_le_iff of_int_le_numeral_iff)
  then have lo: "(0::rat) \<le> of_int ?s + f" and hi: "of_int ?s + f \<le> (10000000000::rat)"
    using f f1 by linarith+
  have "rnd (10000000000::rat) = Fin 10000000000" by simp
  from rnd_range [OF lo hi rnd_0 this]
  obtain q where q: "rnd (of_int ?s + f) = Fin q" "0 \<le> q" "q \<le> 10000000000" by blast
  have "1 \<le> q" if "second \<le> d"
  proof -
    have "1 \<le> ?s" using that by simp
    then have "(1::rat) \<le> of_int ?s" by (simp only: of_int_1_le_iff)
    then have "(1::rat) \<le> of_int ?s + f" using f by linarith
    from rnd_mono [OF this] show ?thesis using q by simp
  qed
  moreover have "q \<le> below_one" if "d < second"
    using that assms q f rnd_mono [of f below_one] below_one_facts(2) by (simp add: div_pos_pos_trivial)
  ultimately show ?thesis using that [of q] q eq by simp
qed

definition bucket_ok :: "token_bucket \<Rightarrow> bool" where
  "bucket_ok tb \<longleftrightarrow> tb_capacity tb = Fin 1 \<and> tb_refillRate tb = Fin 1
     \<and> (\<exists>t. tb_tokens tb = Fin t \<and> 0 \<le> t \<and> t \<le> 1)"

lemma bucket_ok_new [simp]: "bucket_ok (new_token_bucket now (Fin 1) (Fin 1))"
  by (simp add: bucket_ok_def new_token_bucket_def)

lemma tb_lastRefill_new [simp]: "tb_lastRefill (new_token_bucket now r c) = now"
  by (simp add: new_token_bucket_def)

lemma tb_allow_step:
  assumes ok: "bucket_ok tb" and now: "tb_lastRefill tb \<le> now" and step: "tb_allow now tb = (g, tb')"
  shows "bucket_ok tb' \<and> tb_lastRefill tb' = now \<and> (g \<longrightarrow> tb_tokens tb' = Fin 0)
    \<and> (second \<le> now - tb_lastRefill tb \<longrightarrow> g)
    \<and> (tb_tokens tb = Fin 0 \<longrightarrow> now - tb_lastRefill tb < second \<longrightarrow> \<not> g)"
proof -
  let ?d = "time_sub now (tb_lastRefill tb)"
  have d: "0 \<le> ?d" "?d \<le> max_duration" using now by (auto simp: time_sub_def max_duration_def min_duration_def)
  have d1: "second \<le> ?d \<longleftrightarrow> second \<le> now - tb_lastRefill tb"
    by (rule time_sub_ge_iff) (simp_all add: max_duration_def min_duration_def)
  obtain t where t: "tb_tokens tb = Fin t" "0 \<le> t" "t \<le> 1" and cap: "tb_capacity tb = Fin 1" "tb_refillRate tb = Fin 1"
    using ok by (auto simp: bucket_ok_def)
  obtain q where q: "in_units second ?d = Fin q" "0 \<le> q" "q \<le> 10000000000"
    "second \<le> ?d \<Longrightarrow> 1 \<le> q" "?d < second \<Longrightarrow> q \<le> below_one"
    using in_seconds [OF d] by blast
  have big: "rnd (10000000000::rat) = Fin 10000000000" "rnd (20000000000::rat) = Fin 20000000000" by simp_all
  obtain r where r: "rnd q = Fin r" "0 \<le> r" "r \<le> 10000000000"
    using rnd_range [OF q(2,3) rnd_0 big(1)] by blast
  have r1: "1 \<le> r" if "second \<le> ?d" using rnd_mono [OF q(4) [OF that]] r by simp
  have r2: "r \<le> below_one" if "?d < second" using rnd_mono [OF q(5) [OF that]] r below_one_facts(2) by simp
  have lo: "0 \<le> t + r" and hi: "t + r \<le> 20000000000" using t r by linarith+
  obtain x where x: "rnd (t + r) = Fin x" "0 \<le> x"
    using rnd_range [OF lo hi rnd_0 big(2)] by blast
  have x1: "1 \<le> x" if "second \<le> ?d"
    using rnd_mono [of 1 "t + r"] r1 [OF that] t x by simp
  have x2: "x < 1" if "?d < second" "t = 0"
    using rnd_mono [OF r2 [OF that(1)]] that x below_one_facts(2,3) by simp
  have "tb_allow now tb =
      (if 1 \<le> x then (True, tb\<lparr>tb_tokens := Fin 0, tb_lastRefill := now\<rparr>)
       else (False, tb\<lparr>tb_tokens := Fin x, tb_lastRefill := now\<rparr>))"
    using t q r x cap by (auto simp: tb_allow_def Let_def f_sub_def)
  then show ?thesis using step x x1 x2 t cap d1 by (auto simp: bucket_ok_def split: if_splits)
qed

fun bucket_answers :: "token_bucket \<Rightarrow> time list \<Rightarrow> bool list" where
  "bucket_answers tb [] = []"
| "bucket_answers tb (now # ts) = (case tb_allow now tb of (g, tb') \<Rightarrow> g # bucket_answers tb' ts)"

definition honest :: "time \<times> bool \<Rightarrow> time \<times> bool \<Rightarrow> bool" where
  "honest a b \<longleftrightarrow> (second \<le> fst b - fst a \<longrightarrow> snd b) \<and> (snd a \<and> fst b - fst a < second \<longrightarrow> \<not> snd b)"

lemma bucket_answers_honest:
  "bucket_ok tb \<Longrightarrow> sorted (tb_lastRefill tb # ts) \<Longrightarrow> (g \<longrightarrow> tb_tokens tb = Fin 0) \<Longrightarrow>
     successively honest ((tb_lastRefill tb, g) # zip ts (bucket_answers tb ts))"
proof (induction ts arbitrary: tb g)
  case (Cons now ts)
  obtain g' tb' where s: "tb_allow now tb = (g', tb')" by fastforce
  note step = tb_allow_step [OF Cons.prems(1) _ s]
  have now: "tb_lastRefill tb \<le> now" using Cons.prems(2) by simp
  have "successively honest ((tb_lastRefill tb', g') # zip ts (bucket_answers tb' ts))"
    using step now Cons.prems(2) by (intro Cons.IH) auto
  moreover have "honest (tb_lastRefill tb, g) (now, g')"
    using step [OF now] Cons.prems(3) by (auto simp: honest_def)
  ultimately show ?case using step [OF now] s by simp
qed simp

lemma first_request_granted:
  assumes "t0 \<le> now" shows "fst (tb_allow now (new_token_bucket t0 (Fin 1) (Fin 1)))"
proof -
  let ?tb = "new_token_bucket t0 (Fin 1) (Fin 1)"
  let ?d = "time_sub now t0"
  have d: "0 \<le> ?d" "?d \<le> max_duration" using assms by (auto simp: time_sub_def max_duration_def min_duration_def)
  obtain q where q: "in_units second ?d = Fin q" "0 \<le> q" "q \<le> 10000000000" using in_seconds [OF d] by blast
  have big: "rnd (10000000000::rat) = Fin 10000000000" "rnd (20000000000::rat) = Fin 20000000000" by simp_all
  obtain r where r: "rnd q = Fin r" "0 \<le> r" "r \<le> 10000000000"
    using rnd_range [OF q(2,3) rnd_0 big(1)] by blast
  have lo: "1 \<le> 1 + r" and hi: "1 + r \<le> 20000000000" using r by linarith+
  obtain x where "rnd (1 + r) = Fin x" "1 \<le> x" using rnd_range [OF lo hi rnd_1 big(2)] by blast
  then show ?thesis using q r by (simp add: tb_allow_def new_token_bucket_def Let_def)
qed



section \<open>What a request can do\<close>

definition authorised :: "web_request \<Rightarrow> server \<Rightarrow> bool" where
  "authorised rq s \<longleftrightarrow> cf_APIToken (ws_cfg s) = [] \<or> rq_authorization rq = ''Bearer '' @ cf_APIToken (ws_cfg s)"

lemma auth_middleware_eq:
  "auth_middleware h rq s =
     (if \<not> prefix ''/api/'' (rq_path rq) \<or> authorised rq s then h rq s
      else answers s (http_error ''unauthorized'' 401))"
  by (auto simp: auth_middleware_def authorised_def trim_prefix_def elim!: prefixE)

lemmas read_handlers =
  handle_status_def handle_history_def handle_agents_def handle_docker_def handle_logs_status_def
  handle_file_def handle_daily_report_def handle_alerts_def handle_llm_context_def handle_history_full_def
  handle_index_def method_not_allowed_def

text \<open>A handler that reads leaves the server as it was.\<close>

definition reads_only :: "(web_env \<Rightarrow> web_request \<Rightarrow> server \<Rightarrow> handled) \<Rightarrow> bool" where
  "reads_only h \<longleftrightarrow> (\<forall>env rq s. fst (h env rq s) = s \<and> \<not> snd (snd (h env rq s)))"

lemma read_handlers_read [simp]:
  "reads_only handle_status" "reads_only handle_history" "reads_only handle_agents" "reads_only handle_docker"
  "reads_only handle_logs_status" "reads_only handle_file" "reads_only handle_daily_report"
  "reads_only handle_alerts" "reads_only handle_llm_context" "reads_only handle_history_full"
  "reads_only handle_index"
  unfolding reads_only_def read_handlers
  by (intro conjI allI; simp add: Let_def split: option.split prod.split sum.split)+

definition acts :: "string \<Rightarrow> bool" where
  "acts path \<longleftrightarrow> path = ''/api/agents/toggle'' \<or> path = ''/api/daily-report/send''"

lemma mux_reads:
  assumes "\<not> acts (rq_path rq)" shows "fst (mux env rq s) = s \<and> \<not> snd (snd (mux env rq s))"
proof -
  have "reads_only h" if "map_of routes (rq_path rq) = Some h" for h
    using that assms by (auto simp: routes_def acts_def split: if_splits)
  then show ?thesis
    using read_handlers_read(11)
    by (auto simp: mux_def reads_only_def split: option.splits)
qed

lemma mux_acts:
  "we_clean env (rq_path rq) = rq_path rq \<Longrightarrow> rq_path rq = ''/api/agents/toggle'' \<Longrightarrow> mux env rq s = handle_agent_toggle env rq s"
  "we_clean env (rq_path rq) = rq_path rq \<Longrightarrow> rq_path rq = ''/api/daily-report/send'' \<Longrightarrow>
     mux env rq s = handle_daily_report_send env rq s"
  "we_clean env (rq_path rq) \<noteq> rq_path rq \<Longrightarrow> fst (mux env rq s) = s \<and> \<not> snd (snd (mux env rq s))"
  by (simp_all add: mux_def routes_def)

lemma server_same [simp]:
  "s\<lparr>ws_limitToggle := ws_limitToggle s, ws_registry := ws_registry s\<rparr> = s"
  "s\<lparr>ws_limitToggle := tb, ws_registry := ws_registry s\<rparr> = s\<lparr>ws_limitToggle := tb\<rparr>"
  "s\<lparr>ws_limitSendReport := ws_limitSendReport s\<rparr> = s"
  by (cases s; simp)+

lemma toggle_frame:
  assumes "handle_agent_toggle env rq s = (s', rp, sent)"
  shows "\<not> sent \<and> s' = s\<lparr>ws_limitToggle := ws_limitToggle s', ws_registry := ws_registry s'\<rparr>
     \<and> (ws_registry s' \<noteq> ws_registry s \<longrightarrow>
          rq_method rq = ''POST'' \<and> fst (tb_allow (we_now env) (ws_limitToggle s)))"
proof -
  obtain g tb where tb: "tb_allow (we_now env) (ws_limitToggle s) = (g, tb)" by fastforce
  show ?thesis
    using assms tb
    by (auto simp: handle_agent_toggle_def method_not_allowed_def Let_def split: if_splits bool.splits option.splits)
qed

lemma report_frame:
  assumes "handle_daily_report_send env rq s = (s', rp, sent)"
  shows "s' = s\<lparr>ws_limitSendReport := ws_limitSendReport s'\<rparr>
     \<and> (sent \<longrightarrow> rq_method rq = ''POST'' \<and> fst (tb_allow (we_now env) (ws_limitSendReport s))
          \<and> cf_DailyReportEnabled (ws_cfg s) \<and> ws_dailyReporter s \<noteq> None)"
proof -
  obtain g tb where tb: "tb_allow (we_now env) (ws_limitSendReport s) = (g, tb)" by fastforce
  show ?thesis
    using assms tb
    by (auto simp: handle_daily_report_send_def method_not_allowed_def Let_def split: if_splits bool.splits)
qed

text \<open>C18: what a request can change. Whatever arrives, the only parts of the server a request changes are the
  two limiters and, on the toggle, the registry; the registry changes and a report starts only through an
  authorised, granted \<open>POST\<close> on their own route; and a request for the API without the configured token
  reaches no handler at all.\<close>
theorem requests_are_guarded:
  assumes "serve env rq s = (s', rp, sent)"
  shows "s' = s\<lparr>ws_registry := ws_registry s', ws_limitToggle := ws_limitToggle s', ws_limitSendReport := ws_limitSendReport s'\<rparr>
     \<and> (ws_registry s' \<noteq> ws_registry s \<longrightarrow> authorised rq s \<and> rq_method rq = ''POST''
          \<and> rq_path rq = ''/api/agents/toggle'' \<and> fst (tb_allow (we_now env) (ws_limitToggle s)))
     \<and> (sent \<longrightarrow> authorised rq s \<and> rq_method rq = ''POST'' \<and> rq_path rq = ''/api/daily-report/send''
          \<and> fst (tb_allow (we_now env) (ws_limitSendReport s)) \<and> cf_DailyReportEnabled (ws_cfg s))
     \<and> (prefix ''/api/'' (rq_path rq) \<and> \<not> authorised rq s \<longrightarrow> s' = s \<and> (\<exists>r. rp = Some r \<and> rp_status r \<in> {401, 204, 403}))"
proof (cases "rq_method rq \<noteq> ''OPTIONS'' \<and> (\<not> prefix ''/api/'' (rq_path rq) \<or> authorised rq s)")
  case False
  then have "s' = s \<and> \<not> sent \<and> (\<exists>r. rp = Some r \<and> rp_status r \<in> {401, 204, 403})"
    using assms by (auto simp: serve_def cors_middleware_def auth_middleware_eq Let_def http_error_def split: if_splits)
  then show ?thesis by (cases s) auto
next
  case True
  obtain rp0 where m: "mux env rq s = (s', rp0, sent)"
    using True assms by (auto simp: serve_def cors_middleware_def auth_middleware_eq Let_def split: if_splits prod.splits)
  have path: "prefix ''/api/'' (rq_path rq)" if "acts (rq_path rq)"
    using that by (auto simp: acts_def)
  consider "fst (mux env rq s) = s \<and> \<not> snd (snd (mux env rq s))"
    | "rq_path rq = ''/api/agents/toggle''" "mux env rq s = handle_agent_toggle env rq s"
    | "rq_path rq = ''/api/daily-report/send''" "mux env rq s = handle_daily_report_send env rq s"
    using mux_reads [of rq env s] mux_acts [of env rq s] unfolding acts_def by metis
  then show ?thesis
  proof cases
    case 1
    then show ?thesis using m True by (cases s) auto
  next
    case 2
    then show ?thesis using toggle_frame [of env rq s s' rp0 sent] m True path by (cases s; cases s') (auto simp: acts_def)
  next
    case 3
    then show ?thesis using report_frame [of env rq s s' rp0 sent] m True path by (cases s; cases s') (auto simp: acts_def)
  qed
qed

definition sample_server :: server where
  "sample_server =
     new_server 0 (default_config\<lparr>cf_APIToken := ''secret''\<rparr>) (empty_state ''state.json'')
       [sample_slot ''system'', sample_slot ''alert''] None (Some (new_logger ''alerts.jsonl'')) None None None"

definition sample_web_env :: "(string \<Rightarrow> string option) \<Rightarrow> web_env" where
  "sample_web_env fs =
     \<lparr>we_now = 5, we_to = 5, we_uptime = 0, we_rfc3339 = (\<lambda>_. []), we_nextSend = 0,
      we_context = \<lparr>ce_hour = 9, ce_weekday = 1, ce_walk = id\<rparr>, we_fsenv = working_fs, we_fs = fs,
      we_denied = (\<lambda>_. False), we_dockerVersion = HttpTransportError [],
      we_dockerList = HttpTransportError [], we_clean = id, we_static = (\<lambda>_. None),
      we_fileServer = (\<lambda>_. http_error [] 404)\<rparr>"

definition sample_request :: "string \<Rightarrow> string \<Rightarrow> string \<Rightarrow> string \<Rightarrow> web_request" where
  "sample_request method path token content =
     \<lparr>rq_method = method, rq_path = path, rq_authorization = ''Bearer '' @ token, rq_origin = [],
      rq_query = (\<lambda>_. []), rq_content = content\<rparr>"

theorem requests_are_guarded_witness:
  "fst (serve (sample_web_env (\<lambda>_. None))
      (sample_request ''POST'' ''/api/agents/toggle'' ''guess'' []) sample_server) = sample_server"
proof -
  let ?rq = "sample_request ''POST'' ''/api/agents/toggle'' ''guess'' []"
  obtain s' rp sent where r: "serve (sample_web_env (\<lambda>_. None)) ?rq sample_server = (s', rp, sent)"
    by (metis prod.collapse)
  have "prefix ''/api/'' (rq_path ?rq) \<and> \<not> authorised ?rq sample_server"
    by (simp add: sample_request_def authorised_def sample_server_def new_server_def)
  with requests_are_guarded [OF r] show ?thesis by (simp only: r fst_conv simp_thms)
qed

text \<open>The toggle does what it says. An authorised, granted \<open>POST\<close> whose body names a registered agent flips
  the flag of exactly that agent, answers with the flag it set and leaves every other agent alone.\<close>
theorem toggle_flips_one_agent:
  assumes "rq_method rq = ''POST''" "rq_path rq = ''/api/agents/toggle''" "we_clean env (rq_path rq) = rq_path rq"
    and "authorised rq s" "fst (tb_allow (we_now env) (ws_limitToggle s))"
    and "decode_toggle (rq_content rq) = Some name" "name \<noteq> []" "registry_get name (ws_registry s) = Some a"
    and "serve env rq s = (s', rp, sent)"
  shows "registry_get name (ws_registry s')
        = Some (a\<lparr>sl_base := (sl_base a)\<lparr>ba_enabled := \<not> ba_enabled (sl_base a)\<rparr>\<rparr>)
     \<and> (\<forall>other. other \<noteq> name \<longrightarrow> registry_get other (ws_registry s') = registry_get other (ws_registry s))
     \<and> length (ws_registry s') = length (ws_registry s)
     \<and> (\<exists>r msg. rp = Some r \<and> rp_status r = 200 \<and> rp_body r = ToggleBody name (\<not> ba_enabled (sl_base a)) msg)"
proof -
  let ?P = "\<lambda>a. ba_name (sl_base a) = name"
  let ?f = "if ba_enabled (sl_base a) then ba_disable else ba_enable"
  obtain tb where tb: "tb_allow (we_now env) (ws_limitToggle s) = (True, tb)" using assms(5) by (metis prod.collapse)
  obtain msg where h: "handle_agent_toggle env rq s =
      answers (s\<lparr>ws_limitToggle := tb, ws_registry := update_first ?P (\<lambda>a. a\<lparr>sl_base := ?f (sl_base a)\<rparr>) (ws_registry s)\<rparr>)
        (write_json (ToggleBody name (\<not> ba_enabled (sl_base a)) msg))"
    using assms(1,6,7,8) tb
    by (cases "ba_enabled (sl_base a)") (auto simp: handle_agent_toggle_def Let_def registry_enable_def registry_disable_def)
  have "serve env rq s = (case handle_agent_toggle env rq s of (s', rp, sent) \<Rightarrow>
      (s', map_option (\<lambda>r. r\<lparr>rp_headers := security_headers @ (if rq_origin rq \<noteq> [] \<and> rq_origin rq \<in> set (ws_allowedOrigins s)
         then cors_headers (rq_origin rq) else []) @ rp_headers r\<rparr>) rp, sent))"
    using assms(1-4) mux_acts(1) [of env rq s]
    by (simp add: serve_def cors_middleware_def auth_middleware_eq Let_def split: prod.splits)
  with h assms(9) have reg: "ws_registry s' = update_first ?P (\<lambda>a. a\<lparr>sl_base := ?f (sl_base a)\<rparr>) (ws_registry s)"
    and rp: "\<exists>r. rp = Some r \<and> rp_status r = 200 \<and> rp_body r = ToggleBody name (\<not> ba_enabled (sl_base a)) msg"
    by (auto simp: write_json_def)
  have names: "ba_name (?f b) = ba_name b" for b by simp
  have "registry_get name (ws_registry s') = Some (a\<lparr>sl_base := ?f (sl_base a)\<rparr>)"
    using assms(8) find_update_first [of ?P "\<lambda>a. a\<lparr>sl_base := ?f (sl_base a)\<rparr>" "ws_registry s"] names
    by (simp add: reg registry_get_def)
  moreover have "registry_get other (ws_registry s') = registry_get other (ws_registry s)" if "other \<noteq> name" for other
    using that names find_update_other [of "\<lambda>a. ba_name (sl_base a) = other" ?P "\<lambda>a. a\<lparr>sl_base := ?f (sl_base a)\<rparr>" "ws_registry s"]
    by (simp add: reg registry_get_def)
  ultimately show ?thesis using rp reg by (auto simp: ba_enable_def ba_disable_def)
qed

theorem toggle_flips_one_agent_witness:
  "\<exists>a. registry_get ''alert'' (ws_registry (fst (serve (sample_web_env (\<lambda>_. None))
        (sample_request ''POST'' ''/api/agents/toggle'' ''secret'' ''{\"name\":\"alert\"}'') sample_server))) = Some a
     \<and> \<not> ba_enabled (sl_base a)"
proof -
  let ?env = "sample_web_env (\<lambda>_. None)"
  let ?rq = "sample_request ''POST'' ''/api/agents/toggle'' ''secret'' ''{\"name\":\"alert\"}''"
  obtain s' rp sent where r: "serve ?env ?rq sample_server = (s', rp, sent)" by (metis prod.collapse)
  have "decode_toggle ''{\"name\":\"alert\"}'' = Some ''alert''" by code_simp
  moreover have "fst (tb_allow 5 (new_token_bucket 0 (Fin 1) (Fin 1)))" by (rule first_request_granted) simp
  ultimately have "registry_get ''alert'' (ws_registry s')
      = Some ((sample_slot ''alert'')\<lparr>sl_base := (sl_base (sample_slot ''alert''))
          \<lparr>ba_enabled := \<not> ba_enabled (sl_base (sample_slot ''alert''))\<rparr>\<rparr>)"
    by (intro toggle_flips_one_agent [where name = "''alert''", OF _ _ _ _ _ _ _ _ r, THEN conjunct1])
      (simp_all add: sample_request_def sample_web_env_def authorised_def sample_server_def new_server_def
        registry_get_def sample_slot_def new_base_agent_def)
  then show ?thesis by (simp add: r sample_slot_def new_base_agent_def)
qed

section \<open>Reading the alert file\<close>

lemma scan_lines_written:
  assumes "\<forall>l\<in>set ls. CHR 0x0A \<notin> set l \<and> length l < 65536 \<and> suffix ''}'' l"
  shows "scan_lines (concat (map (\<lambda>l. l @ nl) ls)) = ls"
proof -
  have cr: "drop_cr l = l" if "suffix ''}'' l" for l
    using that by (auto simp: drop_cr_def trim_suffix_def suffix_def)
  have "takeWhile (\<lambda>l. length l < 65536) ls = ls" using assms by (auto simp: takeWhile_eq_all_conv)
  moreover have "map drop_cr ls = ls" using assms cr by (auto intro!: map_idI)
  moreover have "split_on (CHR 0x0A) (concat (map (\<lambda>l. l @ nl) ls)) = ls @ [[]]"
    using assms by (intro split_on_lines) (auto simp: list_all_iff)
  ultimately show ?thesis by (simp only: scan_lines_def Let_def last_snoc butlast_snoc if_True simp_thms)
qed

lemma some_values_map: "(\<And>x. x \<in> set xs \<Longrightarrow> f x = Some (g x)) \<Longrightarrow> some_values (map f xs) = map g xs"
  by (induction xs) auto


definition full_disk_env :: "time \<Rightarrow> alert_env" where
  "full_disk_env t = \<lparr>ae_snapshot = zero_snapshot\<lparr>sn_Timestamp := t, sn_DiskPercent := Fin 95\<rparr>, ae_zone = utc,
     ae_fsenv = working_fs, ae_rfc3339 = (\<lambda>_. ''t''), ae_send = (\<lambda>_ _. HttpTransportError ''down''), ae_clock = t\<rparr>"


end
