(* ===== verification/JX_Answers.thy ===== *)
theory JX_Answers
  imports JX_Web
begin

text \<open>
  The text of the answers: the response structs of \<open>runtime/web/server.go\<close>, \<open>AgentStatus\<close>, \<open>ContainerState\<close>,
  \<open>LogStatus\<close> and \<open>SnapshotBucket\<close> as tables of their fields, and \<open>writeJSON\<close>, which sends the structure as a
  line of JSON or, when the encoder refuses it, the error with status 500. A decoder reads the text as the
  dashboard does.

  Times are written in the zone of the host, except the zero time of an agent that never ran and the range of
  the history, which are in UTC. A time that was read from a file keeps in Go the offset of the text it was read
  from; here that is the offset of the host.

  \<open>answer_reads_back\<close>: the text of an answer whose values JSON can hold reads back as that answer.
\<close>

section \<open>Booleans, slices and pointers\<close>

definition write_bool :: "bool \<Rightarrow> json option" where
  "write_bool b = Some (JBool b)"

definition read_bool :: "json \<Rightarrow> bool \<Rightarrow> bool \<times> verdict" where
  "read_bool v old = (case v of JBool b \<Rightarrow> (b, Fits) | JNull \<Rightarrow> (old, Fits) | _ \<Rightarrow> (old, Misfits))"

text \<open>A slice that is not nil is written as an array, the empty one as well.\<close>

definition write_array :: "('v \<Rightarrow> json option) \<Rightarrow> 'v list \<Rightarrow> json option" where
  "write_array wr xs = map_option JArr (write_elems wr xs)"

text \<open>What may be nil, a pointer or a slice: nil is \<open>null\<close>, and reading \<open>null\<close> makes it nil.\<close>

definition write_opt :: "('v \<Rightarrow> json option) \<Rightarrow> 'v option \<Rightarrow> json option" where
  "write_opt wr x = (case x of None \<Rightarrow> Some JNull | Some v \<Rightarrow> wr v)"

definition read_opt :: "(json \<Rightarrow> 'v \<Rightarrow> 'v \<times> verdict) \<Rightarrow> 'v \<Rightarrow> json \<Rightarrow> 'v option \<Rightarrow> 'v option \<times> verdict" where
  "read_opt rd zero j old =
     (case j of
        JNull \<Rightarrow> (None, Fits)
      | _ \<Rightarrow> (case rd j (case old of None \<Rightarrow> zero | Some v \<Rightarrow> v) of (v, w) \<Rightarrow> (Some v, w)))"

lemma bool_round_trips: "round_trips d write_bool read_bool z b"
  by (simp add: round_trips_def write_bool_def read_bool_def)

lemma array_round_trips:
  assumes "list_all (round_trips d wr rd zero) xs"
  shows "round_trips (Suc d) (write_array wr) (read_list rd zero) [] xs"
proof -
  have "\<exists>js. write_elems wr xs = Some js \<and> list_all numbers_ok js \<and> foldr max (map json_depth js) 0 \<le> d
      \<and> read_elems rd zero (map clean_json js) [] = (xs, Fits)"
    using assms by (induction xs) (auto simp: round_trips_def)
  then show ?thesis by (auto simp: round_trips_def write_array_def read_list_def)
qed

definition never_null :: "('v \<Rightarrow> json option) \<Rightarrow> bool" where
  "never_null wr \<longleftrightarrow> (\<forall>v. wr v \<noteq> Some JNull)"

lemma never_null_writers [simp]: "never_null (write_struct fs)" "never_null (write_array wr)"
  by (auto simp: never_null_def write_struct_def write_array_def)

lemma opt_round_trips:
  assumes "never_null wr" "\<And>v. x = Some v \<Longrightarrow> round_trips d wr rd zero v"
  shows "round_trips d (write_opt wr) (read_opt rd zero) None x"
proof (cases x)
  case None
  then show ?thesis by (simp add: round_trips_def write_opt_def read_opt_def)
next
  case (Some v)
  with assms(2) obtain j where j: "wr v = Some j" "numbers_ok j" "json_depth j \<le> d" "rd (clean_json j) zero = (v, Fits)"
    by (auto simp: round_trips_def)
  have "clean_json j \<noteq> JNull" using assms(1) j(1) by (cases j) (auto simp: never_null_def)
  with j Some show ?thesis by (cases "clean_json j") (auto simp: round_trips_def write_opt_def read_opt_def)
qed

section \<open>The response structs\<close>

abbreviation str_fld where
  "str_fld k \<equiv> fld k always write_string read_string"

abbreviation str_fld_omit where
  "str_fld_omit k \<equiv> fld k (\<lambda>s. s = []) write_string read_string"

abbreviation int_fld where
  "int_fld k \<equiv> fld k always write_int (read_num atoi)"

abbreviation bool_fld where
  "bool_fld k \<equiv> fld k always write_bool read_bool"

definition guard_fields :: "exec_guard_info field list" where
  "guard_fields =
     [str_fld ''last_cmd'' eg_LastCmd eg_LastCmd_update,
      float_fld ''cooldown_remaining_seconds'' always eg_CooldownRemainingSeconds eg_CooldownRemainingSeconds_update]"

definition exec_fields :: "exec_last_result field list" where
  "exec_fields =
     [str_fld ''command'' er_Command er_Command_update,
      str_fld_omit ''output'' er_Output er_Output_update,
      str_fld_omit ''error'' er_Error er_Error_update,
      bool_fld ''success'' er_Success er_Success_update,
      float_fld ''duration_ms'' always er_DurationMs er_DurationMs_update,
      fld ''timed_out'' Not write_bool read_bool er_TimedOut er_TimedOut_update]"

definition zero_guard :: exec_guard_info where
  "zero_guard = \<lparr>eg_LastCmd = [], eg_CooldownRemainingSeconds = Fin 0\<rparr>"

definition zero_exec :: exec_last_result where
  "zero_exec =
     \<lparr>er_Command = [], er_Output = [], er_Error = [], er_Success = False, er_DurationMs = Fin 0, er_TimedOut = False\<rparr>"

definition status_fields :: "(time \<Rightarrow> int) \<Rightarrow> status_response field list" where
  "status_fields zone =
     [bool_fld ''online'' sr_Online sr_Online_update,
      str_fld ''model'' sr_Model sr_Model_update,
      str_fld ''interval'' sr_Interval sr_Interval_update,
      int_fld ''cycle_num'' sr_CycleNum sr_CycleNum_update,
      str_fld ''uptime'' sr_Uptime sr_Uptime_update,
      bool_fld ''dry_run'' sr_DryRun sr_DryRun_update,
      str_fld ''circuit_state'' sr_CircuitState sr_CircuitState_update,
      fld ''last_cycle'' (\<lambda>x. x = None) (write_opt (write_struct (cycle_fields zone)))
        (read_opt (read_struct (cycle_fields zone)) zero_cycle) sr_LastCycle sr_LastCycle_update,
      fld ''exec_guard'' always (write_struct guard_fields) (read_struct guard_fields) sr_ExecGuard sr_ExecGuard_update,
      fld ''last_exec_result'' (\<lambda>x. x = None) (write_opt (write_struct exec_fields))
        (read_opt (read_struct exec_fields) zero_exec) sr_LastExecResult sr_LastExecResult_update]"

text \<open>\<open>HistoryResponse\<close>, \<open>AgentStatusResponse\<close> and \<open>AlertsResponse\<close> are pairs of a slice and a number.\<close>

definition counted_fields ::
  "string \<Rightarrow> ('v \<Rightarrow> json option) \<Rightarrow> (json \<Rightarrow> 'v \<Rightarrow> 'v \<times> verdict) \<Rightarrow> 'v \<Rightarrow> ('v list \<times> int) field list" where
  "counted_fields k wr rd zero =
     [fld k always (write_array wr) (read_list rd zero) fst (\<lambda>f. map_prod f id),
      int_fld ''total'' snd (\<lambda>f. map_prod id f)]"

text \<open>An agent that never ran has the zero time, which is in UTC on every host.\<close>

definition own_zone :: "(time \<Rightarrow> int) \<Rightarrow> time \<Rightarrow> int" where
  "own_zone zone t = (if t = 0 then 0 else zone t)"

definition agent_fields :: "(time \<Rightarrow> int) \<Rightarrow> agent_status field list" where
  "agent_fields zone =
     [str_fld ''name'' st_Name st_Name_update,
      bool_fld ''enabled'' st_Enabled st_Enabled_update,
      fld ''last_run'' always (write_time (own_zone zone)) read_time st_LastRun st_LastRun_update,
      str_fld_omit ''last_error'' st_LastError st_LastError_update,
      int_fld ''run_count'' st_RunCount st_RunCount_update,
      int_fld ''error_count'' st_ErrorCount st_ErrorCount_update,
      int_fld ''alert_count'' st_AlertCount st_AlertCount_update,
      int_fld ''schedule_ms'' st_Schedule st_Schedule_update]"

definition zero_agent :: agent_status where
  "zero_agent =
     \<lparr>st_Name = [], st_Enabled = False, st_LastRun = 0, st_LastError = [], st_RunCount = 0, st_ErrorCount = 0,
      st_AlertCount = 0, st_Schedule = 0\<rparr>"

definition toggle_fields :: "(string \<times> bool \<times> string) field list" where
  "toggle_fields =
     [str_fld ''name'' fst (\<lambda>f. map_prod f id),
      bool_fld ''enabled'' (\<lambda>(_, b, _). b) (\<lambda>f. map_prod id (map_prod f id)),
      str_fld ''message'' (\<lambda>(_, _, m). m) (\<lambda>f. map_prod id (map_prod id f))]"

text \<open>\<open>ContainerState\<close> has no tags: its keys are the names of the fields.\<close>

definition container_fields :: "(time \<Rightarrow> int) \<Rightarrow> container field list" where
  "container_fields zone =
     [str_fld ''ID'' ct_ID ct_ID_update,
      str_fld ''Name'' ct_Name ct_Name_update,
      str_fld ''Image'' ct_Image ct_Image_update,
      str_fld ''Status'' ct_Status ct_Status_update,
      bool_fld ''Running'' ct_Running ct_Running_update,
      bool_fld ''Exited'' ct_Exited ct_Exited_update,
      bool_fld ''Unhealthy'' ct_Unhealthy ct_Unhealthy_update,
      int_fld ''RestartCount'' ct_RestartCount ct_RestartCount_update,
      fld ''CreatedAt'' always (write_time zone) read_time ct_CreatedAt ct_CreatedAt_update]"

definition zero_container :: container where
  "zero_container =
     \<lparr>ct_ID = [], ct_Name = [], ct_Image = [], ct_Status = [], ct_Running = False, ct_Exited = False,
      ct_Unhealthy = False, ct_RestartCount = 0, ct_CreatedAt = 0\<rparr>"

definition docker_fields :: "(time \<Rightarrow> int) \<Rightarrow> docker_response field list" where
  "docker_fields zone =
     [bool_fld ''available'' kr_Available kr_Available_update,
      fld ''containers'' always (write_opt (write_array (write_struct (container_fields zone))))
        (read_opt (read_list (read_struct (container_fields zone)) zero_container) []) kr_Containers kr_Containers_update,
      int_fld ''total'' kr_Total kr_Total_update,
      int_fld ''running'' kr_Running kr_Running_update,
      int_fld ''exited'' kr_Exited kr_Exited_update]"

definition log_fields :: "log_status field list" where
  "log_fields =
     [str_fld ''filepath'' ls_Filepath ls_Filepath_update,
      int_fld ''size_bytes'' ls_SizeBytes ls_SizeBytes_update,
      float_fld ''size_mb'' always ls_SizeMB ls_SizeMB_update,
      int_fld ''max_bytes'' ls_MaxBytes ls_MaxBytes_update,
      float_fld ''max_mb'' always ls_MaxMB ls_MaxMB_update,
      float_fld ''used_percent'' always ls_UsedPercent ls_UsedPercent_update,
      fld ''backups'' always (write_list write_string) (read_list read_string []) ls_Backups ls_Backups_update,
      int_fld ''backup_count'' ls_BackupCount ls_BackupCount_update]"

definition logs_fields :: "(log_status \<times> log_status) field list" where
  "logs_fields =
     [fld ''main_log'' always (write_struct log_fields) (read_struct log_fields) fst (\<lambda>f. map_prod f id),
      fld ''alert_log'' always (write_struct log_fields) (read_struct log_fields) snd (\<lambda>f. map_prod id f)]"

definition file_fields :: "file_response field list" where
  "file_fields =
     [bool_fld ''enabled'' fr_Enabled fr_Enabled_update,
      fld ''watch_paths'' always (write_array write_string) (read_list read_string []) fr_WatchPaths fr_WatchPaths_update,
      int_fld ''max_size_mb'' fr_MaxSizeMB fr_MaxSizeMB_update,
      str_fld_omit ''last_run'' fr_LastRun fr_LastRun_update,
      int_fld ''run_count'' fr_RunCount fr_RunCount_update,
      int_fld ''alert_count'' fr_AlertCount fr_AlertCount_update,
      str_fld_omit ''last_error'' fr_LastError fr_LastError_update]"

definition daily_fields :: "daily_response field list" where
  "daily_fields =
     [bool_fld ''enabled'' yr_Enabled yr_Enabled_update,
      str_fld ''scheduled_at'' yr_ScheduledAt yr_ScheduledAt_update,
      str_fld_omit ''last_sent'' yr_LastSent yr_LastSent_update,
      str_fld_omit ''next_send'' yr_NextSend yr_NextSend_update]"

definition send_fields :: "(bool \<times> string) field list" where
  "send_fields =
     [bool_fld ''sent'' fst (\<lambda>f. map_prod f id), str_fld ''message'' snd (\<lambda>f. map_prod id f)]"

definition context_fields :: "context_response field list" where
  "context_fields =
     [int_fld ''cycle_count'' lr_CycleCount lr_CycleCount_update,
      str_fld ''dominant_action'' lr_DominantAction lr_DominantAction_update,
      float_fld ''alert_rate'' always lr_AlertRate lr_AlertRate_update,
      str_fld ''cpu_trend'' lr_CPUTrend lr_CPUTrend_update,
      str_fld ''ram_trend'' lr_RAMTrend lr_RAMTrend_update,
      str_fld ''disk_trend'' lr_DiskTrend lr_DiskTrend_update,
      str_fld_omit ''cpu_forecast'' lr_CPUForecast lr_CPUForecast_update,
      str_fld_omit ''ram_forecast'' lr_RAMForecast lr_RAMForecast_update,
      str_fld_omit ''disk_forecast'' lr_DiskForecast lr_DiskForecast_update,
      fld ''recent_alerts'' always (write_list write_string) (read_list read_string []) lr_RecentAlerts lr_RecentAlerts_update]"

definition bucket_fields :: "snapshot_bucket field list" where
  "bucket_fields =
     [str_fld ''timestamp'' bk_Timestamp bk_Timestamp_update,
      float_fld ''cpu_avg'' always bk_CPUAvg bk_CPUAvg_update,
      float_fld ''cpu_max'' always bk_CPUMax bk_CPUMax_update,
      float_fld ''mem_avg'' always bk_MEMAvg bk_MEMAvg_update,
      float_fld ''mem_max'' always bk_MEMMax bk_MEMMax_update,
      float_fld ''disk_avg'' always bk_DiskAvg bk_DiskAvg_update,
      float_fld ''disk_max'' always bk_DiskMax bk_DiskMax_update,
      int_fld ''count'' bk_Count bk_Count_update]"

definition zero_bucket :: snapshot_bucket where
  "zero_bucket =
     \<lparr>bk_Timestamp = [], bk_CPUAvg = Fin 0, bk_CPUMax = Fin 0, bk_MEMAvg = Fin 0, bk_MEMMax = Fin 0,
      bk_DiskAvg = Fin 0, bk_DiskMax = Fin 0, bk_Count = 0\<rparr>"

definition history_full_fields :: "history_full_response field list" where
  "history_full_fields =
     [str_fld ''range'' hr_Range hr_Range_update,
      fld ''from'' always (write_time utc) read_time hr_From hr_From_update,
      fld ''to'' always (write_time utc) read_time hr_To hr_To_update,
      int_fld ''bucket_hours'' hr_BucketHours hr_BucketHours_update,
      fld ''buckets'' always (write_array (write_struct bucket_fields)) (read_list (read_struct bucket_fields) zero_bucket)
        hr_Buckets hr_Buckets_update,
      int_fld ''total_snapshots'' hr_TotalSnapshots hr_TotalSnapshots_update,
      bool_fld ''available'' hr_Available hr_Available_update]"

section \<open>Sending an answer\<close>

definition body_json :: "(time \<Rightarrow> int) \<Rightarrow> web_body \<Rightarrow> json option" where
  "body_json zone b =
     (case b of
        NoBody \<Rightarrow> None
      | PlainText t \<Rightarrow> None
      | StatusBody r \<Rightarrow> write_struct (status_fields zone) r
      | HistoryBody cs n \<Rightarrow>
          write_struct (counted_fields ''cycles'' (write_struct (cycle_fields zone)) (read_struct (cycle_fields zone)) zero_cycle) (cs, n)
      | AgentsBody sts n \<Rightarrow>
          write_struct (counted_fields ''agents'' (write_struct (agent_fields zone)) (read_struct (agent_fields zone)) zero_agent) (sts, n)
      | ToggleBody name on msg \<Rightarrow> write_struct toggle_fields (name, on, msg)
      | DockerBody r \<Rightarrow> write_struct (docker_fields zone) r
      | LogsBody m a \<Rightarrow> write_struct logs_fields (m, a)
      | FileBody r \<Rightarrow> write_struct file_fields r
      | DailyBody r \<Rightarrow> write_struct daily_fields r
      | SendBody sent msg \<Rightarrow> write_struct send_fields (sent, msg)
      | AlertsBody als n \<Rightarrow>
          write_struct (counted_fields ''alerts'' (write_struct (alert_fields zone)) (read_struct (alert_fields zone)) zero_alert) (als, n)
      | ContextBody r \<Rightarrow> write_struct context_fields r
      | HistoryFullBody r \<Rightarrow> write_struct history_full_fields r)"

text \<open>\<open>Encoder.Encode\<close> writes the whole line or nothing; \<open>Header.Set\<close> replaces a header.\<close>

definition answer_text :: "(time \<Rightarrow> int) \<Rightarrow> web_body \<Rightarrow> string option" where
  "answer_text zone b = map_option json_line (body_json zone b)"

definition set_header :: "string \<Rightarrow> string \<Rightarrow> (string \<times> string) list \<Rightarrow> (string \<times> string) list" where
  "set_header k v hs = filter (\<lambda>h. fst h \<noteq> k) hs @ [(k, v)]"

text \<open>\<open>err\<close> is the text of the encoder's error, which the code passes on.\<close>

definition send_reply :: "(time \<Rightarrow> int) \<Rightarrow> string \<Rightarrow> web_reply \<Rightarrow> web_reply" where
  "send_reply zone err rp =
     (case rp_body rp of
        NoBody \<Rightarrow> rp
      | PlainText t \<Rightarrow> rp
      | b \<Rightarrow> (case answer_text zone b of
                Some t \<Rightarrow> rp\<lparr>rp_body := PlainText t\<rparr>
              | None \<Rightarrow> rp\<lparr>rp_status := 500,
                  rp_headers := set_header ''Content-Type'' ''text/plain; charset=utf-8'' (rp_headers rp),
                  rp_body := PlainText (err @ nl)\<rparr>))"

section \<open>Reading an answer\<close>

definition read_doc :: "'r field list \<Rightarrow> 'r \<Rightarrow> string \<Rightarrow> 'r option" where
  "read_doc fs zero text =
     (case parse_json text of
        None \<Rightarrow> None
      | Some v \<Rightarrow> (case read_struct fs v zero of (r, w) \<Rightarrow> if w = Fits then Some r else None))"

lemma read_doc_line:
  assumes "round_trips d (write_struct fs) (read_struct fs) zero r" "d \<le> max_nesting"
  shows "\<exists>j. write_struct fs r = Some j \<and> read_doc fs zero (json_line j) = Some r"
proof -
  obtain j where j: "write_struct fs r = Some j" "numbers_ok j" "json_depth j \<le> d"
    "read_struct fs (clean_json j) zero = (r, Fits)"
    using assms(1) by (auto simp: round_trips_def)
  have "json_depth j \<le> max_nesting" using j(3) assms(2) by simp
  from compact.parse_json_print(2) [OF j(2) this, of 0] j show ?thesis
    by (simp add: read_doc_def json_line_def json_text_def)
qed

definition zero_status :: status_response where
  "zero_status =
     \<lparr>sr_Online = False, sr_Model = [], sr_Interval = [], sr_CycleNum = 0, sr_Uptime = [], sr_DryRun = False,
      sr_CircuitState = [], sr_LastCycle = None, sr_ExecGuard = zero_guard, sr_LastExecResult = None\<rparr>"

definition zero_docker :: docker_response where
  "zero_docker = \<lparr>kr_Available = False, kr_Containers = None, kr_Total = 0, kr_Running = 0, kr_Exited = 0\<rparr>"

definition zero_file :: file_response where
  "zero_file =
     \<lparr>fr_Enabled = False, fr_WatchPaths = [], fr_MaxSizeMB = 0, fr_LastRun = [], fr_RunCount = 0,
      fr_AlertCount = 0, fr_LastError = []\<rparr>"

definition zero_daily :: daily_response where
  "zero_daily = \<lparr>yr_Enabled = False, yr_ScheduledAt = [], yr_LastSent = [], yr_NextSend = []\<rparr>"

definition zero_context :: context_response where
  "zero_context =
     \<lparr>lr_CycleCount = 0, lr_DominantAction = [], lr_AlertRate = Fin 0, lr_CPUTrend = [], lr_RAMTrend = [],
      lr_DiskTrend = [], lr_CPUForecast = [], lr_RAMForecast = [], lr_DiskForecast = [], lr_RecentAlerts = []\<rparr>"

definition zero_history_full :: history_full_response where
  "zero_history_full =
     \<lparr>hr_Range = [], hr_From = 0, hr_To = 0, hr_BucketHours = 0, hr_Buckets = [], hr_TotalSnapshots = 0,
      hr_Available = False\<rparr>"

abbreviation counted where
  "counted k fs zero \<equiv> counted_fields k (write_struct fs) (read_struct fs) zero"

text \<open>A reader knows which answer it asked for: the first argument gives the kind.\<close>

definition read_answer :: "web_body \<Rightarrow> string \<Rightarrow> web_body option" where
  "read_answer kind t =
     (case kind of
        NoBody \<Rightarrow> None
      | PlainText _ \<Rightarrow> Some (PlainText t)
      | StatusBody _ \<Rightarrow> map_option StatusBody (read_doc (status_fields utc) zero_status t)
      | HistoryBody _ _ \<Rightarrow>
          map_option (case_prod HistoryBody) (read_doc (counted ''cycles'' (cycle_fields utc) zero_cycle) ([], 0) t)
      | AgentsBody _ _ \<Rightarrow>
          map_option (case_prod AgentsBody) (read_doc (counted ''agents'' (agent_fields utc) zero_agent) ([], 0) t)
      | ToggleBody _ _ _ \<Rightarrow>
          map_option (\<lambda>(name, on, msg). ToggleBody name on msg) (read_doc toggle_fields ([], False, []) t)
      | DockerBody _ \<Rightarrow> map_option DockerBody (read_doc (docker_fields utc) zero_docker t)
      | LogsBody _ _ \<Rightarrow> map_option (case_prod LogsBody) (read_doc logs_fields (zero_log_status, zero_log_status) t)
      | FileBody _ \<Rightarrow> map_option FileBody (read_doc file_fields zero_file t)
      | DailyBody _ \<Rightarrow> map_option DailyBody (read_doc daily_fields zero_daily t)
      | SendBody _ _ \<Rightarrow> map_option (case_prod SendBody) (read_doc send_fields (False, []) t)
      | AlertsBody _ _ \<Rightarrow>
          map_option (case_prod AlertsBody) (read_doc (counted ''alerts'' (alert_fields utc) zero_alert) ([], 0) t)
      | ContextBody _ \<Rightarrow> map_option ContextBody (read_doc context_fields zero_context t)
      | HistoryFullBody _ \<Rightarrow> map_option HistoryFullBody (read_doc history_full_fields zero_history_full t))"

section \<open>Answers JSON can hold\<close>

definition exec_ok :: "exec_last_result \<Rightarrow> bool" where
  "exec_ok r \<longleftrightarrow> list_all valid_utf8 [er_Command r, er_Output r, er_Error r] \<and> float_ok (er_DurationMs r)"

definition agent_ok :: "(time \<Rightarrow> int) \<Rightarrow> agent_status \<Rightarrow> bool" where
  "agent_ok zone r \<longleftrightarrow> list_all valid_utf8 [st_Name r, st_LastError r] \<and> time_ok (own_zone zone) (st_LastRun r)
     \<and> list_all int_ok [st_RunCount r, st_ErrorCount r, st_AlertCount r, st_Schedule r]"

definition container_ok :: "(time \<Rightarrow> int) \<Rightarrow> container \<Rightarrow> bool" where
  "container_ok zone c \<longleftrightarrow> list_all valid_utf8 [ct_ID c, ct_Name c, ct_Image c, ct_Status c]
     \<and> int_ok (ct_RestartCount c) \<and> time_ok zone (ct_CreatedAt c)"

definition log_ok :: "log_status \<Rightarrow> bool" where
  "log_ok l \<longleftrightarrow> list_all valid_utf8 (ls_Filepath l # ls_Backups l)
     \<and> list_all int_ok [ls_SizeBytes l, ls_MaxBytes l, ls_BackupCount l]
     \<and> list_all float_ok [ls_SizeMB l, ls_MaxMB l, ls_UsedPercent l]"

definition bucket_text_ok :: "snapshot_bucket \<Rightarrow> bool" where
  "bucket_text_ok b \<longleftrightarrow> valid_utf8 (bk_Timestamp b) \<and> int_ok (bk_Count b)
     \<and> list_all float_ok [bk_CPUAvg b, bk_CPUMax b, bk_MEMAvg b, bk_MEMMax b, bk_DiskAvg b, bk_DiskMax b]"

definition status_ok :: "(time \<Rightarrow> int) \<Rightarrow> status_response \<Rightarrow> bool" where
  "status_ok zone r \<longleftrightarrow>
     list_all valid_utf8 [sr_Model r, sr_Interval r, sr_Uptime r, sr_CircuitState r, eg_LastCmd (sr_ExecGuard r)]
     \<and> int_ok (sr_CycleNum r) \<and> float_ok (eg_CooldownRemainingSeconds (sr_ExecGuard r))
     \<and> pred_option (cycle_text_ok zone) (sr_LastCycle r) \<and> pred_option exec_ok (sr_LastExecResult r)"

definition answer_ok :: "(time \<Rightarrow> int) \<Rightarrow> web_body \<Rightarrow> bool" where
  "answer_ok zone b =
     (case b of
        NoBody \<Rightarrow> False
      | PlainText _ \<Rightarrow> False
      | StatusBody r \<Rightarrow> status_ok zone r
      | HistoryBody cs n \<Rightarrow> list_all (cycle_text_ok zone) cs \<and> int_ok n
      | AgentsBody sts n \<Rightarrow> list_all (agent_ok zone) sts \<and> int_ok n
      | ToggleBody name _ msg \<Rightarrow> valid_utf8 name \<and> valid_utf8 msg
      | DockerBody r \<Rightarrow> pred_option (list_all (container_ok zone)) (kr_Containers r)
          \<and> list_all int_ok [kr_Total r, kr_Running r, kr_Exited r]
      | LogsBody m a \<Rightarrow> log_ok m \<and> log_ok a
      | FileBody r \<Rightarrow> list_all valid_utf8 (fr_LastRun r # fr_LastError r # fr_WatchPaths r)
          \<and> list_all int_ok [fr_MaxSizeMB r, fr_RunCount r, fr_AlertCount r]
      | DailyBody r \<Rightarrow> list_all valid_utf8 [yr_ScheduledAt r, yr_LastSent r, yr_NextSend r]
      | SendBody _ msg \<Rightarrow> valid_utf8 msg
      | AlertsBody als n \<Rightarrow> list_all (alert_ok zone) als \<and> int_ok n
      | ContextBody r \<Rightarrow> int_ok (lr_CycleCount r) \<and> float_ok (lr_AlertRate r)
          \<and> list_all valid_utf8 ([lr_DominantAction r, lr_CPUTrend r, lr_RAMTrend r, lr_DiskTrend r, lr_CPUForecast r,
               lr_RAMForecast r, lr_DiskForecast r] @ lr_RecentAlerts r)
      | HistoryFullBody r \<Rightarrow> valid_utf8 (hr_Range r) \<and> time_ok utc (hr_From r) \<and> time_ok utc (hr_To r)
          \<and> int_ok (hr_BucketHours r) \<and> int_ok (hr_TotalSnapshots r) \<and> list_all bucket_text_ok (hr_Buckets r))"

section \<open>Round trips\<close>

text \<open>Whatever a round trip fits in, it fits in more.\<close>

lemma round_trips_mono: "round_trips d wr rd z v \<Longrightarrow> d \<le> e \<Longrightarrow> round_trips e wr rd z v"
  by (auto simp: round_trips_def)

lemmas answer_values = value_round_trips bool_round_trips f_zero_eq

lemma guard_round_trips:
  assumes "valid_utf8 (eg_LastCmd g)" "float_ok (eg_CooldownRemainingSeconds g)"
  shows "round_trips 1 (write_struct guard_fields) (read_struct guard_fields) zero_guard g"
proof -
  have "table_ok guard_fields" by code_simp
  moreover have "steps 0 guard_fields g zero_guard g"
    unfolding guard_fields_def zero_guard_def
    by (intro steps_fld steps_Nil) (use assms in \<open>simp_all add: answer_values\<close>)
  ultimately show ?thesis using struct_round_trips by fastforce
qed

lemma exec_round_trips:
  assumes "exec_ok r"
  shows "round_trips 1 (write_struct exec_fields) (read_struct exec_fields) zero_exec r"
proof -
  have "table_ok exec_fields" by code_simp
  moreover have "steps 0 exec_fields r zero_exec r"
    unfolding exec_fields_def zero_exec_def
    by (intro steps_fld steps_Nil) (use assms in \<open>simp_all add: answer_values exec_ok_def\<close>)
  ultimately show ?thesis using struct_round_trips by fastforce
qed

lemma agent_round_trips:
  assumes "agent_ok zone r"
  shows "round_trips 1 (write_struct (agent_fields zone)) (read_struct (agent_fields zone)) zero_agent r"
proof -
  have "table_ok (agent_fields zone)" unfolding agent_fields_def table_ok_def fld_def by code_simp
  moreover have "steps 0 (agent_fields zone) r zero_agent r"
    unfolding agent_fields_def zero_agent_def
    by (intro steps_fld steps_Nil) (use assms in \<open>simp_all add: answer_values agent_ok_def\<close>)
  ultimately show ?thesis using struct_round_trips by fastforce
qed

lemma container_round_trips:
  assumes "container_ok zone c"
  shows "round_trips 1 (write_struct (container_fields zone)) (read_struct (container_fields zone)) zero_container c"
proof -
  have "table_ok (container_fields zone)" unfolding container_fields_def table_ok_def fld_def by code_simp
  moreover have "steps 0 (container_fields zone) c zero_container c"
    unfolding container_fields_def zero_container_def
    by (intro steps_fld steps_Nil) (use assms in \<open>simp_all add: answer_values container_ok_def\<close>)
  ultimately show ?thesis using struct_round_trips by fastforce
qed

lemma bucket_round_trips:
  assumes "bucket_text_ok b"
  shows "round_trips 1 (write_struct bucket_fields) (read_struct bucket_fields) zero_bucket b"
proof -
  have "table_ok bucket_fields" by code_simp
  moreover have "steps 0 bucket_fields b zero_bucket b"
    unfolding bucket_fields_def zero_bucket_def
    by (intro steps_fld steps_Nil) (use assms in \<open>simp_all add: answer_values bucket_text_ok_def\<close>)
  ultimately show ?thesis using struct_round_trips by fastforce
qed

lemma string_list_round_trips:
  "list_all valid_utf8 xs \<Longrightarrow> round_trips (Suc 0) (write_list write_string) (read_list read_string []) [] xs"
  "list_all valid_utf8 xs \<Longrightarrow> round_trips (Suc 0) (write_array write_string) (read_list read_string []) [] xs"
  using list_round_trips [of 0 write_string read_string "[]" xs] array_round_trips [of 0 write_string read_string "[]" xs]
  by (auto simp: list_all_iff string_round_trips)

lemma log_round_trips:
  assumes "log_ok l"
  shows "round_trips 2 (write_struct log_fields) (read_struct log_fields) zero_log_status l"
proof -
  have "table_ok log_fields" by code_simp
  moreover have "steps 1 log_fields l zero_log_status l"
    unfolding log_fields_def zero_log_status_def
    by (intro steps_fld steps_Nil) (use assms in \<open>simp_all add: answer_values log_ok_def string_list_round_trips\<close>)
  ultimately show ?thesis using struct_round_trips [of log_fields 1] by (simp add: numeral_2_eq_2)
qed

lemma counted_round_trips:
  assumes "list_all (round_trips d (write_struct fs) (read_struct fs) zero) xs" "int_ok n" "valid_utf8 k" "k \<noteq> ''total''"
  shows "round_trips (Suc (Suc d)) (write_struct (counted k fs zero)) (read_struct (counted k fs zero)) ([], 0) (xs, n)"
proof -
  have "table_ok (counted k fs zero)"
    using assms(3,4) by (simp add: table_ok_def counted_fields_def fld_def)
  moreover have "steps (Suc d) (counted k fs zero) (xs, n) ([], 0) (xs, n)"
    unfolding counted_fields_def
    by (intro steps_fld steps_Nil) (use assms array_round_trips in \<open>simp_all add: answer_values\<close>)
  ultimately show ?thesis by (rule struct_round_trips)
qed

lemma status_round_trips:
  assumes "status_ok zone r"
  shows "round_trips 5 (write_struct (status_fields zone)) (read_struct (status_fields zone)) zero_status r"
proof -
  have "round_trips 4 (write_struct guard_fields) (read_struct guard_fields) zero_guard (sr_ExecGuard r)"
    using assms by (intro round_trips_mono [OF guard_round_trips]) (simp_all add: status_ok_def)
  moreover have "round_trips 4 (write_opt (write_struct (cycle_fields zone))) (read_opt (read_struct (cycle_fields zone)) zero_cycle)
      None (sr_LastCycle r)"
    using assms cycle_round_trips by (intro opt_round_trips) (auto simp: status_ok_def)
  moreover have "round_trips 4 (write_opt (write_struct exec_fields)) (read_opt (read_struct exec_fields) zero_exec)
      None (sr_LastExecResult r)"
    using assms by (intro opt_round_trips round_trips_mono [OF exec_round_trips]) (auto simp: status_ok_def)
  moreover have "table_ok (status_fields zone)" unfolding status_fields_def table_ok_def fld_def by code_simp
  ultimately have "table_ok (status_fields zone) \<and> steps 4 (status_fields zone) r zero_status r"
    unfolding status_fields_def zero_status_def
    by (intro conjI steps_fld steps_Nil) (use assms in \<open>simp_all add: answer_values status_ok_def\<close>)
  then show ?thesis using struct_round_trips [of "status_fields zone" 4] by simp
qed

lemma docker_round_trips:
  assumes "answer_ok zone (DockerBody r)"
  shows "round_trips 3 (write_struct (docker_fields zone)) (read_struct (docker_fields zone)) zero_docker r"
proof -
  have "round_trips 2 (write_opt (write_array (write_struct (container_fields zone))))
      (read_opt (read_list (read_struct (container_fields zone)) zero_container) []) None (kr_Containers r)"
  proof (rule opt_round_trips)
    fix cs assume "kr_Containers r = Some cs"
    with assms have "list_all (container_ok zone) cs" by (simp add: answer_ok_def)
    then show "round_trips 2 (write_array (write_struct (container_fields zone)))
        (read_list (read_struct (container_fields zone)) zero_container) [] cs"
      unfolding numeral_2_eq_2
      by (intro array_round_trips) (use container_round_trips in \<open>auto simp: list_all_iff\<close>)
  qed simp
  moreover have "table_ok (docker_fields zone)" unfolding docker_fields_def table_ok_def fld_def by code_simp
  ultimately have "table_ok (docker_fields zone) \<and> steps 2 (docker_fields zone) r zero_docker r"
    unfolding docker_fields_def zero_docker_def
    by (intro conjI steps_fld steps_Nil) (use assms in \<open>simp_all add: answer_values answer_ok_def\<close>)
  then show ?thesis using struct_round_trips [of "docker_fields zone" 2] by simp
qed

lemma history_full_round_trips:
  assumes "answer_ok zone (HistoryFullBody r)"
  shows "round_trips 3 (write_struct history_full_fields) (read_struct history_full_fields) zero_history_full r"
proof -
  have "list_all (round_trips 1 (write_struct bucket_fields) (read_struct bucket_fields) zero_bucket) (hr_Buckets r)"
    using assms bucket_round_trips by (auto simp: answer_ok_def list_all_iff)
  from array_round_trips [OF this]
  have "round_trips 2 (write_array (write_struct bucket_fields)) (read_list (read_struct bucket_fields) zero_bucket) [] (hr_Buckets r)"
    by (simp add: numeral_2_eq_2)
  moreover have "table_ok history_full_fields" by code_simp
  ultimately have "table_ok history_full_fields \<and> steps 2 history_full_fields r zero_history_full r"
    unfolding history_full_fields_def zero_history_full_def
    by (intro conjI steps_fld steps_Nil) (use assms in \<open>simp_all add: answer_values answer_ok_def\<close>)
  then show ?thesis using struct_round_trips [of history_full_fields 2] by simp
qed

lemma flat_round_trips:
  "answer_ok zone (ToggleBody name on msg) \<Longrightarrow>
     round_trips 1 (write_struct toggle_fields) (read_struct toggle_fields) ([], False, []) (name, on, msg)"
  "answer_ok zone (SendBody on msg) \<Longrightarrow>
     round_trips 1 (write_struct send_fields) (read_struct send_fields) (False, []) (on, msg)"
  "answer_ok zone (DailyBody y) \<Longrightarrow>
     round_trips 1 (write_struct daily_fields) (read_struct daily_fields) zero_daily y"
proof -
  have t: "table_ok toggle_fields" "table_ok send_fields" "table_ok daily_fields" by code_simp+
  show "round_trips 1 (write_struct toggle_fields) (read_struct toggle_fields) ([], False, []) (name, on, msg)"
    if "answer_ok zone (ToggleBody name on msg)"
  proof -
    have "steps 0 toggle_fields (name, on, msg) ([], False, []) (name, on, msg)"
      unfolding toggle_fields_def
      by (intro steps_fld steps_Nil) (use that in \<open>simp_all add: answer_values answer_ok_def\<close>)
    with t(1) show ?thesis using struct_round_trips by fastforce
  qed
  show "round_trips 1 (write_struct send_fields) (read_struct send_fields) (False, []) (on, msg)"
    if "answer_ok zone (SendBody on msg)"
  proof -
    have "steps 0 send_fields (on, msg) (False, []) (on, msg)"
      unfolding send_fields_def
      by (intro steps_fld steps_Nil) (use that in \<open>simp_all add: answer_values answer_ok_def\<close>)
    with t(2) show ?thesis using struct_round_trips by fastforce
  qed
  show "round_trips 1 (write_struct daily_fields) (read_struct daily_fields) zero_daily y"
    if "answer_ok zone (DailyBody y)"
  proof -
    have "steps 0 daily_fields y zero_daily y"
      unfolding daily_fields_def zero_daily_def
      by (intro steps_fld steps_Nil) (use that in \<open>simp_all add: answer_values answer_ok_def\<close>)
    with t(3) show ?thesis using struct_round_trips by fastforce
  qed
qed

lemma list_fields_round_trips:
  "answer_ok zone (LogsBody m a) \<Longrightarrow>
     round_trips 3 (write_struct logs_fields) (read_struct logs_fields) (zero_log_status, zero_log_status) (m, a)"
  "answer_ok zone (FileBody f) \<Longrightarrow> round_trips 2 (write_struct file_fields) (read_struct file_fields) zero_file f"
  "answer_ok zone (ContextBody c) \<Longrightarrow> round_trips 2 (write_struct context_fields) (read_struct context_fields) zero_context c"
proof -
  have t: "table_ok logs_fields" "table_ok file_fields" "table_ok context_fields" by code_simp+
  show "round_trips 3 (write_struct logs_fields) (read_struct logs_fields) (zero_log_status, zero_log_status) (m, a)"
    if "answer_ok zone (LogsBody m a)"
  proof -
    have "steps 2 logs_fields (m, a) (zero_log_status, zero_log_status) (m, a)"
      unfolding logs_fields_def
      by (intro steps_fld steps_Nil) (use that in \<open>simp_all add: log_round_trips answer_ok_def\<close>)
    with t(1) show ?thesis using struct_round_trips [of logs_fields 2] by simp
  qed
  show "round_trips 2 (write_struct file_fields) (read_struct file_fields) zero_file f" if "answer_ok zone (FileBody f)"
  proof -
    have "steps 1 file_fields f zero_file f"
      unfolding file_fields_def zero_file_def
      by (intro steps_fld steps_Nil) (use that in \<open>simp_all add: answer_values answer_ok_def string_list_round_trips\<close>)
    with t(2) show ?thesis using struct_round_trips [of file_fields 1] by (simp add: numeral_2_eq_2)
  qed
  show "round_trips 2 (write_struct context_fields) (read_struct context_fields) zero_context c"
    if "answer_ok zone (ContextBody c)"
  proof -
    have "steps 1 context_fields c zero_context c"
      unfolding context_fields_def zero_context_def
      by (intro steps_fld steps_Nil) (use that in \<open>simp_all add: answer_values answer_ok_def string_list_round_trips\<close>)
    with t(3) show ?thesis using struct_round_trips [of context_fields 1] by (simp add: numeral_2_eq_2)
  qed
qed

section \<open>What a client reads\<close>

lemma read_doc_cong: "read_struct fs = read_struct gs \<Longrightarrow> read_doc fs zero t = read_doc gs zero t"
  by (auto simp: read_doc_def split: option.split)

lemma read_agent_zone: "read_struct (agent_fields zone) = read_struct (agent_fields utc)"
  by (rule read_struct_cong) (simp add: agent_fields_def fld_def)

lemma read_container_zone: "read_struct (container_fields zone) = read_struct (container_fields utc)"
  by (rule read_struct_cong) (simp add: container_fields_def fld_def)

lemma read_status_zone: "read_struct (status_fields zone) = read_struct (status_fields utc)"
  by (rule read_struct_cong) (simp add: status_fields_def fld_def read_cycle_zone [of zone])

lemma read_docker_zone: "read_struct (docker_fields zone) = read_struct (docker_fields utc)"
  by (rule read_struct_cong) (simp add: docker_fields_def fld_def read_container_zone [of zone])

lemma read_counted_zone: "read_struct fs = read_struct gs \<Longrightarrow> read_struct (counted k fs zero) = read_struct (counted k gs zero)"
  by (rule read_struct_cong) (simp add: counted_fields_def fld_def)

lemmas read_zones =
  read_doc_cong [OF read_status_zone] read_doc_cong [OF read_docker_zone]
  read_doc_cong [OF read_counted_zone [OF read_cycle_zone]] read_doc_cong [OF read_counted_zone [OF read_agent_zone]]
  read_doc_cong [OF read_counted_zone [OF read_alert_zone]]

text \<open>The nesting of the answers is far below the reader's limit.\<close>

lemma read_back:
  assumes "round_trips d (write_struct fs) (read_struct fs) zero r" "d \<le> 10"
  shows "\<exists>j. write_struct fs r = Some j \<and> read_doc fs zero (json_line j) = Some r"
  using read_doc_line [OF assms(1)] assms(2) by (simp add: max_nesting_def)

lemma body_reads_back:
  assumes "answer_ok zone b"
  shows "\<exists>t. answer_text zone b = Some t \<and> read_answer b t = Some b"
proof (cases b)
  case (StatusBody r)
  with assms have "status_ok zone r" by (simp add: answer_ok_def)
  from read_back [OF status_round_trips [OF this]] StatusBody show ?thesis
    by (auto simp: answer_text_def body_json_def read_answer_def read_zones [where zone = zone])
next
  case (HistoryBody cs n)
  with assms have "list_all (round_trips 4 (write_struct (cycle_fields zone)) (read_struct (cycle_fields zone)) zero_cycle) cs" "int_ok n"
    using cycle_round_trips by (auto simp: answer_ok_def list_all_iff)
  from read_back [OF counted_round_trips [OF this, of "''cycles''"]] HistoryBody show ?thesis
    by (auto simp: answer_text_def body_json_def read_answer_def read_zones [where zone = zone])
next
  case (AgentsBody sts n)
  with assms have "list_all (round_trips 1 (write_struct (agent_fields zone)) (read_struct (agent_fields zone)) zero_agent) sts" "int_ok n"
    using agent_round_trips by (auto simp: answer_ok_def list_all_iff)
  from read_back [OF counted_round_trips [OF this, of "''agents''"]] AgentsBody show ?thesis
    by (auto simp: answer_text_def body_json_def read_answer_def read_zones [where zone = zone])
next
  case (AlertsBody als n)
  with assms have "list_all (round_trips 1 (write_struct (alert_fields zone)) (read_struct (alert_fields zone)) zero_alert) als" "int_ok n"
    using alert_round_trips by (auto simp: answer_ok_def list_all_iff)
  from read_back [OF counted_round_trips [OF this, of "''alerts''"]] AlertsBody show ?thesis
    by (auto simp: answer_text_def body_json_def read_answer_def read_zones [where zone = zone])
next
  case (DockerBody r)
  with read_back [OF docker_round_trips, of zone r] assms show ?thesis
    by (auto simp: answer_text_def body_json_def read_answer_def read_zones [where zone = zone])
next
  case (HistoryFullBody r)
  with read_back [OF history_full_round_trips, of zone r] assms show ?thesis
    by (auto simp: answer_text_def body_json_def read_answer_def)
next
  case (ToggleBody name on msg)
  with read_back [OF flat_round_trips(1), of zone name on msg] assms show ?thesis
    by (auto simp: answer_text_def body_json_def read_answer_def)
next
  case (SendBody on msg)
  with read_back [OF flat_round_trips(2), of zone on msg] assms show ?thesis
    by (auto simp: answer_text_def body_json_def read_answer_def)
next
  case (DailyBody r)
  with read_back [OF flat_round_trips(3), of zone r] assms show ?thesis
    by (auto simp: answer_text_def body_json_def read_answer_def)
next
  case (LogsBody m a)
  with read_back [OF list_fields_round_trips(1), of zone m a] assms show ?thesis
    by (auto simp: answer_text_def body_json_def read_answer_def)
next
  case (FileBody r)
  with read_back [OF list_fields_round_trips(2), of zone r] assms show ?thesis
    by (auto simp: answer_text_def body_json_def read_answer_def)
next
  case (ContextBody r)
  with read_back [OF list_fields_round_trips(3), of zone r] assms show ?thesis
    by (auto simp: answer_text_def body_json_def read_answer_def)
qed (use assms in \<open>simp_all add: answer_ok_def\<close>)

lemma send_answer:
  assumes "answer_text zone (rp_body rp) = Some t"
  shows "send_reply zone err rp = rp\<lparr>rp_body := PlainText t\<rparr>"
proof -
  have "rp_body rp \<noteq> NoBody" "\<forall>t. rp_body rp \<noteq> PlainText t"
    using assms by (auto simp: answer_text_def body_json_def)
  with assms show ?thesis by (cases "rp_body rp") (simp_all add: send_reply_def)
qed

lemma send_refused:
  "answer_text zone b = None \<Longrightarrow> b \<noteq> NoBody \<Longrightarrow> \<forall>t. b \<noteq> PlainText t \<Longrightarrow>
     send_reply zone err (write_json b) = http_error err 500"
  by (cases b) (simp_all add: send_reply_def write_json_def http_error_def set_header_def)


definition sample_container :: container where
  "sample_container = zero_container\<lparr>ct_ID := ''0123456789ab'', ct_Name := ''web'', ct_Running := True\<rparr>"

definition sample_docker :: docker_response where
  "sample_docker =
     \<lparr>kr_Available = True, kr_Containers = Some [sample_container], kr_Total = 1, kr_Running = 1, kr_Exited = 0\<rparr>"


section \<open>The history of the dashboard\<close>

lemma history_request:
  assumes "rq_path rq = ''/api/history''" "we_clean env (rq_path rq) = rq_path rq" "rq_method rq \<noteq> ''OPTIONS''"
    and "authorised rq s"
  shows "\<exists>hs. serve env rq s = (s, Some \<lparr>rp_status = 200, rp_headers = hs @ [(''Content-Type'', ''application/json'')],
      rp_body = HistoryBody (rev (last_n 10 (js_Cycles (ws_state s)))) (js_CycleNum (ws_state s))\<rparr>, False)"
proof -
  have "mux env rq s = answers s (write_json (HistoryBody (rev (last_n 10 (js_Cycles (ws_state s)))) (js_CycleNum (ws_state s))))"
    using assms(1,2)
    by (simp add: mux_def routes_def handle_history_def js_last_cycles_def go_last_eq reverse_in_place_rev)
  with assms(3,4) show ?thesis
    by (auto simp: serve_def cors_middleware_def auth_middleware_eq write_json_def Let_def)
qed

text \<open>C15: the dashboard shows the latest decisions. In a state that can be saved, an authorised request for the
  history is answered with status 200 and a JSON text that reads back as the last ten decisions of the store (all
  of them if there are fewer), newest first and with every field, and the number of the current cycle; the request changes nothing.\<close>
theorem history_endpoint_serves_recent_cycles:
  assumes "state_ok zone (ws_state s)" "rq_path rq = ''/api/history''" "we_clean env (rq_path rq) = rq_path rq"
    and "rq_method rq \<noteq> ''OPTIONS''" "authorised rq s" "cs = js_Cycles (ws_state s)"
  shows "\<exists>rp t. serve env rq s = (s, Some rp, False)
     \<and> rp_status (send_reply zone err rp) = 200 \<and> rp_body (send_reply zone err rp) = PlainText t
     \<and> last (rp_headers (send_reply zone err rp)) = (''Content-Type'', ''application/json'')
     \<and> read_answer (HistoryBody [] 0) t
         = Some (HistoryBody (rev (drop (length cs - 10) cs)) (js_CycleNum (ws_state s)))"
proof -
  let ?b = "HistoryBody (rev (last_n 10 cs)) (js_CycleNum (ws_state s))"
  have "answer_ok zone ?b"
    using assms(1,6) by (auto simp: answer_ok_def state_ok_def list_all_iff last_n_def dest: in_set_dropD)
  from body_reads_back [OF this] obtain t where t: "answer_text zone ?b = Some t" "read_answer ?b t = Some ?b" by blast
  from history_request [OF assms(2-5)] assms(6) obtain hs where
    "serve env rq s = (s, Some \<lparr>rp_status = 200, rp_headers = hs @ [(''Content-Type'', ''application/json'')], rp_body = ?b\<rparr>, False)"
    by blast
  moreover have "read_answer (HistoryBody [] 0) t = read_answer ?b t" by (simp add: read_answer_def)
  ultimately show ?thesis using t by (auto simp: send_answer last_n_def)
qed

theorem history_endpoint_serves_recent_cycles_witness:
  "\<exists>rp t. serve (sample_web_env (\<lambda>_. None)) (sample_request ''GET'' ''/api/history'' ''secret'' []) (sample_server\<lparr>ws_state := kept_state\<rparr>)
       = (sample_server\<lparr>ws_state := kept_state\<rparr>, Some rp, False)
     \<and> rp_body (send_reply utc [] rp) = PlainText t
     \<and> read_answer (HistoryBody [] 0) t = Some (HistoryBody [(sample_cycle ''df -h'')\<lparr>cr_CycleNum := 1\<rparr>] 1)"
proof -
  let ?s = "sample_server\<lparr>ws_state := kept_state\<rparr>"
  have k: "state_ok utc kept_state" "js_Cycles kept_state = [(sample_cycle ''df -h'')\<lparr>cr_CycleNum := 1\<rparr>]" "js_CycleNum kept_state = 1"
    by code_simp+
  have "authorised (sample_request ''GET'' ''/api/history'' ''secret'' []) ?s"
    by (simp add: authorised_def sample_request_def sample_server_def new_server_def)
  from history_endpoint_serves_recent_cycles [OF _ _ _ _ this refl, of utc "sample_web_env (\<lambda>_. None)" "[]"] k show ?thesis
    by (auto simp: sample_request_def sample_web_env_def)
qed

section \<open>What the dashboard does not expect\<close>

text \<open>
  The keys of a container are capitalised, an agent's schedule is sent in nanoseconds under a key that says
  milliseconds, and without Docker the containers are \<open>null\<close>.
\<close>

lemma container_keys_are_capitalised:
  "write_struct (container_fields zone) c = Some (JObj ms) \<Longrightarrow>
     map fst ms = [''ID'', ''Name'', ''Image'', ''Status'', ''Running'', ''Exited'', ''Unhealthy'', ''RestartCount'', ''CreatedAt'']"
  by (auto simp: write_struct_def container_fields_def fld_def split: option.splits)

lemma schedule_is_sent_in_nanoseconds:
  "write_struct (agent_fields zone) r = Some (JObj ms) \<Longrightarrow> (''schedule_ms'', JNum (show_int (st_Schedule r))) \<in> set ms"
  by (auto simp: write_struct_def agent_fields_def fld_def write_int_def split: option.splits if_splits)

lemma docker_down_sends_null:
  "\<not> docker_available (we_dockerVersion env) \<Longrightarrow> \<exists>b. handle_docker env rq s = answers s (write_json b)
     \<and> answer_text zone b
         = Some (''{\"available\":false,\"containers\":null,\"total\":0,\"running\":0,\"exited\":0}'' @ nl)"
proof -
  have "answer_text zone (DockerBody zero_docker)
      = Some (''{\"available\":false,\"containers\":null,\"total\":0,\"running\":0,\"exited\":0}'' @ nl)"
    unfolding zero_docker_def by code_simp
  then show "\<not> docker_available (we_dockerVersion env) \<Longrightarrow> ?thesis"
    by (intro exI [of _ "DockerBody zero_docker"]) (simp add: handle_docker_def zero_docker_def)
qed

end
