(* ===== verification/JX_Database.thy ===== *)
theory JX_Database
  imports JX_Stores
begin

text \<open>
  Opening the database: \<open>OpenSQLiteStore\<close> and \<open>sqliteMigrate\<close> of \<open>runtime/memory/sqlite_store.go\<close>. A database is
  its tables with the columns they have, its indexes and its rows; a statement is executed as SQLite does
  it, and the driver may refuse any statement with an error of its own. Names are kept in lower case, as
  the source writes them. The migration runs on every start, on new databases and on those of older
  versions, and may have been cut off halfway by the previous start.
\<close>

section \<open>The database\<close>

type_synonym column = "string \<times> string"

record database =
  db_tables :: "string \<Rightarrow> column list option"
  db_indexes :: "string list"
  db_snapshots :: "snapshot list"
  db_cycles :: "cycle_record list"

datatype statement =
    Pragma string
  | CreateTable string "column list"
  | CreateIndex string string string
  | AddColumn string column

definition has_column :: "string \<Rightarrow> column list \<Rightarrow> bool" where
  "has_column c cols \<longleftrightarrow> c \<in> set (map fst cols)"

text \<open>A new column of \<open>snapshots\<close> holds its default in the rows that are there.\<close>

definition default_column :: "string \<Rightarrow> snapshot \<Rightarrow> snapshot" where
  "default_column c s =
     (if c = ''swap_used_mb'' then s\<lparr>sn_SwapUsed := 0\<rparr>
      else if c = ''swap_total_mb'' then s\<lparr>sn_SwapTotal := 0\<rparr>
      else if c = ''swap_percent'' then s\<lparr>sn_SwapPercent := Fin 0\<rparr>
      else if c = ''net_recv_mbps'' then s\<lparr>sn_NetRecvMBps := Fin 0\<rparr>
      else if c = ''net_sent_mbps'' then s\<lparr>sn_NetSentMBps := Fin 0\<rparr>
      else if c = ''load_avg1'' then s\<lparr>sn_LoadAvg1 := Fin 0\<rparr>
      else if c = ''load_avg5'' then s\<lparr>sn_LoadAvg5 := Fin 0\<rparr>
      else if c = ''load_avg15'' then s\<lparr>sn_LoadAvg15 := Fin 0\<rparr>
      else if c = ''top_procs'' then s\<lparr>sn_TopProcs := []\<rparr>
      else s)"

text \<open>A table that is created is empty; the source creates only the two it keeps rows in.\<close>

definition create_table :: "string \<Rightarrow> column list \<Rightarrow> database \<Rightarrow> database" where
  "create_table t cols db =
     db\<lparr>db_tables := (db_tables db)(t \<mapsto> cols),
        db_snapshots := (if t = ''snapshots'' then [] else db_snapshots db),
        db_cycles := (if t = ''cycles'' then [] else db_cycles db)\<rparr>"

text \<open>What SQLite does with a statement, and the message it refuses it with.\<close>

fun exec_statement :: "statement \<Rightarrow> database \<Rightarrow> database \<times> string option" where
  "exec_statement (Pragma _) db = (db, None)"
| "exec_statement (CreateTable t cols) db =
     (case db_tables db t of Some _ \<Rightarrow> (db, None) | None \<Rightarrow> (create_table t cols db, None))"
| "exec_statement (CreateIndex i t c) db =
     (case db_tables db t of
        None \<Rightarrow> (db, Some (''no such table: main.'' @ t))
      | Some cols \<Rightarrow>
          if i \<in> set (db_indexes db) then (db, None)
          else if \<not> has_column c cols then (db, Some (''no such column: '' @ c))
          else (db\<lparr>db_indexes := db_indexes db @ [i]\<rparr>, None))"
| "exec_statement (AddColumn t c) db =
     (case db_tables db t of
        None \<Rightarrow> (db, Some (''no such table: '' @ t))
      | Some cols \<Rightarrow>
          if has_column (fst c) cols then (db, Some (''duplicate column name: '' @ fst c))
          else (db\<lparr>db_tables := (db_tables db)(t \<mapsto> cols @ [c]),
                   db_snapshots := (if t = ''snapshots'' then map (default_column (fst c)) (db_snapshots db)
                                    else db_snapshots db)\<rparr>, None))"

text \<open>The driver: it may fail on any statement, and then nothing is changed.\<close>

type_synonym faults = "statement \<Rightarrow> string option"

definition db_exec :: "faults \<Rightarrow> statement \<Rightarrow> database \<Rightarrow> database \<times> string option" where
  "db_exec flt st db = (case flt st of Some e \<Rightarrow> (db, Some e) | None \<Rightarrow> exec_statement st db)"

section \<open>The migration\<close>

definition int_col :: "string \<Rightarrow> column" where "int_col n = (n, ''INTEGER NOT NULL'')"
definition real_col :: "string \<Rightarrow> column" where "real_col n = (n, ''REAL NOT NULL'')"
definition int_default :: "string \<Rightarrow> column" where "int_default n = (n, ''INTEGER NOT NULL DEFAULT 0'')"
definition real_default :: "string \<Rightarrow> column" where "real_default n = (n, ''REAL NOT NULL DEFAULT 0'')"

definition procs_col :: column where
  "procs_col = (''top_procs'', ''TEXT NOT NULL DEFAULT '' @ [CHR 0x27] @ ''[]'' @ [CHR 0x27])"

definition create_snapshots :: statement where
  "create_snapshots = CreateTable ''snapshots''
     [(''id'', ''INTEGER PRIMARY KEY AUTOINCREMENT''), (''timestamp'', ''DATETIME NOT NULL''),
      real_col ''cpu_percent'', int_col ''mem_used_mb'', int_col ''mem_total_mb'', real_col ''mem_percent'',
      int_default ''swap_used_mb'', int_default ''swap_total_mb'', real_default ''swap_percent'',
      int_col ''disk_used_gb'', int_col ''disk_total_gb'', real_col ''disk_percent'',
      real_default ''net_recv_mbps'', real_default ''net_sent_mbps'',
      real_default ''load_avg1'', real_default ''load_avg5'', real_default ''load_avg15'', procs_col]"

definition create_cycles :: statement where
  "create_cycles = CreateTable ''cycles''
     [(''id'', ''INTEGER PRIMARY KEY AUTOINCREMENT''), int_col ''cycle_num'', (''timestamp'', ''DATETIME NOT NULL''),
      (''action'', ''TEXT NOT NULL''), (''analysis'', ''TEXT NOT NULL''), (''reason'', ''TEXT NOT NULL''),
      (''command'', ''TEXT DEFAULT '' @ [CHR 0x27, CHR 0x27]),
      (''trigger_cpu'', ''REAL DEFAULT 0''), (''trigger_ram'', ''REAL DEFAULT 0''),
      (''trigger_disk'', ''REAL DEFAULT 0''), (''confidence'', ''REAL DEFAULT 0''),
      real_col ''snap_cpu_percent'', int_col ''snap_mem_used_mb'', int_col ''snap_mem_total_mb'',
      real_col ''snap_mem_percent'', int_col ''snap_disk_used_gb'', int_col ''snap_disk_total_gb'',
      real_col ''snap_disk_percent'']"

definition create_statements :: "statement list" where
  "create_statements =
     [create_snapshots, create_cycles, CreateIndex ''idx_snapshots_ts'' ''snapshots'' ''timestamp'',
      CreateIndex ''idx_cycles_ts'' ''cycles'' ''timestamp'']"

definition added_columns :: "column list" where
  "added_columns =
     [int_default ''swap_used_mb'', int_default ''swap_total_mb'', real_default ''swap_percent'',
      real_default ''net_recv_mbps'', real_default ''net_sent_mbps'',
      real_default ''load_avg1'', real_default ''load_avg5'', real_default ''load_avg15'', procs_col]"

definition alter_statements :: "statement list" where
  "alter_statements = map (AddColumn ''snapshots'') added_columns"

definition is_duplicate_column_err :: "string \<Rightarrow> bool" where
  "is_duplicate_column_err msg \<longleftrightarrow> contains msg ''duplicate column name'' \<or> contains msg ''already exists''"

text \<open>The two loops: the first stops at any error, the second goes on after a tolerated one.\<close>

fun run_statements :: "(string \<Rightarrow> bool) \<Rightarrow> faults \<Rightarrow> statement list \<Rightarrow> database \<Rightarrow> database \<times> string option" where
  "run_statements tolerated flt [] db = (db, None)"
| "run_statements tolerated flt (st # sts) db =
     (case db_exec flt st db of
        (db', Some e) \<Rightarrow> if tolerated e then run_statements tolerated flt sts db' else (db', Some e)
      | (db', None) \<Rightarrow> run_statements tolerated flt sts db')"

definition sqlite_migrate :: "faults \<Rightarrow> database \<Rightarrow> database \<times> string option" where
  "sqlite_migrate flt db =
     (case run_statements (\<lambda>_. False) flt create_statements db of
        (db', Some e) \<Rightarrow> (db', Some e)
      | (db', None) \<Rightarrow> run_statements is_duplicate_column_err flt alter_statements db')"

section \<open>Opening\<close>

text \<open>What the driver answers: the open, the statements, the query for the largest cycle number.\<close>

record sql_driver =
  dv_open :: "string + database"
  dv_faults :: faults
  dv_query :: "string option"

datatype open_error =
    OpenError string | PragmaError string | PragmaSyncError string | MigrateError string | InitError string

fun open_error_text :: "open_error \<Rightarrow> string" where
  "open_error_text (OpenError e) = ''sqlite open: '' @ e"
| "open_error_text (PragmaError e) = ''sqlite pragma: '' @ e"
| "open_error_text (PragmaSyncError e) = ''sqlite pragma synchronous: '' @ e"
| "open_error_text (MigrateError e) = ''sqlite migrate: '' @ e"
| "open_error_text (InitError e) = ''sqlite init cycle_num: '' @ e"

definition open_sqlite :: "sql_driver \<Rightarrow> open_error + sqlite_store" where
  "open_sqlite dv =
     (case dv_open dv of Inl e \<Rightarrow> Inl (OpenError e)
      | Inr db0 \<Rightarrow>
          (case db_exec (dv_faults dv) (Pragma ''journal_mode=WAL'') db0 of
             (_, Some e) \<Rightarrow> Inl (PragmaError e)
           | (db1, None) \<Rightarrow>
               (case db_exec (dv_faults dv) (Pragma ''synchronous=NORMAL'') db1 of
                  (_, Some e) \<Rightarrow> Inl (PragmaSyncError e)
                | (db2, None) \<Rightarrow>
                    (case sqlite_migrate (dv_faults dv) db2 of
                       (_, Some e) \<Rightarrow> Inl (MigrateError e)
                     | (db, None) \<Rightarrow>
                         (case dv_query dv of Some e \<Rightarrow> Inl (InitError e)
                          | None \<Rightarrow> Inr (open_sqlite_store (db_snapshots db) (db_cycles db)))))))"

text \<open>The columns the two \<open>INSERT\<close> statements of \<open>Add\<close> and \<open>AddCycle\<close> name.\<close>

definition snapshot_insert_columns :: "string list" where
  "snapshot_insert_columns =
     [''timestamp'', ''cpu_percent'', ''mem_used_mb'', ''mem_total_mb'', ''mem_percent'',
      ''swap_used_mb'', ''swap_total_mb'', ''swap_percent'', ''disk_used_gb'', ''disk_total_gb'', ''disk_percent'',
      ''net_recv_mbps'', ''net_sent_mbps'', ''load_avg1'', ''load_avg5'', ''load_avg15'', ''top_procs'']"

definition cycle_insert_columns :: "string list" where
  "cycle_insert_columns =
     [''cycle_num'', ''timestamp'', ''action'', ''analysis'', ''reason'', ''command'',
      ''trigger_cpu'', ''trigger_ram'', ''trigger_disk'', ''confidence'',
      ''snap_cpu_percent'', ''snap_mem_used_mb'', ''snap_mem_total_mb'', ''snap_mem_percent'',
      ''snap_disk_used_gb'', ''snap_disk_total_gb'', ''snap_disk_percent'']"

section \<open>Facts\<close>

text \<open>The columns an old table of snapshots lacks, and what becomes of its rows.\<close>

definition missing_columns :: "column list \<Rightarrow> column list \<Rightarrow> column list" where
  "missing_columns adds cols = filter (\<lambda>c. \<not> has_column (fst c) cols) adds"

abbreviation no_faults :: faults where "no_faults \<equiv> \<lambda>_. None"

fun satisfied :: "statement \<Rightarrow> database \<Rightarrow> bool" where
  "satisfied (Pragma _) db = True"
| "satisfied (CreateTable t _) db = (db_tables db t \<noteq> None)"
| "satisfied (CreateIndex i t _) db = (db_tables db t \<noteq> None \<and> i \<in> set (db_indexes db))"
| "satisfied (AddColumn t c) db = (case db_tables db t of None \<Rightarrow> False | Some cols \<Rightarrow> has_column (fst c) cols)"

text \<open>Which errors of a statement its loop may tolerate: a duplicate column and no other.\<close>

fun strict :: "(string \<Rightarrow> bool) \<Rightarrow> statement \<Rightarrow> bool" where
  "strict tol (CreateIndex i t c) = (\<not> tol (''no such table: main.'' @ t) \<and> \<not> tol (''no such column: '' @ c))"
| "strict tol (AddColumn t c) = (\<not> tol (''no such table: '' @ t) \<and> tol (''duplicate column name: '' @ fst c))"
| "strict tol _ = True"

lemma satisfied_mono: "satisfied st db \<Longrightarrow> satisfied st (fst (exec_statement st' db))"
  by (cases st; cases st') (auto simp: create_table_def has_column_def split: option.splits)

lemma exec_refused: "exec_statement st db = (db', Some m) \<Longrightarrow> db' = db"
  by (cases st) (auto split: option.splits if_splits)

lemma exec_satisfied:
  "satisfied st db \<Longrightarrow> exec_statement st db = (db', e) \<Longrightarrow> strict tol st \<Longrightarrow> db' = db \<and> (e = None \<or> tol (the e))"
  by (cases st) (auto split: option.splits if_splits)

lemma exec_achieves:
  "exec_statement st db = (db', e) \<Longrightarrow> strict tol st \<Longrightarrow> e = None \<or> tol (the e) \<Longrightarrow> satisfied st db'"
  by (cases st) (auto simp: has_column_def create_table_def split: option.splits if_splits)

lemma run_satisfied:
  "\<forall>st\<in>set sts. satisfied st db \<and> strict tol st \<Longrightarrow> run_statements tol no_faults sts db = (db, None)"
proof (induction sts)
  case (Cons st sts)
  obtain db' e where x: "exec_statement st db = (db', e)" by fastforce
  with exec_satisfied [OF _ x, of tol] Cons.prems have "db' = db" "e = None \<or> tol (the e)" by auto
  with Cons x show ?case by (auto simp: db_exec_def split: option.splits)
qed simp

lemma run_append:
  "run_statements tol flt (xs @ ys) db =
     (case run_statements tol flt xs db of (db', Some e) \<Rightarrow> (db', Some e) | (db', None) \<Rightarrow> run_statements tol flt ys db')"
  by (induction xs arbitrary: db) (auto split: prod.splits option.splits)

text \<open>Wherever a run stops, it has executed a prefix of its statements, and each of them is satisfied.\<close>

lemma run_reaches:
  assumes "run_statements tol flt sts db = (db', e)" "\<forall>st\<in>set sts. strict tol st"
    and "\<And>st m. flt st = Some m \<Longrightarrow> \<not> tol m"
  shows "(\<exists>ps qs. sts = ps @ qs \<and> run_statements tol no_faults ps db = (db', None)
            \<and> (\<forall>st\<in>set ps. satisfied st db') \<and> (e = None \<longrightarrow> qs = []))
     \<and> (\<forall>st. satisfied st db \<longrightarrow> satisfied st db')"
  using assms(1,2)
proof (induction sts arbitrary: db)
  case (Cons st sts)
  obtain db1 e1 where x: "exec_statement st db = (db1, e1)" by fastforce
  show ?case
  proof (cases "flt st = None \<and> (e1 = None \<or> tol (the e1))")
    case False
    have "db' = db \<and> e \<noteq> None"
    proof (cases "flt st")
      case None
      with False obtain m where m: "e1 = Some m" "\<not> tol m" by auto
      with x exec_refused have "db1 = db" by blast
      with None m x Cons.prems(1) show ?thesis by (auto simp: db_exec_def)
    next
      case (Some m)
      with assms(3) [OF Some] Cons.prems(1) show ?thesis by (simp add: db_exec_def) (metis Some option.sel option.simps(3))
    qed
    then show ?thesis by (intro conjI exI [of _ "[]"] exI [of _ "st # sts"]) auto
  next
    case True
    then have r: "run_statements tol flt sts db1 = (db', e)"
      using Cons.prems(1) x by (auto simp: db_exec_def split: option.splits)
    have sat: "satisfied st db1" using exec_achieves [OF x] True Cons.prems(2) by auto
    from Cons.IH [OF r] Cons.prems(2) obtain ps qs where
      p: "sts = ps @ qs" "run_statements tol no_faults ps db1 = (db', None)" "\<forall>st\<in>set ps. satisfied st db'"
        "e = None \<longrightarrow> qs = []" and mono: "\<forall>st. satisfied st db1 \<longrightarrow> satisfied st db'" by auto
    have "run_statements tol no_faults (st # ps) db = (db', None)"
      using True x p(2) by (auto simp: db_exec_def split: option.splits)
    moreover have "satisfied u db'" if "satisfied u db" for u
      using satisfied_mono [OF that, of st] mono x by simp
    ultimately show ?thesis
      using p sat mono by (intro conjI exI [of _ "st # ps"] exI [of _ qs]) auto
  qed
qed auto

text \<open>A statement loses nothing: columns are only appended, and what the rows hold in the columns every version
  has stays, whatever the driver refuses.\<close>

definition core_view :: "snapshot \<Rightarrow> snapshot" where
  "core_view s =
     zero_snapshot\<lparr>sn_Timestamp := sn_Timestamp s, sn_CPUPercent := sn_CPUPercent s, sn_MemUsed := sn_MemUsed s,
       sn_MemTotal := sn_MemTotal s, sn_MemPercent := sn_MemPercent s, sn_DiskUsed := sn_DiskUsed s,
       sn_DiskTotal := sn_DiskTotal s, sn_DiskPercent := sn_DiskPercent s\<rparr>"

definition keeps :: "database \<Rightarrow> database \<Rightarrow> bool" where
  "keeps db db' \<longleftrightarrow>
     (\<forall>t cols. db_tables db t = Some cols \<longrightarrow> (\<exists>more. db_tables db' t = Some (cols @ more)))
     \<and> (db_tables db ''cycles'' \<noteq> None \<longrightarrow> db_cycles db' = db_cycles db)
     \<and> (db_tables db ''snapshots'' \<noteq> None \<longrightarrow>
          map core_view (db_snapshots db') = map core_view (db_snapshots db))"

lemma core_view_default [simp]: "core_view (default_column c s) = core_view s"
  by (simp add: core_view_def default_column_def)

lemma keeps_refl: "keeps db db"
  by (simp add: keeps_def)

lemma keeps_trans: "keeps a b \<Longrightarrow> keeps b c \<Longrightarrow> keeps a c"
proof -
  assume ab: "keeps a b" and bc: "keeps b c"
  have t: "\<exists>more. db_tables c t = Some (cols @ more)" if at: "db_tables a t = Some cols" for t cols
  proof -
    from ab at obtain m where "db_tables b t = Some (cols @ m)" unfolding keeps_def by blast
    with bc obtain m' where "db_tables c t = Some ((cols @ m) @ m')" unfolding keeps_def by blast
    then show ?thesis by simp
  qed
  have b: "db_tables b t \<noteq> None" if "db_tables a t \<noteq> None" for t
    using that ab unfolding keeps_def by fastforce
  from ab bc t b [of "''cycles''"] b [of "''snapshots''"] show "keeps a c" by (simp only: keeps_def) simp
qed

lemma keeps_exec: "keeps db (fst (exec_statement st db))"
proof (cases st)
  case (CreateTable t cols)
  have "keeps db (create_table t cols db)" if "db_tables db t = None"
    using that by (auto simp: keeps_def create_table_def)
  then show ?thesis by (simp add: CreateTable keeps_refl split: option.split)
next
  case (AddColumn t c)
  have "keeps db (db\<lparr>db_tables := (db_tables db)(t \<mapsto> cols @ [c]),
      db_snapshots := (if t = ''snapshots'' then map (default_column (fst c)) (db_snapshots db) else db_snapshots db)\<rparr>)"
    if "db_tables db t = Some cols" for cols
    using that by (auto simp: keeps_def o_def)
  then show ?thesis
    by (cases "db_tables db t"; cases "has_column (fst c) (the (db_tables db t))")
      (simp_all only: AddColumn exec_statement.simps option.case option.sel if_True if_False fst_conv keeps_refl)
qed (auto simp: keeps_def split: option.split)

lemma keeps_run: "run_statements tol flt sts db = (db', e) \<Longrightarrow> keeps db db'"
proof (induction sts arbitrary: db)
  case (Cons st sts)
  have "keeps db (fst (db_exec flt st db))"
    by (simp add: db_exec_def keeps_refl keeps_exec split: option.split)
  with Cons show ?case by (auto split: prod.splits option.splits if_splits intro: keeps_trans)
qed (simp add: keeps_refl)

lemma keeps_migrate: "sqlite_migrate flt db = (db', e) \<Longrightarrow> keeps db db'"
  by (auto simp: sqlite_migrate_def split: prod.splits option.splits dest!: keeps_run intro: keeps_trans)

lemma strict_create: "st \<in> set create_statements \<Longrightarrow> strict (\<lambda>_. False) st"
  by (auto simp: create_statements_def create_snapshots_def create_cycles_def)

lemma strict_alter: "st \<in> set alter_statements \<Longrightarrow> strict is_duplicate_column_err st"
proof -
  have "\<not> is_duplicate_column_err (''no such table: '' @ ''snapshots'')" by code_simp
  moreover have "is_duplicate_column_err (''duplicate column name: '' @ c)" for c
    unfolding is_duplicate_column_err_def contains_iff by (intro disjI1 prefix_imp_sublist) simp
  ultimately show "st \<in> set alter_statements \<Longrightarrow> strict is_duplicate_column_err st"
    by (auto simp: alter_statements_def)
qed

text \<open>The columns are appended one by one; the rows get their defaults.\<close>

definition alter_table :: "string \<Rightarrow> column list \<Rightarrow> (snapshot \<Rightarrow> snapshot) \<Rightarrow> database \<Rightarrow> database" where
  "alter_table t cols f db =
     db\<lparr>db_tables := (db_tables db)(t \<mapsto> cols), db_snapshots := map f (db_snapshots db)\<rparr>"

lemma alter_table_twice: "alter_table t cols' g (alter_table t cols f db) = alter_table t cols' (g \<circ> f) db"
  by (simp add: alter_table_def)

lemma add_columns:
  assumes "db_tables db ''snapshots'' = Some cols" "distinct (map fst adds)" "\<And>c. tol (''duplicate column name: '' @ c)"
  shows "run_statements tol no_faults (map (AddColumn ''snapshots'') adds) db =
    (alter_table ''snapshots'' (cols @ missing_columns adds cols)
       (fold default_column (map fst (missing_columns adds cols))) db, None)"
  using assms(1,2)
proof (induction adds arbitrary: db cols)
  case Nil
  then have "(db_tables db)(''snapshots'' \<mapsto> cols) = db_tables db" by auto
  then show ?case by (simp add: missing_columns_def alter_table_def)
next
  case (Cons c adds)
  show ?case
  proof (cases "has_column (fst c) cols")
    case True
    with Cons assms(3) show ?thesis by (simp add: db_exec_def missing_columns_def)
  next
    case False
    let ?db = "alter_table ''snapshots'' (cols @ [c]) (default_column (fst c)) db"
    have "fst x \<noteq> fst c" if "x \<in> set adds" for x
      using Cons.prems(2) that by (metis distinct.simps(2) image_eqI list.map(2) list.set_map)
    then have "missing_columns adds (cols @ [c]) = missing_columns adds cols"
      unfolding missing_columns_def by (intro filter_cong) (auto simp: has_column_def)
    moreover have "missing_columns (c # adds) cols = c # missing_columns adds cols"
      using False by (simp add: missing_columns_def)
    moreover have "run_statements tol no_faults (map (AddColumn ''snapshots'') (c # adds)) db
        = run_statements tol no_faults (map (AddColumn ''snapshots'') adds) ?db"
      using False Cons.prems(1) by (simp add: db_exec_def alter_table_def)
    moreover have "db_tables ?db ''snapshots'' = Some (cols @ [c])" by (simp add: alter_table_def)
    moreover note Cons.IH [of ?db "cols @ [c]"]
    ultimately show ?thesis using Cons.prems(2) by (simp add: alter_table_twice o_def)
  qed
qed

text \<open>A migration that the driver does not disturb, in closed form.\<close>

definition columns_of :: "statement \<Rightarrow> column list" where
  "columns_of st = (case st of CreateTable t cols \<Rightarrow> cols | _ \<Rightarrow> [])"

definition table_or :: "statement \<Rightarrow> column list option \<Rightarrow> column list" where
  "table_or st t = (case t of Some cols \<Rightarrow> cols | None \<Rightarrow> columns_of st)"

definition migratable :: "database \<Rightarrow> bool" where
  "migratable db \<longleftrightarrow>
     list_all (\<lambda>t. case db_tables db t of None \<Rightarrow> True | Some cols \<Rightarrow> has_column ''timestamp'' cols)
       [''snapshots'', ''cycles'']"

definition all_in :: "string list \<Rightarrow> column list \<Rightarrow> bool" where
  "all_in ns cols \<longleftrightarrow> list_all (\<lambda>n. has_column n cols) ns"

lemma created:
  assumes "migratable db"
  shows "\<exists>db1. run_statements (\<lambda>_. False) no_faults create_statements db = (db1, None)
     \<and> db_tables db1 = (db_tables db)(''snapshots'' \<mapsto> table_or create_snapshots (db_tables db ''snapshots''),
                                      ''cycles'' \<mapsto> table_or create_cycles (db_tables db ''cycles''))
     \<and> db_snapshots db1 = (if db_tables db ''snapshots'' = None then [] else db_snapshots db)
     \<and> db_cycles db1 = (if db_tables db ''cycles'' = None then [] else db_cycles db)"
proof -
  have ts: "has_column ''timestamp'' (columns_of create_snapshots)" "has_column ''timestamp'' (columns_of create_cycles)"
    by code_simp+
  obtain s c where cs: "create_snapshots = CreateTable ''snapshots'' s" "create_cycles = CreateTable ''cycles'' c"
    by (simp add: create_snapshots_def create_cycles_def)
  with assms ts show ?thesis
    unfolding create_statements_def cs
    by (cases "db_tables db ''snapshots''"; cases "db_tables db ''cycles''")
      (auto simp: migratable_def table_or_def columns_of_def db_exec_def create_table_def fun_eq_iff)
qed

lemma migrated:
  assumes "migratable db"
  shows "\<exists>db'. sqlite_migrate no_faults db = (db', None)
     \<and> (\<forall>st\<in>set (create_statements @ alter_statements). satisfied st db')
     \<and> (let cols = table_or create_snapshots (db_tables db ''snapshots'') in
          db_tables db' = (db_tables db)(''snapshots'' \<mapsto> cols @ missing_columns added_columns cols,
                                         ''cycles'' \<mapsto> table_or create_cycles (db_tables db ''cycles''))
          \<and> db_snapshots db' = (if db_tables db ''snapshots'' = None then []
                else map (fold default_column (map fst (missing_columns added_columns cols))) (db_snapshots db)))
     \<and> db_cycles db' = (if db_tables db ''cycles'' = None then [] else db_cycles db)"
proof -
  let ?cols = "table_or create_snapshots (db_tables db ''snapshots'')"
  from created [OF assms] obtain db1 where
    c: "run_statements (\<lambda>_. False) no_faults create_statements db = (db1, None)" and
    t: "db_tables db1 = (db_tables db)(''snapshots'' \<mapsto> ?cols, ''cycles'' \<mapsto> table_or create_cycles (db_tables db ''cycles''))" and
    r: "db_snapshots db1 = (if db_tables db ''snapshots'' = None then [] else db_snapshots db)"
      "db_cycles db1 = (if db_tables db ''cycles'' = None then [] else db_cycles db)" by blast
  let ?db = "alter_table ''snapshots'' (?cols @ missing_columns added_columns ?cols)
      (fold default_column (map fst (missing_columns added_columns ?cols))) db1"
  have "is_duplicate_column_err (''duplicate column name: '' @ x)" for x
    using strict_alter [of "AddColumn ''snapshots'' procs_col"]
    unfolding is_duplicate_column_err_def contains_iff by (intro disjI1 prefix_imp_sublist) simp
  moreover have "db_tables db1 ''snapshots'' = Some ?cols" by (simp add: t)
  moreover have "distinct (map fst added_columns)" by code_simp
  ultimately have a: "run_statements is_duplicate_column_err no_faults alter_statements db1 = (?db, None)"
    unfolding alter_statements_def by (intro add_columns)
  have m: "sqlite_migrate no_faults db = (?db, None)" by (simp add: sqlite_migrate_def c a)
  have "\<forall>st\<in>set create_statements. satisfied st db1"
    using run_reaches [OF c] strict_create by fastforce
  moreover have "(\<forall>st\<in>set alter_statements. satisfied st ?db) \<and> (\<forall>st. satisfied st db1 \<longrightarrow> satisfied st ?db)"
    using run_reaches [OF a] strict_alter by fastforce
  ultimately have "\<forall>st\<in>set (create_statements @ alter_statements). satisfied st ?db" by auto
  with m t r show ?thesis by (intro exI [of _ ?db]) (auto simp: alter_table_def Let_def fun_eq_iff)
qed

lemma migrate_satisfied:
  assumes "\<forall>st\<in>set (create_statements @ alter_statements). satisfied st db"
  shows "sqlite_migrate no_faults db = (db, None)"
proof -
  have "run_statements (\<lambda>_. False) no_faults create_statements db = (db, None)"
    "run_statements is_duplicate_column_err no_faults alter_statements db = (db, None)"
    using assms strict_create strict_alter by (intro run_satisfied; auto)+
  then show ?thesis by (simp add: sqlite_migrate_def)
qed

lemma missing_cover: "has_column n (cols @ missing_columns adds cols) \<longleftrightarrow> has_column n cols \<or> has_column n adds"
  by (auto simp: has_column_def missing_columns_def)

section \<open>Properties\<close>


text \<open>A database of the first version: the columns that came later are missing.\<close>

definition old_database :: database where
  "old_database =
     \<lparr>db_tables = [''snapshots'' \<mapsto>
        [(''id'', ''INTEGER PRIMARY KEY AUTOINCREMENT''), (''timestamp'', ''DATETIME NOT NULL''),
         real_col ''cpu_percent'', int_col ''mem_used_mb'', int_col ''mem_total_mb'', real_col ''mem_percent'',
         int_col ''disk_used_gb'', int_col ''disk_total_gb'', real_col ''disk_percent'']],
      db_indexes = [], db_snapshots = [zero_snapshot\<lparr>sn_CPUPercent := Fin 40\<rparr>], db_cycles = []\<rparr>"

lemma old_migratable: "migratable old_database"
  by (simp add: migratable_def old_database_def has_column_def)


text \<open>C23: a migration that was cut off is taken up. Whatever statement the driver refused with an error of its
  own, the database it leaves keeps every table with its columns in front and every row with what the first
  version stores; and migrating it again without faults gives the same database, and the same error if
  there is one, as if the first attempt had never been made.\<close>
theorem interrupted_migration_is_redone:
  assumes "sqlite_migrate flt db = (db1, e)" "\<And>st m. flt st = Some m \<Longrightarrow> \<not> is_duplicate_column_err m"
  shows "keeps db db1 \<and> sqlite_migrate no_faults db1 = sqlite_migrate no_faults db"
proof
  show "keeps db db1" by (rule keeps_migrate [OF assms(1)])
  let ?c = "run_statements (\<lambda>_. False)" and ?a = "run_statements is_duplicate_column_err"
  obtain db0 e0 where c: "?c flt create_statements db = (db0, e0)" by fastforce
  obtain ps qs where p: "create_statements = ps @ qs" "?c no_faults ps db = (db0, None)"
    "\<forall>st\<in>set ps. satisfied st db0" "e0 = None \<longrightarrow> qs = []"
    using run_reaches [OF c] strict_create by auto
  have "\<forall>st\<in>set ps. strict (\<lambda>_. False) st" using strict_create p(1) by (metis Un_iff set_append)
  then have again: "?c no_faults create_statements d = ?c no_faults qs d" if "\<forall>st\<in>set ps. satisfied st d" for d
    using run_satisfied [of ps d "\<lambda>_. False"] that by (simp add: p(1) run_append)
  have once: "?c no_faults create_statements db = ?c no_faults qs db0" by (simp add: p(1,2) run_append)
  show "sqlite_migrate no_faults db1 = sqlite_migrate no_faults db"
  proof (cases e0)
    case (Some m)
    then have "db1 = db0" using assms(1) c by (simp add: sqlite_migrate_def)
    then show ?thesis using again [OF p(3)] once by (simp add: sqlite_migrate_def)
  next
    case None
    then have a: "?a flt alter_statements db0 = (db1, e)" using assms(1) c by (simp add: sqlite_migrate_def)
    obtain us vs where u: "alter_statements = us @ vs" "?a no_faults us db0 = (db1, None)"
      "\<forall>st\<in>set us. satisfied st db1" and mono: "\<forall>st. satisfied st db0 \<longrightarrow> satisfied st db1"
      using run_reaches [OF a] strict_alter assms(2) by auto
    have "\<forall>st\<in>set us. strict is_duplicate_column_err st" using strict_alter u(1) by (metis Un_iff set_append)
    then have "?a no_faults alter_statements db1 = ?a no_faults alter_statements db0"
      using run_satisfied [of us db1 is_duplicate_column_err] u(3) by (simp add: u(1,2) run_append)
    moreover have "?c no_faults create_statements db1 = (db1, None)" "?c no_faults create_statements db = (db0, None)"
      using again [of db1] once p(3,4) mono None by auto
    ultimately show ?thesis by (simp add: sqlite_migrate_def)
  qed
qed

definition locked :: faults where
  "locked st = (if st = AddColumn ''snapshots'' (real_default ''swap_percent'') then Some ''database is locked'' else None)"

theorem interrupted_migration_is_redone_witness:
  "snd (sqlite_migrate locked old_database) = Some ''database is locked''
   \<and> sqlite_migrate no_faults (fst (sqlite_migrate locked old_database)) = sqlite_migrate no_faults old_database"
proof
  show "snd (sqlite_migrate locked old_database) = Some ''database is locked''" by code_simp
  have "\<not> is_duplicate_column_err ''database is locked''" by code_simp
  then have "\<not> is_duplicate_column_err m" if "locked st = Some m" for st m
    using that by (auto simp: locked_def split: if_splits)
  then show "sqlite_migrate no_faults (fst (sqlite_migrate locked old_database)) = sqlite_migrate no_faults old_database"
    using interrupted_migration_is_redone [of locked old_database, OF prod.collapse [symmetric]] by blast
qed


definition new_database :: database where
  "new_database = \<lparr>db_tables = Map.empty, db_indexes = [], db_snapshots = [], db_cycles = []\<rparr>"

lemma satisfied_rows [simp]: "satisfied st (db\<lparr>db_snapshots := xs, db_cycles := ys\<rparr>) = satisfied st db"
  by (cases st) simp_all


lemma cycles_exec: "set (db_cycles (fst (exec_statement st db))) \<subseteq> set (db_cycles db)"
  by (cases st) (auto simp: create_table_def split: option.splits)

lemma cycles_run: "run_statements tol flt sts db = (db', e) \<Longrightarrow> set (db_cycles db') \<subseteq> set (db_cycles db)"
proof (induction sts arbitrary: db)
  case (Cons st sts)
  have "set (db_cycles (fst (db_exec flt st db))) \<subseteq> set (db_cycles db)"
    using cycles_exec by (simp add: db_exec_def split: option.split)
  with Cons show ?case by (fastforce split: prod.splits option.splits if_splits)
qed simp

lemma open_sqlite_inv:
  assumes "open_sqlite dv = Inr s" "\<And>db c. dv_open dv = Inr db \<Longrightarrow> c \<in> set (db_cycles db) \<Longrightarrow> 0 \<le> cr_CycleNum c"
  shows "sq_inv s"
proof -
  from assms(1) obtain db db' where db: "dv_open dv = Inr db" "sqlite_migrate (dv_faults dv) db = (db', None)"
    "s = open_sqlite_store (db_snapshots db') (db_cycles db')"
    by (auto simp: open_sqlite_def db_exec_def split: sum.splits option.splits prod.splits)
  have "set (db_cycles db') \<subseteq> set (db_cycles db)"
    using db(2) by (fastforce simp: sqlite_migrate_def dest!: cycles_run split: prod.splits option.splits)
  then have nn: "0 \<le> cr_CycleNum c" if "c \<in> set (db_cycles db')" for c using that assms(2) [OF db(1)] by blast
  have "0 \<le> Max (set (map cr_CycleNum (db_cycles db')))" if "db_cycles db' \<noteq> []"
  proof -
    have "Max (set (map cr_CycleNum (db_cycles db'))) \<in> set (map cr_CycleNum (db_cycles db'))"
      using that by (intro Max_in) auto
    then show ?thesis using nn by auto
  qed
  then show ?thesis by (simp add: db(3) sq_inv_def open_sqlite_store_def max_cycle_def)
qed

end
