(* ===== verification/JX_Observe.thy ===== *)
theory JX_Observe
  imports JX_Log JX_Memory "HOL-Library.Multiset"
begin

text \<open>
  The observation of the host: \<open>runtime/tools/system.go\<close>, \<open>process.go\<close> and \<open>network.go\<close>. What \<open>gopsutil\<close>
  answers is the environment: a percentage per CPU, memory, swap, load, disk and process figures, any of
  which may fail. \<open>sort.Slice\<close> is a function of the environment too, since it may order equal processes
  as it likes.
\<close>

section \<open>Network\<close>

record net_counters =
  nc_Recv :: "64 word"
  nc_Sent :: "64 word"

text \<open>\<open>ReadNetCounters\<close>: the first entry of what \<open>net.IOCounters\<close> answers, if it does.\<close>

definition read_net_counters :: "net_counters list option \<Rightarrow> net_counters option" where
  "read_net_counters stats =
     (case stats of Some (c # _) \<Rightarrow> Some \<lparr>nc_Recv = nc_Recv c, nc_Sent = nc_Sent c\<rparr> | _ \<Rightarrow> None)"

definition rate_of :: "64 word \<Rightarrow> f64 \<Rightarrow> f64" where
  "rate_of w elapsed = f_div (f_div (f_div (f_of_u64 w) elapsed) (Fin 1024)) (Fin 1024)"

definition delta_mbps :: "net_counters \<Rightarrow> net_counters \<Rightarrow> f64 \<Rightarrow> f64 \<times> f64" where
  "delta_mbps prev cur elapsed =
     (if f_le elapsed (Fin 0) \<or> nc_Recv cur < nc_Recv prev \<or> nc_Sent cur < nc_Sent prev then (Fin 0, Fin 0)
      else (rate_of (nc_Recv cur - nc_Recv prev) elapsed, rate_of (nc_Sent cur - nc_Sent prev) elapsed))"

section \<open>Processes\<close>

text \<open>One process of the table; \<open>pe_expired\<close> says whether the two seconds are over when its turn comes.\<close>

record proc_entry =
  pe_pid :: int
  pe_name :: "string option"
  pe_rss :: "64 word option"
  pe_expired :: bool

fun collect_procs :: "proc_entry list \<Rightarrow> proc_info list" where
  "collect_procs [] = []"
| "collect_procs (p # ps) =
     (if pe_expired p then []
      else case (pe_name p, pe_rss p) of
        (Some name, Some rss) \<Rightarrow>
          \<lparr>pi_PID = pe_pid p, pi_Name = name, pi_MemMB = rss div 1024 div 1024\<rparr> # collect_procs ps
      | _ \<Rightarrow> collect_procs ps)"

definition top_processes :: "(proc_info list \<Rightarrow> proc_info list) \<Rightarrow> proc_entry list option \<Rightarrow> nat \<Rightarrow> proc_info list" where
  "top_processes srt procs n =
     (case procs of None \<Rightarrow> []
      | Some ps \<Rightarrow> (let infos = srt (collect_procs ps) in if n < length infos then take n infos else infos))"

section \<open>One observation\<close>

definition top_n :: nat where "top_n = 5"

record system_state =
  ss_Timestamp :: time
  ss_CPUPercent :: f64
  ss_MemTotal :: "64 word"
  ss_MemUsed :: "64 word"
  ss_MemPercent :: f64
  ss_SwapTotal :: "64 word"
  ss_SwapUsed :: "64 word"
  ss_SwapPercent :: f64
  ss_DiskTotal :: "64 word"
  ss_DiskUsed :: "64 word"
  ss_DiskPercent :: f64
  ss_NetRecvMBps :: f64
  ss_NetSentMBps :: f64
  ss_LoadAvg1 :: f64
  ss_LoadAvg5 :: f64
  ss_LoadAvg15 :: f64
  ss_TopProcs :: "proc_info list"

text \<open>Total, used and used percent.\<close>

type_synonym usage = "64 word \<times> 64 word \<times> f64"

record host =
  ho_cancelled :: bool
  ho_cpu :: "string + f64 list"
  ho_mem :: "string + usage"
  ho_swap :: "usage option"
  ho_load :: "(f64 \<times> f64 \<times> f64) option"
  ho_disk :: "string + usage"
  ho_procs :: "proc_entry list option"
  ho_sort :: "proc_info list \<Rightarrow> proc_info list"
  ho_now :: time

datatype observe_error = ObsCancelled | ObsCpu string | ObsMem string | ObsDisk string

fun observe_text :: "observe_error \<Rightarrow> string" where
  "observe_text ObsCancelled = ''context canceled''"
| "observe_text (ObsCpu e) = ''cpu: '' @ e"
| "observe_text (ObsMem e) = ''mem: '' @ e"
| "observe_text (ObsDisk e) = ''disk: '' @ e"

definition read_load_avg :: "host \<Rightarrow> f64 \<times> f64 \<times> f64" where
  "read_load_avg h = (case ho_load h of Some l \<Rightarrow> l | None \<Rightarrow> (Fin 0, Fin 0, Fin 0))"

definition root_path :: "bool \<Rightarrow> string" where
  "root_path windows = (if windows then [CHR ''C'', CHR '':'', CHR 0x5C] else ''/'')"

text \<open>\<open>Observe\<close>: memory in MB, disk in GB; an empty list of CPU figures is an index out of range (\<open>None\<close>).\<close>

definition observe :: "host \<Rightarrow> (observe_error + system_state) option" where
  "observe h =
     (case ho_cpu h of Inl e \<Rightarrow> Some (Inl (ObsCpu e))
      | Inr cpu \<Rightarrow> (case ho_mem h of Inl e \<Rightarrow> Some (Inl (ObsMem e))
      | Inr (memTotal, memUsed, memPct) \<Rightarrow>
          (case (case ho_swap h of Some (t, u, p) \<Rightarrow> (t div 1024 div 1024, u div 1024 div 1024, p) | None \<Rightarrow> (0, 0, Fin 0)) of
             (swapTotal, swapUsed, swapPct) \<Rightarrow>
          (case read_load_avg h of (l1, l5, l15) \<Rightarrow>
          (case ho_disk h of Inl e \<Rightarrow> Some (Inl (ObsDisk e))
           | Inr (diskTotal, diskUsed, diskPct) \<Rightarrow>
              (case cpu of [] \<Rightarrow> None
               | pct # _ \<Rightarrow> Some (Inr
                  \<lparr>ss_Timestamp = ho_now h, ss_CPUPercent = pct,
                   ss_MemTotal = memTotal div 1024 div 1024, ss_MemUsed = memUsed div 1024 div 1024,
                   ss_MemPercent = memPct, ss_SwapTotal = swapTotal, ss_SwapUsed = swapUsed, ss_SwapPercent = swapPct,
                   ss_DiskTotal = diskTotal div 1024 div 1024 div 1024,
                   ss_DiskUsed = diskUsed div 1024 div 1024 div 1024, ss_DiskPercent = diskPct,
                   ss_NetRecvMBps = Fin 0, ss_NetSentMBps = Fin 0,
                   ss_LoadAvg1 = l1, ss_LoadAvg5 = l5, ss_LoadAvg15 = l15,
                   ss_TopProcs = top_processes (ho_sort h) (ho_procs h) top_n\<rparr>)))))))"

text \<open>\<open>ObserveWithContext\<close> measures the CPU in a goroutine and gives up when the context ends first.\<close>

definition observe_with_context :: "host \<Rightarrow> (observe_error + system_state) option" where
  "observe_with_context h = (if ho_cancelled h then Some (Inl ObsCancelled) else observe h)"

section \<open>Facts\<close>

definition by_memory :: "proc_info \<Rightarrow> proc_info \<Rightarrow> bool" where
  "by_memory p q \<longleftrightarrow> pi_MemMB q \<le> pi_MemMB p"

definition proc_sorter :: "(proc_info list \<Rightarrow> proc_info list) \<Rightarrow> bool" where
  "proc_sorter srt \<longleftrightarrow> (\<forall>xs. mset (srt xs) = mset xs \<and> sorted_wrt by_memory (srt xs))"

lemma top_processes_spec:
  assumes "proc_sorter srt" "tops = top_processes srt (Some ps) n"
  shows "length tops = min n (length (collect_procs ps))" "sorted_wrt by_memory tops"
    and "\<exists>rest. mset (collect_procs ps) = mset tops + mset rest \<and> (\<forall>p\<in>set tops. \<forall>q\<in>set rest. by_memory p q)"
proof -
  let ?s = "srt (collect_procs ps)"
  have t: "tops = take n ?s" using assms(2) by (simp add: top_processes_def Let_def)
  have m: "mset ?s = mset (collect_procs ps)" and srt: "sorted_wrt by_memory ?s"
    using assms(1) by (simp_all add: proc_sorter_def)
  show "length tops = min n (length (collect_procs ps))" using m t by (metis length_take min.commute size_mset)
  show "sorted_wrt by_memory tops" using srt t by (simp add: sorted_wrt_take)
  have "sorted_wrt by_memory (take n ?s @ drop n ?s)" using srt by simp
  then have "\<forall>p\<in>set tops. \<forall>q\<in>set (drop n ?s). by_memory p q" unfolding sorted_wrt_append t by blast
  moreover have "mset (collect_procs ps) = mset tops + mset (drop n ?s)"
    by (metis m t append_take_drop_id mset_append)
  ultimately show "\<exists>rest. mset (collect_procs ps) = mset tops + mset rest \<and> (\<forall>p\<in>set tops. \<forall>q\<in>set rest. by_memory p q)"
    by blast
qed

lemma rnd_nonneg_le: "0 \<le> q \<Longrightarrow> f_le (Fin 0) (rnd q)"
  using rnd_mono [of 0 q] by simp

lemma f_div_nonneg:
  assumes "f_le (Fin 0) x" "f_gt y (Fin 0)" "is_fin y"
  shows "f_le (Fin 0) (f_div x y)"
  using assms by (cases x; cases y) (auto intro!: rnd_nonneg_le simp: f_inf_def)

lemma f_of_u64_nonneg [simp]: "f_le (Fin 0) (f_of_u64 w)"
proof -
  have "(0::rat) \<le> of_int (uint w)" by (simp only: of_int_0_le_iff) simp
  then show ?thesis unfolding f_of_u64_def by (rule rnd_nonneg_le)
qed

lemma rate_of_nonneg: "f_gt e (Fin 0) \<Longrightarrow> is_fin e \<Longrightarrow> f_le (Fin 0) (rate_of w e)"
  unfolding rate_of_def by (intro f_div_nonneg) simp_all

lemma delta_mbps_nonneg:
  assumes "is_fin e" "(r, s) = delta_mbps prev cur e"
  shows "f_le (Fin 0) r \<and> f_le (Fin 0) s"
proof (cases "f_le e (Fin 0)")
  case True
  then show ?thesis using assms(2) by (simp add: delta_mbps_def)
next
  case False
  then have "f_gt e (Fin 0)" using assms(1) by (cases e) auto
  then show ?thesis using assms rate_of_nonneg by (auto simp: delta_mbps_def split: if_splits)
qed

end
