(* ===== verification/JX_Scheduler.thy ===== *)
theory JX_Scheduler
  imports JX_Observe JX_Orchestrator
begin

text \<open>
  The scheduler (\<open>runtime/core/scheduler.go\<close>) and the command line that changes its interval
  (\<open>runtime/core/cli.go\<close>). One tick is one transition of the loop: it takes up a new interval, observes the
  host and gives the events it publishes. \<open>time.NewTicker\<close> panics when the interval is not positive, and a
  panic of this goroutine ends the process.
\<close>

section \<open>The scheduler\<close>

record scheduler =
  sd_interval :: duration

definition new_scheduler :: "duration \<Rightarrow> scheduler" where
  "new_scheduler interval = \<lparr>sd_interval = interval\<rparr>"

definition set_interval :: "duration \<Rightarrow> scheduler \<Rightarrow> scheduler" where
  "set_interval d s = s\<lparr>sd_interval := d\<rparr>"

record sched_loop =
  lp_interval :: duration
  lp_prevNet :: net_counters
  lp_hasNet :: bool
  lp_prevNetAt :: time

definition no_counters :: net_counters where
  "no_counters = \<lparr>nc_Recv = 0, nc_Sent = 0\<rparr>"

text \<open>The start of the loop, up to the first tick; \<open>None\<close> is the panic.\<close>

definition start_loop :: "net_counters list option \<Rightarrow> time \<Rightarrow> scheduler \<Rightarrow> sched_loop option" where
  "start_loop net now s =
     (if sd_interval s \<le> 0 then None
      else Some \<lparr>lp_interval = sd_interval s,
             lp_prevNet = (case read_net_counters net of Some n \<Rightarrow> n | None \<Rightarrow> no_counters),
             lp_hasNet = (read_net_counters net \<noteq> None), lp_prevNetAt = now\<rparr>)"

definition to_mem_proc_infos :: "proc_info list \<Rightarrow> proc_info list" where
  "to_mem_proc_infos procs =
     (if procs = [] then []
      else map (\<lambda>p. \<lparr>pi_PID = pi_PID p, pi_Name = pi_Name p, pi_MemMB = pi_MemMB p\<rparr>) procs)"

definition snapshot_of :: "system_state \<Rightarrow> snapshot" where
  "snapshot_of st =
     \<lparr>sn_Timestamp = ss_Timestamp st, sn_CPUPercent = ss_CPUPercent st, sn_MemUsed = ss_MemUsed st,
      sn_MemTotal = ss_MemTotal st, sn_MemPercent = ss_MemPercent st, sn_SwapUsed = ss_SwapUsed st,
      sn_SwapTotal = ss_SwapTotal st, sn_SwapPercent = ss_SwapPercent st, sn_DiskUsed = ss_DiskUsed st,
      sn_DiskTotal = ss_DiskTotal st, sn_DiskPercent = ss_DiskPercent st,
      sn_NetRecvMBps = ss_NetRecvMBps st, sn_NetSentMBps = ss_NetSentMBps st, sn_LoadAvg1 = ss_LoadAvg1 st,
      sn_LoadAvg5 = ss_LoadAvg5 st, sn_LoadAvg15 = ss_LoadAvg15 st,
      sn_TopProcs = to_mem_proc_infos (ss_TopProcs st)\<rparr>"

text \<open>What a tick meets: the host, the counters, and the clock at its two reads.\<close>

record tick_env =
  tk_host :: host
  tk_net :: "net_counters list option"
  tk_since :: time
  tk_now :: time

datatype tick_end = TickPanic | TickStop | TickNext sched_loop "event list"

definition net_step :: "tick_env \<Rightarrow> sched_loop \<Rightarrow> system_state \<Rightarrow> system_state \<times> sched_loop" where
  "net_step env lp st =
     (let elapsed = in_units second (time_sub (tk_since env) (lp_prevNetAt lp)) in
      case read_net_counters (tk_net env) of
        Some cur \<Rightarrow>
          ((if lp_hasNet lp
            then (case delta_mbps (lp_prevNet lp) cur elapsed of (r, s) \<Rightarrow> st\<lparr>ss_NetRecvMBps := r, ss_NetSentMBps := s\<rparr>)
            else st),
           lp\<lparr>lp_prevNet := cur, lp_hasNet := True, lp_prevNetAt := tk_now env\<rparr>)
      | None \<Rightarrow> (st, lp\<lparr>lp_prevNetAt := tk_now env\<rparr>))"

definition sched_tick :: "tick_env \<Rightarrow> scheduler \<Rightarrow> sched_loop \<Rightarrow> tick_end" where
  "sched_tick env s lp0 =
     (if sd_interval s \<noteq> lp_interval lp0 \<and> sd_interval s \<le> 0 then TickPanic
      else
        let lp = lp0\<lparr>lp_interval := sd_interval s\<rparr> in
        case observe_with_context (tk_host env) of
          None \<Rightarrow> TickPanic
        | Some (Inl e) \<Rightarrow>
            if ho_cancelled (tk_host env) then TickStop
            else TickNext lp [\<lparr>ev_Type = EventError, ev_Payload = PText (''observe: '' @ observe_text e)\<rparr>]
        | Some (Inr st) \<Rightarrow>
            (case net_step env lp st of (st', lp') \<Rightarrow>
               TickNext lp' [\<lparr>ev_Type = EventObserved, ev_Payload = PSnapshot (snapshot_of st')\<rparr>]))"

text \<open>A run of ticks, with the interval the scheduler has at each of them; it ends with a panic or a stop.\<close>

fun sched_run :: "(tick_env \<times> scheduler) list \<Rightarrow> sched_loop \<Rightarrow> event list \<times> bool" where
  "sched_run [] lp = ([], False)"
| "sched_run ((env, s) # ts) lp =
     (case sched_tick env s lp of
        TickPanic \<Rightarrow> ([], True)
      | TickStop \<Rightarrow> ([], False)
      | TickNext lp' evs \<Rightarrow> (case sched_run ts lp' of (es, p) \<Rightarrow> (evs @ es, p)))"

section \<open>The command line\<close>

datatype cli_output =
    CliSilent
  | CliHelp
  | CliStatus snapshot
  | CliHistory "snapshot list"
  | CliInterval duration
  | CliIntervalSet int
  | CliClear
  | CliWarn string
  | CliPanic

definition cmd_status :: "store \<Rightarrow> cli_output" where
  "cmd_status st =
     (case store_last 1 st of
        None \<Rightarrow> CliPanic
      | Some [] \<Rightarrow> CliWarn ''Aucune observation disponible''
      | Some (s # _) \<Rightarrow> CliStatus s)"

definition cmd_history :: "string list \<Rightarrow> store \<Rightarrow> cli_output" where
  "cmd_history args st =
     (case (case args of [] \<Rightarrow> Some 5
            | a # _ \<Rightarrow> (case atoi a of Some n \<Rightarrow> if n < 1 then None else Some n | None \<Rightarrow> None)) of
        None \<Rightarrow> CliWarn ''Usage : history [nombre]''
      | Some n \<Rightarrow>
          (case store_last n st of
             None \<Rightarrow> CliPanic
           | Some snaps \<Rightarrow> if snaps = [] then CliWarn ''Aucun historique disponible'' else CliHistory snaps))"

definition cmd_interval :: "string list \<Rightarrow> scheduler \<Rightarrow> scheduler \<times> cli_output" where
  "cmd_interval args s =
     (case args of
        [] \<Rightarrow> (s, CliInterval (sd_interval s))
      | a # _ \<Rightarrow>
          (case atoi a of
             None \<Rightarrow> (s, CliWarn ''Minimum 5 secondes'')
           | Some secs \<Rightarrow>
               if secs < 5 then (s, CliWarn ''Minimum 5 secondes'')
               else (set_interval (wrap64 (secs * second)) s, CliIntervalSet secs)))"

definition cli_line :: "store \<Rightarrow> string \<Rightarrow> scheduler \<Rightarrow> scheduler \<times> cli_output" where
  "cli_line st text s =
     (let line = trim_space text in
      if line = [] then (s, CliSilent)
      else case JX_Strings.fields line of
        [] \<Rightarrow> (s, CliPanic)
      | cmd # args \<Rightarrow>
          if cmd = ''help'' then (s, CliHelp)
          else if cmd = ''status'' then (s, cmd_status st)
          else if cmd = ''history'' then (s, cmd_history args st)
          else if cmd = ''interval'' then cmd_interval args s
          else if cmd = ''clear'' then (s, CliClear)
          else (s, CliWarn (''Commande inconnue : '' @ [CHR 0x27] @ cmd @ [CHR 0x27] @ '' '' @ em_dash @ '' tape ''
                 @ [CHR 0x27] @ ''help'' @ [CHR 0x27])))"

section \<open>Facts\<close>

lemma to_mem_proc_infos_id [simp]: "to_mem_proc_infos ps = ps"
  by (simp add: to_mem_proc_infos_def map_idI)

definition event_sane :: "event \<Rightarrow> bool" where
  "event_sane e =
     (case ev_Payload e of
        PSnapshot s \<Rightarrow> ev_Type e = EventObserved \<and> f_le (Fin 0) (sn_NetRecvMBps s) \<and> f_le (Fin 0) (sn_NetSentMBps s)
          \<and> length (sn_TopProcs s) \<le> 5 \<and> sorted_wrt by_memory (sn_TopProcs s)
      | PText t \<Rightarrow> ev_Type e = EventError \<and> prefix ''observe: '' t
      | _ \<Rightarrow> False)"

lemma observe_procs:
  assumes "observe h = Some (Inr st)" "proc_sorter (ho_sort h)"
  shows "length (ss_TopProcs st) \<le> 5 \<and> sorted_wrt by_memory (ss_TopProcs st)
    \<and> ss_NetRecvMBps st = Fin 0 \<and> ss_NetSentMBps st = Fin 0"
proof -
  have "length (top_processes (ho_sort h) (ho_procs h) top_n) \<le> 5
      \<and> sorted_wrt by_memory (top_processes (ho_sort h) (ho_procs h) top_n)"
    using top_processes_spec [OF assms(2) refl] by (cases "ho_procs h") (simp_all add: top_processes_def top_n_def)
  then show ?thesis
    using assms(1) by (auto simp: observe_def split: sum.splits option.splits prod.splits list.splits)
qed

lemma net_step_rates:
  assumes "net_step env lp st = (st', lp')" "ss_NetRecvMBps st = Fin 0" "ss_NetSentMBps st = Fin 0"
  shows "f_le (Fin 0) (ss_NetRecvMBps st') \<and> f_le (Fin 0) (ss_NetSentMBps st') \<and> ss_TopProcs st' = ss_TopProcs st
    \<and> lp_interval lp' = lp_interval lp"
proof -
  let ?e = "in_units second (time_sub (tk_since env) (lp_prevNetAt lp))"
  have "is_fin ?e" by (rule is_fin_seconds) (auto simp: time_sub_def max_duration_def min_duration_def)
  then have "f_le (Fin 0) r \<and> f_le (Fin 0) s" if "delta_mbps (lp_prevNet lp) cur ?e = (r, s)" for cur r s
    using delta_mbps_nonneg that by metis
  then show ?thesis
    using assms by (auto simp: net_step_def Let_def split: option.splits if_splits prod.splits)
qed

lemma sched_tick_sane:
  assumes "sched_tick env s lp = TickNext lp' evs" "proc_sorter (ho_sort (tk_host env))"
  shows "\<exists>e. evs = [e] \<and> event_sane e \<and> lp_interval lp' = sd_interval s"
proof -
  from assms(1) consider e where "evs = [\<lparr>ev_Type = EventError, ev_Payload = PText (''observe: '' @ observe_text e)\<rparr>]"
      "lp_interval lp' = sd_interval s"
    | st st' where "observe (tk_host env) = Some (Inr st)"
        "net_step env (lp\<lparr>lp_interval := sd_interval s\<rparr>) st = (st', lp')"
        "evs = [\<lparr>ev_Type = EventObserved, ev_Payload = PSnapshot (snapshot_of st')\<rparr>]"
    by (auto simp: sched_tick_def observe_with_context_def Let_def split: if_splits option.splits sum.splits prod.splits)
  then show ?thesis
  proof cases
    case 1 then show ?thesis by (simp add: event_sane_def)
  next
    case 2
    with observe_procs [OF 2(1) assms(2)] net_step_rates [OF 2(2)] show ?thesis
      by (simp add: event_sane_def snapshot_of_def)
  qed
qed

lemma sched_tick_panic:
  "sched_tick env s lp = TickPanic \<Longrightarrow> sd_interval s \<le> 0 \<or> ho_cpu (tk_host env) = Inr []"
  by (auto simp: sched_tick_def observe_with_context_def observe_def Let_def
      split: if_splits option.splits sum.splits prod.splits list.splits)

section \<open>Properties\<close>

text \<open>C27: what the scheduler publishes. In any run of ticks, whatever the host answers and whatever the clock and
  the counters do, each tick publishes at most one event: an error, or a snapshot whose network rates are
  not negative and not NaN (a reset of the counters gives zero) and whose processes are at most five in
  decreasing memory; and the run ends in a panic only if an interval was not positive or the host gave
  no CPU figure at all.\<close>
theorem scheduler_publishes_sane_events:
  assumes "sched_run ticks lp = (evs, crashed)"
    and "\<And>t. t \<in> set ticks \<Longrightarrow> proc_sorter (ho_sort (tk_host (fst t)))"
  shows "length evs \<le> length ticks \<and> (\<forall>e\<in>set evs. event_sane e)
     \<and> (crashed \<longrightarrow> (\<exists>(env, s)\<in>set ticks. sd_interval s \<le> 0 \<or> ho_cpu (tk_host env) = Inr []))"
  using assms
proof (induction ticks arbitrary: lp evs crashed)
  case (Cons t ts)
  obtain env s where t: "t = (env, s)" by (cases t)
  have srt: "proc_sorter (ho_sort (tk_host env))" using Cons.prems(2) [of t] t by simp
  show ?case
  proof (cases "sched_tick env s lp")
    case TickPanic
    with Cons.prems(1) sched_tick_panic [OF TickPanic] show ?thesis by (auto simp: t)
  next
    case TickStop
    with Cons.prems(1) show ?thesis by (auto simp: t)
  next
    case (TickNext lp' es)
    obtain es' where r: "sched_run ts lp' = (es', crashed)" and evs: "evs = es @ es'"
      using Cons.prems(1) TickNext by (auto simp: t split: prod.splits)
    obtain e where "es = [e]" "event_sane e" using sched_tick_sane [OF TickNext srt] by blast
    moreover have "length es' \<le> length ts \<and> (\<forall>e\<in>set es'. event_sane e)
       \<and> (crashed \<longrightarrow> (\<exists>(env, s)\<in>set ts. sd_interval s \<le> 0 \<or> ho_cpu (tk_host env) = Inr []))"
      using Cons.IH [OF r] Cons.prems(2) by simp
    ultimately show ?thesis by (auto simp: evs)
  qed
qed simp

definition sample_host :: "f64 list \<Rightarrow> host" where
  "sample_host cpu =
     \<lparr>ho_cancelled = False, ho_cpu = Inr cpu, ho_mem = Inr (8589934592, 4294967296, Fin 50), ho_swap = None,
      ho_load = None, ho_disk = Inr (1099511627776, 549755813888, Fin 50), ho_procs = None,
      ho_sort = sort_key (\<lambda>p. - uint (pi_MemMB p)), ho_now = 0\<rparr>"

lemma sample_host_sorter: "proc_sorter (ho_sort (sample_host cpu))"
proof -
  have le: "by_memory = (\<lambda>p q. uint (pi_MemMB q) \<le> uint (pi_MemMB p))"
    by (intro ext) (simp only: by_memory_def word_le_def)
  have "sorted_wrt by_memory (sort_key (\<lambda>p. - uint (pi_MemMB p)) xs)" for xs :: "proc_info list"
    using sorted_sort_key [of "\<lambda>p. - uint (pi_MemMB p)" xs]
    by (simp add: sorted_wrt_map le)
  then show ?thesis by (simp add: proc_sorter_def sample_host_def)
qed

definition sample_tick :: "f64 list \<Rightarrow> tick_env" where
  "sample_tick cpu = \<lparr>tk_host = sample_host cpu, tk_net = None, tk_since = 0, tk_now = 0\<rparr>"

definition sample_loop :: sched_loop where
  "sample_loop = \<lparr>lp_interval = 15 * second, lp_prevNet = no_counters, lp_hasNet = False, lp_prevNetAt = 0\<rparr>"

theorem scheduler_publishes_sane_events_witness:
  "list_all event_sane (fst (sched_run [(sample_tick [Fin 12], new_scheduler (15 * second)), (sample_tick [], new_scheduler second)] sample_loop))"
proof -
  let ?ts = "[(sample_tick [Fin 12], new_scheduler (15 * second)), (sample_tick [], new_scheduler second)]"
  obtain evs crashed where r: "sched_run ?ts sample_loop = (evs, crashed)" by fastforce
  have "proc_sorter (ho_sort (tk_host (fst t)))" if "t \<in> set ?ts" for t
    using that sample_host_sorter by (auto simp: sample_tick_def)
  then have "list_all event_sane evs" using scheduler_publishes_sane_events [OF r] by (simp add: list_all_iff)
  then show ?thesis by (simp only: r fst_conv)
qed

text \<open>C39: the interval command. An interval below 5 seconds changes nothing; one from 5 to 9223372036 seconds is
  taken up exactly, and the next tick does not panic on it; beyond that the product with a second wraps
  around, and when the wrapped interval is not positive the next tick of a running scheduler panics.\<close>
theorem interval_command:
  assumes "trim_space text \<noteq> []" "JX_Strings.fields (trim_space text) = ''interval'' # a # rest" "atoi a = Some n"
    and "cli_line st text s = (s', out)"
  shows "(n < 5 \<longrightarrow> s' = s)
     \<and> (5 \<le> n \<and> n \<le> 9223372036 \<longrightarrow> sd_interval s' = n * second \<and> out = CliIntervalSet n
          \<and> (\<forall>env lp. ho_cpu (tk_host env) \<noteq> Inr [] \<longrightarrow> sched_tick env s' lp \<noteq> TickPanic))
     \<and> (9223372036 < n \<longrightarrow> sd_interval s' = wrap64 (n * second)
          \<and> (wrap64 (n * second) \<le> 0 \<longrightarrow> (\<forall>env lp. 0 < lp_interval lp \<longrightarrow> sched_tick env s' lp = TickPanic)))"
proof -
  have s': "(s', out) = (if n < 5 then (s, CliWarn ''Minimum 5 secondes'')
      else (set_interval (wrap64 (n * second)) s, CliIntervalSet n))"
    using assms by (simp add: cli_line_def cmd_interval_def)
  have small: "wrap64 (n * second) = n * second" if "5 \<le> n" "n \<le> 9223372036"
    using that by (intro wrap64_id) auto
  have ok: "sched_tick env s' lp \<noteq> TickPanic" if "5 \<le> n" "n \<le> 9223372036" "ho_cpu (tk_host env) \<noteq> Inr []" for env lp
    using sched_tick_panic [of env s' lp] that s' small by (auto simp: set_interval_def)
  have bad: "sched_tick env s' lp = TickPanic"
    if "9223372036 < n" "wrap64 (n * second) \<le> 0" "0 < lp_interval lp" for env lp
    using that s' by (simp add: sched_tick_def set_interval_def)
  show ?thesis using s' small ok bad by (auto simp: set_interval_def)
qed

theorem interval_command_witness:
  "sd_interval (fst (cli_line SNoop ''interval 10'' (new_scheduler (15 * second)))) = 10 * second
   \<and> (\<forall>env. sched_tick env (fst (cli_line SNoop ''interval 9223372037'' (new_scheduler (15 * second)))) sample_loop = TickPanic)"
proof -
  have f1: "trim_space ''interval 10'' = ''interval 10''" "JX_Strings.fields ''interval 10'' = [''interval'', ''10'']"
    "atoi ''10'' = Some 10" by code_simp+
  have f2: "trim_space ''interval 9223372037'' = ''interval 9223372037''"
    "JX_Strings.fields ''interval 9223372037'' = [''interval'', ''9223372037'']"
    "atoi ''9223372037'' = Some 9223372037" by code_simp+
  have w: "wrap64 (9223372037 * second) \<le> 0" by (simp add: wrap64_def)
  show ?thesis
    using interval_command [of "''interval 10''" "''10''" "[]" 10, OF _ _ _ prod.collapse [symmetric]]
      interval_command [of "''interval 9223372037''" "''9223372037''" "[]" 9223372037, OF _ _ _ prod.collapse [symmetric]]
      f1 f2 w by (simp add: sample_loop_def)
qed

end
