(* ===== verification/JX_Runtime.thy ===== *)
theory JX_Runtime
  imports JX_Bus JX_Database JX_Web JX_Scheduler JX_System JX_Files JX_Qdrant
begin

text \<open>
  The wiring: \<open>NewRuntime\<close> of \<open>runtime/core/runtime.go\<close> and \<open>main\<close> of \<open>runtime/cmd/main.go\<close>. A runtime is the
  record of the components it builds from a configuration; the goroutines \<open>Start\<close> launches are the steps of
  the components (the scheduler's ticks, the orchestrator's events, the agents' runs, the report's ticks,
  the requests). Opening the database, reading the state file, the clock, the random instance id and the
  health request are the environment.
\<close>

section \<open>NewRuntime\<close>

record runtime_env =
  re_now :: time
  re_readFile :: "string \<Rightarrow> string option"
  re_files :: filesystem
  re_driver :: "string \<Rightarrow> sql_driver"
  re_engine :: sql_engine
  re_instanceID :: string

record runtime =
  rt_cfg :: config
  rt_bus :: "event bus"
  rt_scheduler :: scheduler
  rt_orchestrator :: orchestrator
  rt_registry :: registry
  rt_system :: system_agent
  rt_alert :: alert_agent
  rt_docker :: "docker_agent option"
  rt_file :: "file_agent option"
  rt_qdrant :: "qdrant_agent option"
  rt_dispatcher :: dispatcher
  rt_daily :: "daily_reporter option"
  rt_alertLogger :: logger
  rt_web :: server
  rt_sqlite :: "sqlite_store option"

text \<open>The database is optional; when it cannot be opened the second store is the one that does nothing.\<close>

definition open_store :: "runtime_env \<Rightarrow> config \<Rightarrow> store \<times> sqlite_store option" where
  "open_store env cfg =
     (let state = new_state decode_state (re_readFile env) (cf_StateFile cfg) in
      if cf_SQLitePath cfg = [] then (SJson state, None)
      else (case open_sqlite (re_driver env (cf_SQLitePath cfg)) of
          Inl _ \<Rightarrow> (SDouble (SJson state) SNoop, None)
        | Inr sq \<Rightarrow> (SDouble (SJson state) (SSqlite sq), Some sq)))"

definition build_dispatcher :: "config \<Rightarrow> dispatcher" where
  "build_dispatcher cfg =
     (let d0 = new_dispatcher (cf_DryRun cfg);
          d1 = (if cf_DiscordWebhook cfg \<noteq> [] then dp_register (DiscordNotifier (cf_DiscordWebhook cfg)) d0 else d0);
          d2 = (if cf_SlackWebhook cfg \<noteq> [] then dp_register (SlackNotifier (cf_SlackWebhook cfg)) d1 else d1);
          d3 = (if cf_GotifyURL cfg \<noteq> [] \<and> cf_GotifyToken cfg \<noteq> []
                then dp_register (GotifyNotifier (cf_GotifyURL cfg) (cf_GotifyToken cfg)) d2 else d2)
      in if cf_NtfyTopic cfg \<noteq> [] then dp_register (NtfyNotifier (cf_NtfyURL cfg) (cf_NtfyTopic cfg)) d3 else d3)"

definition slot_of :: "base_agent \<Rightarrow> agent_slot" where
  "slot_of b = \<lparr>sl_base = b, sl_circuit = None\<rparr>"

definition history_of :: "sql_engine \<Rightarrow> sqlite_store \<Rightarrow> (time \<Rightarrow> int \<Rightarrow> snapshot_bucket list) \<times> (time \<Rightarrow> int)" where
  "history_of eng sq = (\<lambda>from_t h. snapshot_buckets eng from_t h sq, \<lambda>from_t. total_snapshots from_t sq)"

definition new_runtime :: "runtime_env \<Rightarrow> config \<Rightarrow> runtime" where
  "new_runtime env cfg =
     (case open_store env cfg of (store, sqlite) \<Rightarrow>
        let state = new_state decode_state (re_readFile env) (cf_StateFile cfg);
            logger = new_logger_with_rotation (cf_LogFile cfg) (cf_LogMaxSizeBytes cfg) (cf_LogMaxBackups cfg);
            alertLogger = new_logger_with_rotation (cf_AlertFile cfg) (cf_AlertMaxSizeBytes cfg) (cf_AlertMaxBackups cfg);
            disp = build_dispatcher cfg;
            sys = new_system_agent (cf_OllamaURL cfg) (cf_Model cfg) (cf_CPUAlertThreshold cfg)
                    (cf_RAMAlertThreshold cfg) (cf_DiskAlertThreshold cfg);
            al = new_alert_agent (cf_CPUAlertThreshold cfg) (cf_RAMAlertThreshold cfg) (cf_DiskAlertThreshold cfg)
                   (cf_AlertMinCycles cfg) (cf_AlertCooldown cfg) (cf_AlertFile cfg) disp;
            dk = (if cf_DockerEnabled cfg then Some (new_docker_agent (cf_DryRun cfg) (cf_DockerWatchList cfg)) else None);
            fl = (if cf_FileEnabled cfg \<and> 0 < length (cf_FileWatchPaths cfg)
                  then Some (new_file_agent (cf_FileWatchPaths cfg) (cf_FileMaxSizeMB cfg) (cf_DryRun cfg)) else None);
            qd = (if cf_QdrantURL cfg \<noteq> [] then Some (new_qdrant_agent (cf_QdrantURL cfg) (re_instanceID env)) else None);
            reg = registry_register \<lparr>sl_base = sa_base sys, sl_circuit = Some (sa_circuit sys)\<rparr> [];
            reg = registry_register (slot_of (aa_base al)) reg;
            reg = (case dk of None \<Rightarrow> reg | Some a \<Rightarrow> registry_register (slot_of (da_base a)) reg);
            reg = (case fl of None \<Rightarrow> reg | Some a \<Rightarrow> registry_register (slot_of (fa_base a)) reg);
            reg = (case qd of None \<Rightarrow> reg | Some a \<Rightarrow> registry_register (slot_of (qa_base a)) reg);
            oc = new_orchestrator store logger (re_files env) (cf_DryRun cfg) (cf_ExecCooldown cfg);
            daily = (if cf_DailyReportEnabled cfg
                     then Some (new_daily_reporter disp (cf_DailyReportHour cfg) (cf_DailyReportMinute cfg) (cf_DryRun cfg))
                     else None)
        in \<lparr>rt_cfg = cfg, rt_bus = new_bus 10, rt_scheduler = new_scheduler (cf_Interval cfg), rt_orchestrator = oc,
            rt_registry = reg, rt_system = sys, rt_alert = al, rt_docker = dk, rt_file = fl, rt_qdrant = qd,
            rt_dispatcher = disp, rt_daily = daily, rt_alertLogger = alertLogger,
            rt_web = new_server (re_now env) cfg state reg (Some logger) (Some alertLogger) daily (Some oc)
                       (map_option (history_of (re_engine env)) sqlite),
            rt_sqlite = sqlite\<rparr>)"

section \<open>main\<close>

definition load_config :: "parsers \<Rightarrow> string list option \<Rightarrow> environ \<Rightarrow> bool \<Rightarrow> config" where
  "load_config pa env_file environ dryRunFlag =
     (let cfg = from_env pa (load_env env_file environ) default_config
      in if dryRunFlag then cfg\<lparr>cf_DryRun := True\<rparr> else cfg)"

datatype main_end = ExitConfig "string list" | ExitOllama | Running runtime

definition main ::
  "parsers \<Rightarrow> string list option \<Rightarrow> environ \<Rightarrow> bool \<Rightarrow> http_result \<Rightarrow> runtime_env \<Rightarrow> main_end" where
  "main pa env_file environ dryRunFlag tags env =
     (let cfg = load_config pa env_file environ dryRunFlag in
      if validate pa cfg \<noteq> [] then ExitConfig (validate pa cfg)
      else if \<not> hs_Online (check_ollama (cf_OllamaURL cfg) (cf_Model cfg) tags) then ExitOllama
      else Running (new_runtime env cfg))"

section \<open>Runs of the components\<close>

text \<open>Observations handled one after the other; between them the agents may write anything to the store.\<close>

fun observe_run ::
  "(observe_env \<times> snapshot \<times> store) list \<Rightarrow> orchestrator \<Rightarrow> orchestrator \<times> event list \<times> command_spec list" where
  "observe_run [] oc = (oc, [], [])"
| "observe_run ((env, snap, st) # obs) oc =
     (case handle_observed env snap (oc\<lparr>oc_state := st\<rparr>) of (oc1, evs, started) \<Rightarrow>
        (case observe_run obs oc1 of (oc2, evs', started') \<Rightarrow> (oc2, evs @ evs', started @ started')))"

fun alert_runs :: "alert_env list \<Rightarrow> alert_agent \<times> filesystem \<Rightarrow> delivery list" where
  "alert_runs [] s = []"
| "alert_runs (env # envs) s = (case alert_run env s of (s', ds) \<Rightarrow> ds @ alert_runs envs s')"

fun daily_ticks :: "daily_env list \<Rightarrow> daily_reporter \<Rightarrow> delivery list" where
  "daily_ticks [] r = []"
| "daily_ticks (env # envs) r = (case daily_tick env r of (r', ds, sent) \<Rightarrow> ds @ daily_ticks envs r')"

section \<open>Facts\<close>

lemma handle_observed_dry:
  assumes "oc_dryRun oc" "handle_observed env snap oc = (oc', evs, started)"
  shows "oc_dryRun oc' \<and> evs = [] \<and> started = []"
  using assms
  by (auto simp: handle_observed_def run_command_def Let_def split: if_splits option.splits list.splits prod.splits bool.splits)

lemma observe_run_dry: "oc_dryRun oc \<Longrightarrow> snd (observe_run obs oc) = ([], [])"
proof (induction obs arbitrary: oc)
  case (Cons ob obs)
  obtain env snap st where ob: "ob = (env, snap, st)" by (cases ob)
  obtain oc1 evs started where h: "handle_observed env snap (oc\<lparr>oc_state := st\<rparr>) = (oc1, evs, started)"
    by (metis prod.collapse)
  from handle_observed_dry [OF _ h] Cons.prems have d: "oc_dryRun oc1" "evs = []" "started = []" by simp_all
  from Cons.IH [OF d(1)] show ?case by (simp add: ob h d split: prod.splits)
qed simp

lemma analyze_dispatcher [simp]: "aa_dispatcher (fst (analyze snap a)) = aa_dispatcher a"
  by (simp add: analyze_def Let_def split: prod.split)

lemma dispatch_dry: "dp_dryRun d \<Longrightarrow> x \<in> set (dispatch f send d al) \<Longrightarrow> \<exists>n. x = Simulated n"
  by (auto simp: dispatch_def)

lemma alert_run_dry:
  assumes "dp_dryRun (aa_dispatcher (fst s))" "alert_run env s = (s', ds)"
  shows "dp_dryRun (aa_dispatcher (fst s')) \<and> (\<forall>x\<in>set ds. \<exists>n. x = Simulated n)"
proof -
  obtain a als where an: "analyze (ae_snapshot env) (fst s) = (a, als)" by fastforce
  have "aa_dispatcher a = aa_dispatcher (fst s)" using analyze_dispatcher [of "ae_snapshot env" "fst s"] an by simp
  with assms an show ?thesis
    by (auto simp: alert_run_def dispatch_alerts_def dest: dispatch_dry split: if_splits)
qed

lemma alert_runs_dry:
  "dp_dryRun (aa_dispatcher (fst s)) \<Longrightarrow> x \<in> set (alert_runs envs s) \<Longrightarrow> \<exists>n. x = Simulated n"
proof (induction envs arbitrary: s)
  case (Cons env envs)
  obtain s' ds where r: "alert_run env s = (s', ds)" by fastforce
  with alert_run_dry [OF Cons.prems(1) r] Cons.IH [of s'] Cons.prems(2) show ?case by auto
qed simp

lemma daily_ticks_dry: "dr_dryRun r \<Longrightarrow> daily_ticks envs r = []"
proof (induction envs arbitrary: r)
  case (Cons env envs)
  obtain r' ds sent where t: "daily_tick env r = (r', ds, sent)" by (metis prod.collapse)
  with Cons.prems have "dr_dryRun r' \<and> ds = []"
    by (auto simp: daily_tick_def daily_send_def Let_def split: if_splits)
  with Cons.IH t show ?case by simp
qed simp

lemma build_dispatcher_dry [simp]: "dp_dryRun (build_dispatcher cfg) = cf_DryRun cfg"
  by (simp add: build_dispatcher_def new_dispatcher_def dp_register_def Let_def)

lemma new_runtime_parts:
  "rt_cfg (new_runtime env cfg) = cfg"
  "rt_bus (new_runtime env cfg) = new_bus 10"
  "rt_scheduler (new_runtime env cfg) = new_scheduler (cf_Interval cfg)"
  "rt_system (new_runtime env cfg) =
     new_system_agent (cf_OllamaURL cfg) (cf_Model cfg) (cf_CPUAlertThreshold cfg) (cf_RAMAlertThreshold cfg) (cf_DiskAlertThreshold cfg)"
  "rt_alert (new_runtime env cfg) =
     new_alert_agent (cf_CPUAlertThreshold cfg) (cf_RAMAlertThreshold cfg) (cf_DiskAlertThreshold cfg)
       (cf_AlertMinCycles cfg) (cf_AlertCooldown cfg) (cf_AlertFile cfg) (build_dispatcher cfg)"
  "rt_docker (new_runtime env cfg) =
     (if cf_DockerEnabled cfg then Some (new_docker_agent (cf_DryRun cfg) (cf_DockerWatchList cfg)) else None)"
  "rt_file (new_runtime env cfg) =
     (if cf_FileEnabled cfg \<and> 0 < length (cf_FileWatchPaths cfg)
      then Some (new_file_agent (cf_FileWatchPaths cfg) (cf_FileMaxSizeMB cfg) (cf_DryRun cfg)) else None)"
  "rt_qdrant (new_runtime env cfg) =
     (if cf_QdrantURL cfg \<noteq> [] then Some (new_qdrant_agent (cf_QdrantURL cfg) (re_instanceID env)) else None)"
  "rt_orchestrator (new_runtime env cfg) =
     new_orchestrator (fst (open_store env cfg))
       (new_logger_with_rotation (cf_LogFile cfg) (cf_LogMaxSizeBytes cfg) (cf_LogMaxBackups cfg))
       (re_files env) (cf_DryRun cfg) (cf_ExecCooldown cfg)"
  "rt_daily (new_runtime env cfg) =
     (if cf_DailyReportEnabled cfg
      then Some (new_daily_reporter (build_dispatcher cfg) (cf_DailyReportHour cfg) (cf_DailyReportMinute cfg) (cf_DryRun cfg))
      else None)"
  "rt_sqlite (new_runtime env cfg) = snd (open_store env cfg)"
  by (cases "open_store env cfg", simp only: new_runtime_def Let_def prod.case runtime.simps fst_conv snd_conv)+

text \<open>The registry holds the agents that were built, in order.\<close>

definition agent_slots :: "runtime \<Rightarrow> registry" where
  "agent_slots rt =
     [\<lparr>sl_base = sa_base (rt_system rt), sl_circuit = Some (sa_circuit (rt_system rt))\<rparr>, slot_of (aa_base (rt_alert rt))]
     @ (case rt_docker rt of None \<Rightarrow> [] | Some a \<Rightarrow> [slot_of (da_base a)])
     @ (case rt_file rt of None \<Rightarrow> [] | Some a \<Rightarrow> [slot_of (fa_base a)])
     @ (case rt_qdrant rt of None \<Rightarrow> [] | Some a \<Rightarrow> [slot_of (qa_base a)])"

lemma register_optional:
  "(case a of None \<Rightarrow> reg | Some x \<Rightarrow> registry_register (f x) reg) = reg @ (case a of None \<Rightarrow> [] | Some x \<Rightarrow> [f x])"
  by (simp add: registry_register_def split: option.split)

lemma new_runtime_registry: "rt_registry (new_runtime env cfg) = agent_slots (new_runtime env cfg)"
  unfolding agent_slots_def new_runtime_parts
  by (cases "open_store env cfg")
    (simp only: new_runtime_def Let_def prod.case runtime.simps register_optional, simp only: registry_register_def append.simps append_assoc)

lemma new_runtime_dry:
  "oc_dryRun (rt_orchestrator (new_runtime env cfg)) = cf_DryRun cfg"
  "dp_dryRun (aa_dispatcher (rt_alert (new_runtime env cfg))) = cf_DryRun cfg"
  "rt_daily (new_runtime env cfg) = Some r \<Longrightarrow> dr_dryRun r = cf_DryRun cfg"
  by (auto simp: new_runtime_parts new_orchestrator_def new_alert_agent_def new_daily_reporter_def split: if_splits)

lemma main_running:
  "main pa f environ dry tags env = Running rt \<longleftrightarrow>
     validate pa (load_config pa f environ dry) = []
     \<and> hs_Online (check_ollama (cf_OllamaURL (load_config pa f environ dry)) (cf_Model (load_config pa f environ dry)) tags)
     \<and> rt = new_runtime env (load_config pa f environ dry)"
  by (auto simp: main_def Let_def)

section \<open>Properties\<close>

text \<open>the dry run is inert. A runtime started with \<open>--dry-run\<close>, whatever its environment and configuration,
  starts no process and publishes no execution on any observations and store contents, sends no alert to any
  channel on any snapshots, and delivers no report at any tick.\<close>
theorem dry_run_is_inert:
  assumes "main pa env_file environ True tags env = Running rt"
  shows "snd (observe_run obs (rt_orchestrator rt)) = ([], [])
     \<and> (\<forall>x\<in>set (alert_runs envs (rt_alert rt, fs)). \<exists>n. x = Simulated n)
     \<and> (case rt_daily rt of None \<Rightarrow> True | Some r \<Rightarrow> daily_ticks denvs r = [])"
proof -
  let ?cfg = "load_config pa env_file environ True"
  have rt: "rt = new_runtime env ?cfg" using assms by (simp add: main_running)
  have dry: "cf_DryRun ?cfg" by (simp add: load_config_def Let_def)
  have "snd (observe_run obs (rt_orchestrator rt)) = ([], [])"
    by (rule observe_run_dry) (simp add: rt new_runtime_dry dry)
  moreover have "\<forall>x\<in>set (alert_runs envs (rt_alert rt, fs)). \<exists>n. x = Simulated n"
    using alert_runs_dry [of "(rt_alert rt, fs)"] by (simp add: rt new_runtime_dry dry)
  moreover have "daily_ticks denvs r = []" if "rt_daily rt = Some r" for r
    using that by (intro daily_ticks_dry) (simp add: rt new_runtime_dry(3) dry)
  ultimately show ?thesis by (simp split: option.split)
qed

definition sample_parsers :: parsers where
  "sample_parsers = \<lparr>pa_float = (\<lambda>_. None), pa_duration = (\<lambda>_. None), pa_url = (\<lambda>_. Inl [])\<rparr>"

definition sample_runtime_env :: runtime_env where
  "sample_runtime_env =
     \<lparr>re_now = 0, re_readFile = (\<lambda>_. None), re_files = Map.empty,
      re_driver = (\<lambda>_. \<lparr>dv_open = Inl ''no such file'', dv_faults = no_faults, dv_query = None\<rparr>), re_engine = sample_engine, re_instanceID = ''0011223344556677''\<rparr>"

lemma sample_fresh_state: "0 \<le> js_CycleNum (new_state decode_state (\<lambda>_. None) p)"
  by (simp add: new_state_def js_load_def empty_state_def)

definition sample_tags :: http_result where
  "sample_tags = HttpResponse 200 (Inr ''{\"models\":[]}'')"

lemma sample_load: "load_config sample_parsers None (\<lambda>_. None) dry = default_config\<lparr>cf_DryRun := dry\<rparr>"
  by (cases dry) (simp_all add: load_config_def load_env_def from_env_def getenv_def str_var_def parsed_var_def
      ranged_var_def split_var_def origins_var_def Let_def default_config_def)

lemma sample_valid: "validate sample_parsers (default_config\<lparr>cf_DryRun := dry\<rparr>) = []"
proof -
  have "trim_space ''logs.jsonl'' = ''logs.jsonl''" "trim_space ''state.json'' = ''state.json''"
    "trim_space ''alerts.jsonl'' = ''alerts.jsonl''" "trim_space ''http://localhost:11434'' = ''http://localhost:11434''"
    "trim_space ''llama3.1:8b'' = ''llama3.1:8b''" by code_simp+
  then show ?thesis
    by (simp add: validate_def default_config_def validate_threshold_None validate_webhook_url_def
        min_interval_def max_interval_def)
qed

lemma sample_online: "hs_Online (check_ollama ''http://localhost:11434'' ''llama3.1:8b'' sample_tags)"
  unfolding sample_tags_def by code_simp

lemma sample_main:
  "main sample_parsers None (\<lambda>_. None) dry sample_tags sample_runtime_env
     = Running (new_runtime sample_runtime_env (default_config\<lparr>cf_DryRun := dry\<rparr>))"
  using sample_online by (simp add: main_running sample_load sample_valid) (simp add: default_config_def)

theorem dry_run_is_inert_witness:
  "snd (observe_run [(sample_observe_env, zero_snapshot, oc_state sample_orchestrator)]
      (rt_orchestrator (new_runtime sample_runtime_env (default_config\<lparr>cf_DryRun := True\<rparr>)))) = ([], [])"
  by (rule dry_run_is_inert [OF sample_main, THEN conjunct1])

definition agent_names :: "config \<Rightarrow> string list" where
  "agent_names cfg =
     [''system'', ''alert''] @ (if cf_DockerEnabled cfg then [''docker''] else [])
     @ (if cf_FileEnabled cfg \<and> cf_FileWatchPaths cfg \<noteq> [] then [''file''] else [])
     @ (if cf_QdrantURL cfg \<noteq> [] then [''qdrant''] else [])"

lemma new_runtime_names:
  "map (\<lambda>a. ba_name (sl_base a)) (rt_registry (new_runtime env cfg)) = agent_names cfg"
  "a \<in> set (rt_registry (new_runtime env cfg)) \<Longrightarrow> ba_enabled (sl_base a) \<and> 0 < ba_schedule (sl_base a)"
  by (auto simp: new_runtime_registry agent_slots_def new_runtime_parts agent_names_def slot_of_def new_system_agent_def
      new_alert_agent_def new_docker_agent_def new_file_agent_def new_qdrant_agent_def new_base_agent_def
      split: if_splits)

lemma new_runtime_store:
  assumes "0 \<le> js_CycleNum (new_state decode_state (re_readFile env) (cf_StateFile cfg))"
    and "\<And>path db c. dv_open (re_driver env path) = Inr db \<Longrightarrow> c \<in> set (db_cycles db) \<Longrightarrow> 0 \<le> cr_CycleNum c"
  shows "wf_store (oc_state (rt_orchestrator (new_runtime env cfg)))"
proof -
  have "wf_store (fst (open_store env cfg))"
    using assms(1) open_sqlite_inv [OF _ assms(2)] by (auto simp: open_store_def Let_def split: sum.splits)
  then show ?thesis by (simp add: new_runtime_parts new_orchestrator_def)
qed

text \<open>C26: what \<open>main\<close> starts is well formed. With a state file and a database whose cycle numbers
  are not negative, a runtime that starts has a valid configuration, an interval of at least five seconds on which the
  scheduler's ticker does not panic, a well-formed store, a system agent that can answer, and agents with
  distinct names, exactly those the configuration enables, each enabled and on a positive schedule.\<close>
theorem started_runtime_is_well_formed:
  assumes "main pa env_file environ dry tags env = Running rt"
    and "0 \<le> js_CycleNum (new_state decode_state (re_readFile env) (cf_StateFile (rt_cfg rt)))"
    and "\<And>path db c. dv_open (re_driver env path) = Inr db \<Longrightarrow> c \<in> set (db_cycles db) \<Longrightarrow> 0 \<le> cr_CycleNum c"
  shows "validate pa (rt_cfg rt) = []
     \<and> 5 * second \<le> sd_interval (rt_scheduler rt) \<and> start_loop net now (rt_scheduler rt) \<noteq> None
     \<and> wf_store (oc_state (rt_orchestrator rt)) \<and> system_ok (rt_system rt)
     \<and> map (\<lambda>a. ba_name (sl_base a)) (rt_registry rt) = agent_names (rt_cfg rt) \<and> distinct (agent_names (rt_cfg rt))
     \<and> (\<forall>a\<in>set (rt_registry rt). ba_enabled (sl_base a) \<and> 0 < ba_schedule (sl_base a))"
proof -
  let ?cfg = "load_config pa env_file environ dry"
  have rt: "rt = new_runtime env ?cfg" and valid: "validate pa ?cfg = []" using assms(1) by (simp_all add: main_running)
  have cfg: "rt_cfg rt = ?cfg" "rt_scheduler rt = new_scheduler (cf_Interval ?cfg)" "system_ok (rt_system rt)"
    by (simp_all only: rt new_runtime_parts system_ok_new)
  have int: "5 * second \<le> cf_Interval ?cfg" using valid by (simp add: validate_def min_interval_def)
  then have "start_loop net now (rt_scheduler rt) \<noteq> None" by (simp add: cfg start_loop_def new_scheduler_def)
  moreover have "distinct (agent_names ?cfg)" by (simp add: agent_names_def)
  ultimately show ?thesis
    using valid int new_runtime_names [where env = env and cfg = ?cfg] new_runtime_store [where cfg = ?cfg, OF assms(2) [unfolded cfg(1)] assms(3)] cfg
    by (simp add: new_scheduler_def rt [symmetric])
qed

theorem started_runtime_is_well_formed_witness:
  "start_loop None 0 (rt_scheduler (new_runtime sample_runtime_env (default_config\<lparr>cf_DryRun := False\<rparr>))) \<noteq> None"
  by (rule started_runtime_is_well_formed [OF sample_main, THEN conjunct2, THEN conjunct2, THEN conjunct1])
    (simp_all add: sample_runtime_env_def sample_fresh_state)

section \<open>From the model's answer to a process\<close>

lemma handle_observed_reads:
  assumes "store_last_cycles 1 (oc_state oc) = store_last_cycles 1 s"
  shows "snd (handle_observed env snap oc) = snd (handle_observed env snap (oc\<lparr>oc_state := s\<rparr>))"
  using assms by (auto simp: handle_observed_def Let_def split: option.splits list.splits prod.splits)

lemma handle_after_system_run:
  assumes "wf_store st" "snapshot_row_ok (se_snapshot env)" "system_ok a"
    and "system_think env a st = ((d, n, err), cb)" "system_run env (a, st) = ((a', oc_state oc), saved, err')"
    and "\<not> oc_busy oc"
  shows "snd (handle_observed oenv snap oc) =
    (if d_Command d \<noteq> [] \<and> should_execute (decision_record (se_snapshot env) d) snap
     then snd (run_command oenv (oc_dryRun oc) (d_Command d) (oc_guard oc)) else ([], []))"
proof -
  let ?r = "decision_record (se_snapshot env) d" and ?x = "se_snapshot env"
  let ?s = "fst (store_add_cycle ?r st)"
  have ok: "cycle_ok ?r" using system_think_cases [OF assms(3,4)] by (intro decision_record_ok [OF assms(2)]) blast
  have oc: "oc_state oc = fst (store_add ?x ?s)" using system_run_store [OF assms(4)] assms(5) by simp
  have "wf_store ?s" using st.invar_add_cycle [OF assms(1) ok] by simp
  then have "store_last_cycles 1 (oc_state oc) = store_last_cycles 1 ?s"
    unfolding oc by (rule st.add_keeps_cycles [OF _ assms(2)])
  from handle_observed_reads [OF this] show ?thesis
    using handle_after_decision [OF assms(1) ok, of "oc\<lparr>oc_state := ?s\<rparr>"] assms(6) by simp
qed

text \<open>C2: only an accepted decision reaches a process. When the system agent has recorded its answer and an
  observation then starts a process, the answer was parsed and valid (never the fallback), the command it
  carries is whitelisted and is what was started, the handler was free and not in dry run; and if it asked
  for an execution its confidence was at least 0.75 and no metric had fallen more than 5 points below the
  level that triggered it.\<close>
theorem only_accepted_decisions_run:
  assumes "wf_store st" "snapshot_row_ok (se_snapshot env)" "system_ok a"
    and "system_think env a st = ((d, n, err), cb)" "system_run env (a, st) = ((a', oc_state oc), saved, err')"
    and "handle_observed oenv snap oc = (oc', evs, started)" "started \<noteq> []"
  shows "err = None \<and> valid_decision d \<and> \<not> oc_dryRun oc \<and> \<not> oc_busy oc
     \<and> choose_spec (oe_windows oenv) (trim_space (d_Command d)) = Some (hd started) \<and> length started = 1
     \<and> (d_Action d = ''execute'' \<longrightarrow> f_le (Fin (3 / 4)) (d_Confidence d)
          \<and> (let s0 = se_snapshot env in \<not> gone (sn_CPUPercent s0) (sn_CPUPercent snap)
               \<and> \<not> gone (sn_MemPercent s0) (sn_MemPercent snap) \<and> \<not> gone (sn_DiskPercent s0) (sn_DiskPercent snap)
             \<or> f_eq (sn_CPUPercent s0) (Fin 0) \<and> f_eq (sn_MemPercent s0) (Fin 0) \<and> f_eq (sn_DiskPercent s0) (Fin 0)))"
proof -
  have free: "\<not> oc_busy oc" using assms(6,7) by (auto simp: handle_observed_def split: if_splits)
  have h: "snd (run_command oenv (oc_dryRun oc) (d_Command d) (oc_guard oc)) = (evs, started)"
    and cmd: "d_Command d \<noteq> []" and se: "should_execute (decision_record (se_snapshot env) d) snap"
    using handle_after_system_run [OF assms(1-5) free, of oenv snap] assms(6,7) by (auto split: if_splits)
  have v: "err = None \<and> valid_decision d"
    using system_think_cases [OF assms(3,4)] cmd by (auto simp: fallback_decision_def)
  have r: "\<not> oc_dryRun oc \<and> choose_spec (oe_windows oenv) (trim_space (d_Command d)) = Some (hd started) \<and> length started = 1"
    using h assms(7)
    by (auto simp: run_command_def execute_command_def execute_command_with_timeout_def Let_def
        split: prod.splits bool.splits if_splits option.splits)
  have conf: "f_le (Fin (3 / 4)) (d_Confidence d)" if "d_Action d = ''execute''"
    using v that by (cases "d_Confidence d") (auto simp: valid_decision_def)
  show ?thesis
    using v r free conf se decision_record_triggers [of d "se_snapshot env"]
    by (auto simp: should_execute_def Let_def split: if_splits)
qed

definition execute_chat :: string where
  "execute_chat = replace_char (CHR ''~'') (CHR 0x5C)
     ''{\"message\":{\"role\":\"assistant\",\"content\":\"{~\"analysis~\":~\"a~\",~\"action~\":~\"execute~\",~\"command~\":~\"uptime~\",~\"confidence~\":0.9}\"}}''"

definition execute_content :: string where
  "execute_content = ''{\"analysis\":\"a\",\"action\":\"execute\",\"command\":\"uptime\",\"confidence\":0.9}''"

lemma execute_chat_reads: "ollama_think (chat_ok execute_chat) = Inr execute_content"
  by code_simp

lemma execute_content_parses:
  "snd (parse_decision execute_content) = None \<and> d_Action (fst (parse_decision execute_content)) = ''execute''
     \<and> d_Command (fst (parse_decision execute_content)) = ''uptime''"
  by code_simp

lemma execute_think:
  "\<exists>d n cb. system_think (sample_system_env execute_chat) sample_system_agent sample_store = ((d, n, None), cb)
     \<and> d_Action d = ''execute'' \<and> d_Command d = ''uptime''"
proof -
  obtain d where "parse_decision execute_content = (d, None)" "d_Action d = ''execute''" "d_Command d = ''uptime''"
    using execute_content_parses by (cases "parse_decision execute_content") auto
  with sample_first_answer [OF execute_chat_reads, of d] show ?thesis by blast
qed

theorem only_accepted_decisions_run_witness:
  "snd (snd (handle_observed sample_observe_env zero_snapshot
      (sample_orchestrator\<lparr>oc_state := snd (fst (system_run (sample_system_env execute_chat) (sample_system_agent, sample_store)))\<rparr>)))
     = [\<lparr>cs_bin = ''uptime'', cs_args = []\<rparr>]"
proof -
  let ?env = "sample_system_env execute_chat"
  let ?r = "system_run ?env (sample_system_agent, sample_store)"
  let ?oc = "sample_orchestrator\<lparr>oc_state := snd (fst ?r)\<rparr>"
  let ?h = "handle_observed sample_observe_env zero_snapshot ?oc"
  obtain d n cb where t: "system_think ?env sample_system_agent sample_store = ((d, n, None), cb)"
    "d_Action d = ''execute''" "d_Command d = ''uptime''" using execute_think by blast
  have r: "?r = ((fst (fst ?r), oc_state ?oc), fst (snd ?r), snd (snd ?r))" by simp
  have snap: "snapshot_row_ok (se_snapshot ?env)"
    by (simp add: sample_system_env_def snapshot_row_ok_def zero_snapshot_def u64_ok_def)
  have sys: "system_ok sample_system_agent" unfolding sample_system_agent_def by (rule system_ok_new)
  have wf: "wf_store sample_store" by (rule wf_sample_store)
  have free: "\<not> oc_busy ?oc" "\<not> oc_dryRun ?oc" "oc_guard ?oc = new_guard (5 * minute)"
    by (simp_all add: sample_orchestrator_def new_orchestrator_def)
  have "should_execute (decision_record (se_snapshot ?env) d) zero_snapshot"
    using decision_record_triggers [of d "se_snapshot ?env"] t(2)
    by (simp add: should_execute_def sample_system_env_def zero_snapshot_def)
  then have "snd ?h = snd (run_command sample_observe_env False ''uptime'' (new_guard (5 * minute)))"
    using handle_after_system_run [OF wf snap sys t(1) r free(1), of sample_observe_env zero_snapshot] t(3) free
    by simp
  moreover have "snd (snd (run_command sample_observe_env False ''uptime'' (new_guard (5 * minute)))) \<noteq> []"
    by code_simp
  ultimately have ne: "snd (snd ?h) \<noteq> []" by simp
  have h: "?h = (fst ?h, fst (snd ?h), snd (snd ?h))" by simp
  note accepted = only_accepted_decisions_run [OF wf snap sys t(1) r h ne]
  have "choose_spec False (trim_space ''uptime'') = Some \<lparr>cs_bin = ''uptime'', cs_args = []\<rparr>" by code_simp
  with accepted t(3) have "hd (snd (snd ?h)) = \<lparr>cs_bin = ''uptime'', cs_args = []\<rparr>" "length (snd (snd ?h)) = 1"
    by (simp_all add: sample_observe_env_def)
  then show ?thesis by (cases "snd (snd ?h)") simp_all
qed

end
