(* ===== verification/JX_Live.thy ===== *)
theory JX_Live
  imports JX_Runtime
begin

text \<open>
  The running system: the goroutines that \<open>Runtime.Start\<close>, \<open>Orchestrator.Start\<close> and \<open>Registry.Start\<close> launch,
  as a step relation on the runtime. A step is one tick of the scheduler, one move of the bus, one event
  received by the orchestrator, one handler, one run of an agent, one request to the web server, one tick
  of the daily reporter or one line of the command line; any of them may come next, and what each meets
  outside is arbitrary. Each step is labelled with the goroutine that makes it, so that \<open>JX_Process\<close> can say
  which of them have ended. A handler and an agent's run are one step each: their accesses to the store are
  single calls behind its lock, and no step leaves it half written.

  An agent and its slot in the registry are one object in the source. Here the slot holds the base, so a
  run reads it from there and writes it back. The last four fields record history.
\<close>

section \<open>State\<close>

record live =
  lv_rt :: runtime
  lv_loop :: sched_loop
  lv_handlers :: "snapshot list"
  lv_published :: "snapshot list"
  lv_answers :: "decision list"
  lv_started :: "(snapshot \<times> command_spec) list"
  lv_delivered :: "delivery list"

abbreviation lv_orch :: "live \<Rightarrow> orchestrator" where "lv_orch l \<equiv> rt_orchestrator (lv_rt l)"
abbreviation lv_store :: "live \<Rightarrow> store" where "lv_store l \<equiv> oc_state (lv_orch l)"
abbreviation upd_rt :: "(runtime \<Rightarrow> runtime) \<Rightarrow> live \<Rightarrow> live" where "upd_rt f l \<equiv> l\<lparr>lv_rt := f (lv_rt l)\<rparr>"

text \<open>The goroutines start when the scheduler's ticker can be made.\<close>

definition live_start :: "net_counters list option \<Rightarrow> time \<Rightarrow> runtime \<Rightarrow> live option" where
  "live_start net now rt =
     (case start_loop net now (rt_scheduler rt) of None \<Rightarrow> None
      | Some lp \<Rightarrow> Some \<lparr>lv_rt = rt, lv_loop = lp, lv_handlers = [], lv_published = [], lv_answers = [],
                        lv_started = [], lv_delivered = []\<rparr>)"

text \<open>The \<open>select\<close> of the orchestrator starts a handler for an observation and for nothing else.\<close>

definition observed :: "event \<Rightarrow> snapshot list" where
  "observed e =
     (case ev_Type e of
        EventObserved \<Rightarrow> (case ev_Payload e of PSnapshot s \<Rightarrow> [s] | _ \<Rightarrow> [])
      | _ \<Rightarrow> [])"

text \<open>\<open>runAgent\<close>: the slot of an enabled agent, and its new base written back.\<close>

definition enabled_base :: "string \<Rightarrow> runtime \<Rightarrow> base_agent option" where
  "enabled_base name rt =
     (case registry_get name (rt_registry rt) of None \<Rightarrow> None
      | Some a \<Rightarrow> if ba_enabled (sl_base a) then Some (sl_base a) else None)"

definition put_slot :: "string \<Rightarrow> base_agent \<Rightarrow> circuit_breaker option \<Rightarrow> runtime \<Rightarrow> runtime" where
  "put_slot name b cb rt =
     rt\<lparr>rt_registry := update_first (\<lambda>a. ba_name (sl_base a) = name)
          (\<lambda>a. \<lparr>sl_base = b, sl_circuit = cb\<rparr>) (rt_registry rt)\<rparr>"

text \<open>The provider of similar decisions is the Qdrant agent, when there is one.\<close>

definition live_context :: "runtime \<Rightarrow> agent_context" where
  "live_context rt = make_agent_context (map_option qa_lastSimilar (rt_qdrant rt)) (rt_orchestrator rt)"

fun primary_state :: "store \<Rightarrow> json_state \<Rightarrow> json_state" where
  "primary_state (SJson s) d = s"
| "primary_state (SDouble p _) d = primary_state p d"
| "primary_state _ d = d"

fun database_of :: "store \<Rightarrow> sqlite_store option" where
  "database_of (SSqlite d) = Some d"
| "database_of (SDouble p q) = database_of q"
| "database_of _ = None"

text \<open>The server reads the components it was given; its history is that of the database, through the SQL engine.\<close>

definition web_view :: "sql_engine \<Rightarrow> runtime \<Rightarrow> server" where
  "web_view eng rt =
     (rt_web rt)\<lparr>ws_registry := rt_registry rt, ws_dailyReporter := rt_daily rt,
       ws_execGuard := Some (rt_orchestrator rt),
       ws_history := map_option (history_of eng) (database_of (oc_state (rt_orchestrator rt))),
       ws_state := primary_state (oc_state (rt_orchestrator rt)) (ws_state (rt_web rt))\<rparr>"

section \<open>Steps\<close>

text \<open>The goroutines: the loop of the scheduler, the bus's goroutine of a subscriber, the loop of the orchestrator,
  the handlers it starts, one loop per agent, the web server, the daily reporter and the command line.\<close>

datatype task = Scheduling | Dispatching | Listening | Handling | Agent string | Serving | Reporting | Reading

text \<open>The publishers are numbered: the scheduler is 0, the handler of the orchestrator 1.\<close>

definition publisher :: "nat \<Rightarrow> task" where
  "publisher t = (if t = 0 then Scheduling else Handling)"

inductive live_step :: "task \<Rightarrow> live \<Rightarrow> live \<Rightarrow> bool" where
  listen: "bu_heap (rt_bus (lv_rt l)) = [] \<Longrightarrow>
    live_step Listening l (upd_rt (\<lambda>rt. rt\<lparr>rt_bus := bus_subscribe ''orchestrator'' (rt_bus rt)\<rparr>) l)"
| tick: "bu_pub (rt_bus (lv_rt l)) 0 = None \<Longrightarrow>
    sched_tick env (rt_scheduler (lv_rt l)) (lv_loop l) = TickNext lp [e] \<Longrightarrow>
    live_step Scheduling l (upd_rt (\<lambda>rt. rt\<lparr>rt_bus := publish_copy 0 e (rt_bus rt)\<rparr>)
      (l\<lparr>lv_loop := lp, lv_published := lv_published l @ observed e\<rparr>))"
| send: "live_step (publisher t) l (upd_rt (\<lambda>rt. rt\<lparr>rt_bus := publish_send t (rt_bus rt)\<rparr>) l)"
| take: "i < length (bu_heap (rt_bus (lv_rt l))) \<Longrightarrow> run_take (bu_heap (rt_bus (lv_rt l)) ! i) = Some s \<Longrightarrow>
    live_step Dispatching l (upd_rt (\<lambda>rt. rt\<lparr>rt_bus := upd_sub i (\<lambda>_. s) (rt_bus rt)\<rparr>) l)"
| quit: "i < length (bu_heap (rt_bus (lv_rt l))) \<Longrightarrow> run_quit (bu_heap (rt_bus (lv_rt l)) ! i) = Some s \<Longrightarrow>
    live_step Dispatching l (upd_rt (\<lambda>rt. rt\<lparr>rt_bus := upd_sub i (\<lambda>_. s) (rt_bus rt)\<rparr>) l)"
| deliver: "i < length (bu_heap (rt_bus (lv_rt l))) \<Longrightarrow>
    run_deliver (bu_size (rt_bus (lv_rt l))) (bu_heap (rt_bus (lv_rt l)) ! i) = Some s \<Longrightarrow>
    live_step Dispatching l (upd_rt (\<lambda>rt. rt\<lparr>rt_bus := upd_sub i (\<lambda>_. s) (rt_bus rt)\<rparr>) l)"
| receive: "i < length (bu_heap (rt_bus (lv_rt l))) \<Longrightarrow> sb_ch (bu_heap (rt_bus (lv_rt l)) ! i) = e # rest \<Longrightarrow>
    consume (bu_heap (rt_bus (lv_rt l)) ! i) = Some s \<Longrightarrow>
    live_step Listening l (upd_rt (\<lambda>rt. rt\<lparr>rt_bus := upd_sub i (\<lambda>_. s) (rt_bus rt)\<rparr>)
      (l\<lparr>lv_handlers := lv_handlers l @ observed e\<rparr>))"
| handle: "snap \<in> set (lv_handlers l) \<Longrightarrow> bu_pub (rt_bus (lv_rt l)) 1 = None \<Longrightarrow>
    handle_observed env snap (lv_orch l) = (oc, evs, started) \<Longrightarrow>
    live_step Handling l (upd_rt (\<lambda>rt. rt\<lparr>rt_orchestrator := oc, rt_bus := foldl (\<lambda>b e. publish_copy 1 e b) (rt_bus rt) evs\<rparr>)
      (l\<lparr>lv_handlers := remove1 snap (lv_handlers l),
         lv_started := lv_started l @ map (Pair snap) started\<rparr>))"
| skip: "snap \<in> set (lv_handlers l) \<Longrightarrow>
    live_step Handling l (l\<lparr>lv_handlers := remove1 snap (lv_handlers l)\<rparr>)"
| run_system: "enabled_base ''system'' (lv_rt l) = Some b \<Longrightarrow>
    se_snapshot env = ac_Snapshot (live_context (lv_rt l)) \<Longrightarrow>
    se_similar env = ac_SimilarDecisions (live_context (lv_rt l)) \<Longrightarrow>
    system_think env ((rt_system (lv_rt l))\<lparr>sa_base := b\<rparr>) (lv_store l) = ((d, n, err), cb) \<Longrightarrow>
    system_run env ((rt_system (lv_rt l))\<lparr>sa_base := b\<rparr>, lv_store l) = ((a, st), saved, err') \<Longrightarrow>
    live_step (Agent ''system'') l (upd_rt (\<lambda>rt. put_slot ''system'' (sa_base a) (Some (sa_circuit a))
        (rt\<lparr>rt_system := a, rt_orchestrator := (rt_orchestrator rt)\<lparr>oc_state := st\<rparr>\<rparr>))
      (l\<lparr>lv_answers := lv_answers l @ [d]\<rparr>))"
| run_alert: "enabled_base ''alert'' (lv_rt l) = Some b \<Longrightarrow>
    ae_snapshot env = ac_Snapshot (live_context (lv_rt l)) \<Longrightarrow>
    alert_run env ((rt_alert (lv_rt l))\<lparr>aa_base := b\<rparr>, oc_files (lv_orch l)) = ((a, fs), ds) \<Longrightarrow>
    live_step (Agent ''alert'') l (upd_rt (\<lambda>rt. put_slot ''alert'' (aa_base a) None
        (rt\<lparr>rt_alert := a, rt_orchestrator := (rt_orchestrator rt)\<lparr>oc_files := fs\<rparr>\<rparr>))
      (l\<lparr>lv_delivered := lv_delivered l @ ds\<rparr>))"
| run_docker: "enabled_base ''docker'' (lv_rt l) = Some b \<Longrightarrow> rt_docker (lv_rt l) = Some dk \<Longrightarrow>
    docker_run env (dk\<lparr>da_base := b\<rparr>) = (a, end_d, als) \<Longrightarrow>
    live_step (Agent ''docker'') l (upd_rt (\<lambda>rt. put_slot ''docker'' (da_base a) None (rt\<lparr>rt_docker := Some a\<rparr>)) l)"
| run_file: "enabled_base ''file'' (lv_rt l) = Some b \<Longrightarrow> rt_file (lv_rt l) = Some fl \<Longrightarrow>
    file_run env (fl\<lparr>fa_base := b\<rparr>) = (a, end_f, als) \<Longrightarrow>
    live_step (Agent ''file'') l (upd_rt (\<lambda>rt. put_slot ''file'' (fa_base a) None (rt\<lparr>rt_file := Some a\<rparr>)) l)"
| run_qdrant: "enabled_base ''qdrant'' (lv_rt l) = Some b \<Longrightarrow> rt_qdrant (lv_rt l) = Some qd \<Longrightarrow>
    qdrant_run (env, ac_Snapshot (live_context (lv_rt l)), ac_State (live_context (lv_rt l))) (qd\<lparr>qa_base := b\<rparr>) = (a, rqs) \<Longrightarrow>
    live_step (Agent ''qdrant'') l (upd_rt (\<lambda>rt. put_slot ''qdrant'' (qa_base a) None (rt\<lparr>rt_qdrant := Some a\<rparr>)) l)"
| request: "serve env rq (web_view eng (lv_rt l)) = (s, rp, sent) \<Longrightarrow>
    live_step Serving l (upd_rt (\<lambda>rt. rt\<lparr>rt_web := s, rt_registry := ws_registry s\<rparr>) l)"
| send_now: "serve wenv rq (web_view eng (lv_rt l)) = (s, rp, True) \<Longrightarrow> rt_daily (lv_rt l) = Some dr \<Longrightarrow>
    dy_store env = lv_store l \<Longrightarrow> daily_send env dr = (dr', ds) \<Longrightarrow>
    live_step Serving l (upd_rt (\<lambda>rt. rt\<lparr>rt_web := s, rt_registry := ws_registry s, rt_daily := Some dr'\<rparr>)
      (l\<lparr>lv_delivered := lv_delivered l @ ds\<rparr>))"
| daily: "rt_daily (lv_rt l) = Some dr \<Longrightarrow> dy_store env = lv_store l \<Longrightarrow> daily_tick env dr = (dr', ds, sent) \<Longrightarrow>
    live_step Reporting l (upd_rt (\<lambda>rt. rt\<lparr>rt_daily := Some dr'\<rparr>) (l\<lparr>lv_delivered := lv_delivered l @ ds\<rparr>))"
| command: "cli_line (lv_store l) text (rt_scheduler (lv_rt l)) = (s, out) \<Longrightarrow>
    live_step Reading l (upd_rt (\<lambda>rt. rt\<lparr>rt_scheduler := s\<rparr>) l)"

inductive live_reach :: "live \<Rightarrow> live \<Rightarrow> bool" for l0 where
  start: "live_reach l0 l0"
| step: "live_reach l0 l \<Longrightarrow> live_step k l l' \<Longrightarrow> live_reach l0 l'"

section \<open>What the store can hand back\<close>

fun store_cycles :: "store \<Rightarrow> cycle_record list" where
  "store_cycles (SJson s) = js_Cycles s"
| "store_cycles (SSqlite s) = sq_cycles s"
| "store_cycles SNoop = []"
| "store_cycles (SDouble p q) = store_cycles p @ store_cycles q"

definition store_commands :: "store \<Rightarrow> string set" where
  "store_commands s = cr_Command ` set (store_cycles s)"

lemma store_last_cycles_in:
  "store_last_cycles n s = Some cs \<Longrightarrow> c \<in> set cs \<Longrightarrow> c \<in> set (store_cycles s)"
proof (induction s arbitrary: cs)
  case (SJson s)
  then have "cs = last_n (nat n) (js_Cycles s)" 
    by (cases "n < 0") (simp_all add: js_last_cycles_def go_last_negative go_last_eq)
  then show ?case using SJson.prems(2) set_last_n [of "nat n" "js_Cycles s"] by auto
next
  case (SSqlite s)
  then have "c \<in> set (take (nat n) (rev (sq_cycles s)))"
    by (auto simp: sq_last_cycles_def reverse_in_place_rev split: if_splits)
  then show ?case by (auto dest: in_set_takeD)
qed (auto split: option.splits if_splits)

lemma store_commands_add_cycle:
  "store_commands (fst (store_add_cycle r s)) \<subseteq> insert (cr_Command r) (store_commands s)"
proof (induction s arbitrary: r)
  case (SJson s)
  then show ?case
    by (auto simp: store_commands_def js_add_cycle_def Let_def dest: in_set_dropD)
next
  case (SSqlite s)
  then show ?case
    by (auto simp: store_commands_def sq_add_cycle_def Let_def cycle_view_def split: if_splits)
next
  case (SDouble p q)
  obtain p' e where p: "store_add_cycle r p = (p', e)" by fastforce
  obtain q' f where q: "store_add_cycle (r\<lparr>cr_CycleNum := store_current_cycle p'\<rparr>) q = (q', f)" by fastforce
  have "store_commands p' \<subseteq> insert (cr_Command r) (store_commands p)"
    "store_commands q' \<subseteq> insert (cr_Command r) (store_commands q)"
    using SDouble.IH(1) [of r] SDouble.IH(2) [of "r\<lparr>cr_CycleNum := store_current_cycle p'\<rparr>"] p q by simp_all
  then show ?case by (auto simp: store_commands_def p q)
qed (simp add: store_commands_def)

lemma store_commands_add [simp]: "store_commands (fst (store_add x s)) = store_commands s"
proof (induction s)
  case (SDouble p q)
  then show ?case by (auto simp: store_commands_def image_Un split: prod.splits)
qed (auto simp: store_commands_def js_add_def sq_add_def Let_def split: prod.splits)

text \<open>A store the runtime builds, whether its database is open or closed.\<close>

fun sound_store :: "store \<Rightarrow> bool" where
  "sound_store (SJson s) = (0 \<le> js_CycleNum s)"
| "sound_store (SDouble (SJson s) SNoop) = (0 \<le> js_CycleNum s)"
| "sound_store (SDouble (SJson s) (SSqlite d)) = (0 \<le> js_CycleNum s \<and> 0 \<le> sq_cycleNum d)"
| "sound_store _ = False"

fun store_down :: "store \<Rightarrow> bool" where
  "store_down (SSqlite d) = sq_down d"
| "store_down (SDouble p q) = (store_down p \<or> store_down q)"
| "store_down _ = False"

lemma wf_store_sound: "wf_store s \<longleftrightarrow> sound_store s \<and> \<not> store_down s"
  by (cases s rule: wf_store.cases) (auto simp: sq_inv_def)

lemma sound_store_add_cycle: "sound_store s \<Longrightarrow> sound_store (fst (store_add_cycle r s))"
  by (cases s rule: sound_store.cases)
    (auto simp: js_add_cycle_def sq_add_cycle_def Let_def split: prod.splits if_splits)

lemma sound_store_add: "sound_store s \<Longrightarrow> sound_store (fst (store_add x s))"
  by (cases s rule: sound_store.cases) (auto simp: js_add_def sq_add_def Let_def split: prod.splits)

lemma store_down_add_cycle [simp]: "store_down (fst (store_add_cycle r s)) = store_down s"
  by (induction s arbitrary: r) (auto simp: sq_add_cycle_def Let_def split: prod.splits; metis fst_conv)+

lemma store_down_add [simp]: "store_down (fst (store_add x s)) = store_down s"
  by (induction s) (auto simp: sq_add_def split: prod.splits; metis fst_conv)+

section \<open>What the bus carries\<close>

definition bus_events :: "'e bus \<Rightarrow> 'e set" where
  "bus_events b = (\<Union>s\<in>set (bu_heap b). set (sb_sent s)) \<union> {e. \<exists>t is. bu_pub b t = Some (e, is)}"

lemma bus_events_new [simp]: "bus_events (new_bus n) = {}"
  by (simp add: bus_events_def new_bus_def)

lemma bus_events_subscribe: "bus_events (bus_subscribe name b) = bus_events b"
  by (simp add: bus_events_def bus_subscribe_def new_subscriber_def)

lemma bus_events_copy: "bus_events (publish_copy t e b) \<subseteq> insert e (bus_events b)"
  by (auto simp: bus_events_def publish_copy_def split: if_splits)

lemma bus_events_upd:
  assumes "i < length (bu_heap b)" "set (sb_sent s) \<subseteq> bus_events b"
  shows "bus_events (upd_sub i (\<lambda>_. s) b) \<subseteq> bus_events b"
proof
  fix e assume "e \<in> bus_events (upd_sub i (\<lambda>_. s) b)"
  then consider u where "u \<in> set ((bu_heap b)[i := s])" "e \<in> set (sb_sent u)" | t "is" where "bu_pub b t = Some (e, is)"
    by (auto simp: bus_events_def)
  then show "e \<in> bus_events b"
  proof cases
    case 1
    then have "u = s \<or> u \<in> set (bu_heap b)" using set_update_subset_insert [of "bu_heap b" i s] by blast
    with 1 assms(2) show ?thesis by (auto simp: bus_events_def)
  next
    case 2
    then show ?thesis by (auto simp: bus_events_def)
  qed
qed

lemma sent_in_events: "i < length (bu_heap b) \<Longrightarrow> set (sb_sent (bu_heap b ! i)) \<subseteq> bus_events b"
  by (auto simp: bus_events_def)

lemma bus_events_send:
  assumes "bus_inv n b" shows "bus_events (publish_send t b) \<subseteq> bus_events b"
proof (cases "bu_pub b t")
  case (Some p)
  obtain e "is" where p: "p = (e, is)" by fastforce
  have e: "e \<in> bus_events b" using Some p by (auto simp: bus_events_def)
  show ?thesis
  proof (cases "is")
    case Nil
    with Some p show ?thesis by (auto simp: publish_send_def bus_events_def split: if_splits)
  next
    case (Cons i js)
    with assms Some p have i: "i < length (bu_heap b)" by (auto simp: bus_inv_def)
    have "set (sb_sent (offer (2 * bu_size b) e (bu_heap b ! i))) \<subseteq> bus_events b"
      using e sent_in_events [OF i] by (auto simp: offer_def)
    from bus_events_upd [OF i this] e Some p Cons show ?thesis
      by (auto simp: publish_send_def bus_events_def split: if_splits)
  qed
qed (simp add: publish_send_def)

lemma run_sent:
  "run_take s = Some s' \<Longrightarrow> sb_sent s' = sb_sent s" "run_quit s = Some s' \<Longrightarrow> sb_sent s' = sb_sent s"
  "run_deliver n s = Some s' \<Longrightarrow> sb_sent s' = sb_sent s"
  "consume s = Some s' \<Longrightarrow> sb_sent s' = sb_sent s"
  by (auto simp: run_take_def run_quit_def run_deliver_def consume_def split: if_splits option.splits list.splits)

lemma received_was_sent:
  assumes "sub_inv n s" "sb_ch s = e # rest" shows "e \<in> set (sb_sent s)"
proof -
  have "subseq [e] (in_flight s)" using assms(2) by (simp add: in_flight_def subseq_singleton_left)
  also have "subseq (in_flight s) (sb_sent s)" using assms(1) by (simp add: sub_inv_def)
  finally show ?thesis by (simp add: subseq_singleton_left)
qed

section \<open>The invariant\<close>

text \<open>The commands a process may come from: those of the store at the start, and those of the valid answers of
  the model since.\<close>

definition known_commands :: "live \<Rightarrow> live \<Rightarrow> string set" where
  "known_commands l0 l =
     insert [] (store_commands (lv_store l0) \<union> d_Command ` {d \<in> set (lv_answers l). valid_decision d})"

definition runtime_inv :: "config \<Rightarrow> runtime \<Rightarrow> bool" where
  "runtime_inv cfg rt \<longleftrightarrow>
     oc_dryRun (rt_orchestrator rt) = cf_DryRun cfg
     \<and> dp_dryRun (aa_dispatcher (rt_alert rt)) = cf_DryRun cfg
     \<and> (\<forall>r. rt_daily rt = Some r \<longrightarrow> dr_dryRun r = cf_DryRun cfg)
     \<and> sound_store (oc_state (rt_orchestrator rt)) \<and> system_ok (rt_system rt)
     \<and> map (\<lambda>a. ba_name (sl_base a)) (rt_registry rt) = agent_names cfg
     \<and> bus_inv 10 (rt_bus rt)"

definition live_inv :: "config \<Rightarrow> live \<Rightarrow> live \<Rightarrow> bool" where
  "live_inv cfg l0 l \<longleftrightarrow>
     runtime_inv cfg (lv_rt l)
     \<and> (\<forall>e\<in>bus_events (rt_bus (lv_rt l)). set (observed e) \<subseteq> set (lv_published l))
     \<and> set (lv_handlers l) \<subseteq> set (lv_published l)
     \<and> store_commands (lv_store l) \<subseteq> known_commands l0 l
     \<and> (\<forall>(x, spec)\<in>set (lv_started l). \<not> cf_DryRun cfg \<and> x \<in> set (lv_published l)
          \<and> (\<exists>w. \<exists>cmd\<in>known_commands l0 l. choose_spec w (trim_space cmd) = Some spec))
     \<and> (cf_DryRun cfg \<longrightarrow> (\<forall>x\<in>set (lv_delivered l). \<exists>n. x = Simulated n))"

lemma handle_observed_frame:
  assumes "handle_observed env snap oc = (oc', evs, started)"
  shows "oc_state oc' = oc_state oc \<and> oc_dryRun oc' = oc_dryRun oc \<and> (\<forall>e\<in>set evs. observed e = []) \<and> length evs \<le> 1 \<and> length started \<le> 1
     \<and> (\<forall>spec\<in>set started. \<not> oc_dryRun oc
          \<and> (\<exists>cmd\<in>store_commands (oc_state oc). choose_spec (oe_windows env) (trim_space cmd) = Some spec))"
proof (cases "oc_busy oc")
  case True
  with assms show ?thesis by (simp add: handle_observed_def)
next
  case free: False
  show ?thesis
  proof (cases "store_last_cycles 1 (oc_state oc)")
    case None
    with free assms show ?thesis by (auto simp: handle_observed_def Let_def)
  next
    case (Some cs)
    show ?thesis
    proof (cases cs)
      case Nil
      with Some free assms show ?thesis by (auto simp: handle_observed_def Let_def)
    next
      case (Cons c ds)
      have c: "cr_Command c \<in> store_commands (oc_state oc)"
        using store_last_cycles_in [OF Some] Cons by (simp add: store_commands_def)
      obtain g evs' started' where r: "run_command env (oc_dryRun oc) (cr_Command c) (oc_guard oc) = (g, evs', started')"
        by (metis prod.collapse)
      have "(\<forall>e\<in>set evs'. observed e = []) \<and> length evs' \<le> 1 \<and> length started' \<le> 1
          \<and> (\<forall>spec\<in>set started'. \<not> oc_dryRun oc \<and> choose_spec (oe_windows env) (trim_space (cr_Command c)) = Some spec)"
        using r by (auto simp: run_command_def execute_command_def execute_command_with_timeout_def observed_def Let_def
            split: prod.splits bool.splits if_splits option.splits)
      with assms free Some Cons c r show ?thesis
        by (auto simp: handle_observed_def Let_def split: if_splits)
    qed
  qed
qed

lemma put_slot_names:
  "ba_name b = name \<Longrightarrow> map (\<lambda>a. ba_name (sl_base a)) (rt_registry (put_slot name b cb rt))
     = map (\<lambda>a. ba_name (sl_base a)) (rt_registry rt)"
  unfolding put_slot_def by (simp add: map_update_first)

lemma put_slot_frame [simp]:
  "rt_orchestrator (put_slot n b cb rt) = rt_orchestrator rt" "rt_alert (put_slot n b cb rt) = rt_alert rt"
  "rt_daily (put_slot n b cb rt) = rt_daily rt" "rt_system (put_slot n b cb rt) = rt_system rt"
  "rt_bus (put_slot n b cb rt) = rt_bus rt"
  by (simp_all add: put_slot_def)

lemma enabled_base_name: "enabled_base name rt = Some b \<Longrightarrow> ba_name b = name"
  by (auto simp: enabled_base_def registry_get_def find_Some_iff split: option.splits if_splits)

lemma serve_reaches:
  assumes "serve env rq s = (s', rp, sent)"
  shows "(s' = s \<and> \<not> sent) \<or> (\<exists>rp0. handle_agent_toggle env rq s = (s', rp0, sent))
     \<or> (\<exists>rp0. handle_daily_report_send env rq s = (s', rp0, sent))"
proof -
  have "(s' = s \<and> \<not> sent) \<or> (\<exists>rp0. mux env rq s = (s', rp0, sent))"
    using assms by (auto simp: serve_def cors_middleware_def auth_middleware_eq Let_def split: if_splits prod.splits)
  then show ?thesis using mux_reads [of rq env s] mux_acts [of env rq s] unfolding acts_def by (metis fst_conv snd_conv)
qed

lemma registry_names:
  "map (\<lambda>a. ba_name (sl_base a)) (fst (registry_enable n r)) = map (\<lambda>a. ba_name (sl_base a)) r"
  "map (\<lambda>a. ba_name (sl_base a)) (fst (registry_disable n r)) = map (\<lambda>a. ba_name (sl_base a)) r"
  by (simp_all add: registry_enable_def registry_disable_def map_update_first split: option.split)

lemma serve_registry_names:
  assumes "serve env rq s = (s', rp, sent)"
  shows "map (\<lambda>a. ba_name (sl_base a)) (ws_registry s') = map (\<lambda>a. ba_name (sl_base a)) (ws_registry s)"
proof -
  have "map (\<lambda>a. ba_name (sl_base a)) (ws_registry s') = map (\<lambda>a. ba_name (sl_base a)) (ws_registry s)"
    if "handle_agent_toggle env rq s = (s', rp0, sent)" for rp0
    using that registry_names
    by (auto simp: handle_agent_toggle_def method_not_allowed_def Let_def
        split: if_splits prod.splits bool.splits option.splits)
  moreover have "ws_registry s' = ws_registry s" if "handle_daily_report_send env rq s = (s', rp0, sent)" for rp0
    using report_frame [OF that] by (metis server.ext_inject server.surjective server.update_convs(11))
  ultimately show ?thesis using serve_reaches [OF assms] by auto
qed

lemma daily_dry:
  "dr_dryRun r \<Longrightarrow> daily_send env r = (r', ds) \<Longrightarrow> ds = []"
  "dr_dryRun r \<Longrightarrow> daily_tick env r = (r', ds, sent) \<Longrightarrow> ds = []"
  "daily_send env r = (r', ds) \<Longrightarrow> dr_dryRun r' = dr_dryRun r"
  "daily_tick env r = (r', ds, sent) \<Longrightarrow> dr_dryRun r' = dr_dryRun r"
  by (auto simp: daily_tick_def daily_send_def Let_def split: if_splits)

lemma system_run_step:
  assumes "system_think env a st = ((d, n, err), cb)" "system_run env (a, st) = ((a', st'), saved, err')" "system_ok a"
  shows "store_commands st' \<subseteq> insert (d_Command d) (store_commands st) \<and> (sound_store st \<longrightarrow> sound_store st')
     \<and> store_down st' = store_down st \<and> system_ok a' \<and> ba_name (sa_base a') = ba_name (sa_base a) \<and> (d_Command d = [] \<or> valid_decision d)"
proof -
  have st': "st' = fst (store_add (se_snapshot env) (fst (store_add_cycle (decision_record (se_snapshot env) d) st)))"
    using system_run_store [OF assms(1)] assms(2) by simp
  have "d_Command d = [] \<or> valid_decision d"
    using system_think_cases [OF assms(3,1)] by (auto simp: fallback_decision_def)
  moreover have "system_ok a'" using system_ok_run [OF assms(3), of env st] assms(2) by simp
  moreover have "ba_name (sa_base a') = ba_name (sa_base a)" using system.run_frame(1) [of env "(a, st)"] assms(2) by simp
  ultimately show ?thesis
    using store_commands_add_cycle [of "decision_record (se_snapshot env) d" st] sound_store_add sound_store_add_cycle st' by simp
qed

text \<open>Steps that touch the bus only, or nothing the invariant speaks of.\<close>

lemma live_inv_bus:
  assumes "live_inv cfg l0 l" "bus_inv 10 b"
    and "\<And>e. e \<in> bus_events b \<Longrightarrow> e \<in> bus_events (rt_bus (lv_rt l)) \<or> set (observed e) \<subseteq> set (lv_published l)"
  shows "live_inv cfg l0 (upd_rt (\<lambda>rt. rt\<lparr>rt_bus := b\<rparr>) l)"
  using assms unfolding live_inv_def runtime_inv_def known_commands_def by auto

lemma live_inv_publish:
  assumes "live_inv cfg l0 l"
  shows "live_inv cfg l0 (upd_rt (\<lambda>rt. rt\<lparr>rt_bus := publish_copy t e (rt_bus rt)\<rparr>)
      (l\<lparr>lv_loop := lp, lv_published := lv_published l @ observed e\<rparr>))"
proof -
  have "live_inv cfg l0 (l\<lparr>lv_loop := lp, lv_published := lv_published l @ observed e\<rparr>)"
    using assms unfolding live_inv_def known_commands_def by auto
  moreover have "bus_inv 10 (publish_copy t e (rt_bus (lv_rt l)))"
    using assms bus_inv_copy by (auto simp: live_inv_def runtime_inv_def)
  ultimately show ?thesis
    using live_inv_bus [of cfg l0 "l\<lparr>lv_loop := lp, lv_published := lv_published l @ observed e\<rparr>"
        "publish_copy t e (rt_bus (lv_rt l))"] bus_events_copy [of t e "rt_bus (lv_rt l)"] by auto
qed

lemma live_inv_sub:
  assumes "live_inv cfg l0 l" "i < length (bu_heap (rt_bus (lv_rt l)))"
    and "run_take (bu_heap (rt_bus (lv_rt l)) ! i) = Some s
      \<or> run_quit (bu_heap (rt_bus (lv_rt l)) ! i) = Some s
      \<or> run_deliver (bu_size (rt_bus (lv_rt l))) (bu_heap (rt_bus (lv_rt l)) ! i) = Some s
      \<or> consume (bu_heap (rt_bus (lv_rt l)) ! i) = Some s"
  shows "live_inv cfg l0 (upd_rt (\<lambda>rt. rt\<lparr>rt_bus := upd_sub i (\<lambda>_. s) (rt_bus rt)\<rparr>) l)"
proof -
  let ?b = "rt_bus (lv_rt l)"
  have inv: "bus_inv 10 ?b" using assms(1) by (simp add: live_inv_def runtime_inv_def)
  have "sb_sent s = sb_sent (bu_heap ?b ! i)" using assms(3) run_sent by blast
  then have "bus_events (upd_sub i (\<lambda>_. s) ?b) \<subseteq> bus_events ?b"
    using bus_events_upd [OF assms(2)] sent_in_events [OF assms(2)] by simp
  then show ?thesis
    using live_inv_bus [OF assms(1) bus_inv_run [OF inv assms(2)], of s] assms(3) by auto
qed

lemma live_inv_handlers:
  assumes "live_inv cfg l0 l" "set hs \<subseteq> set (lv_published l)"
  shows "live_inv cfg l0 (l\<lparr>lv_handlers := hs\<rparr>)"
  using assms unfolding live_inv_def known_commands_def by auto

lemma live_inv_receive:
  assumes "live_inv cfg l0 l" "i < length (bu_heap (rt_bus (lv_rt l)))"
    and "sb_ch (bu_heap (rt_bus (lv_rt l)) ! i) = e # rest" "consume (bu_heap (rt_bus (lv_rt l)) ! i) = Some s"
  shows "live_inv cfg l0 (upd_rt (\<lambda>rt. rt\<lparr>rt_bus := upd_sub i (\<lambda>_. s) (rt_bus rt)\<rparr>)
      (l\<lparr>lv_handlers := lv_handlers l @ observed e\<rparr>))"
proof -
  have "sub_inv 10 (bu_heap (rt_bus (lv_rt l)) ! i)"
    using assms(1,2) bus_inv_nth by (auto simp: live_inv_def runtime_inv_def)
  then have "e \<in> bus_events (rt_bus (lv_rt l))"
    using received_was_sent [OF _ assms(3)] sent_in_events [OF assms(2)] by blast
  then have "set (lv_handlers l @ observed e) \<subseteq> set (lv_published l)" using assms(1) by (auto simp: live_inv_def)
  from live_inv_sub [OF live_inv_handlers [OF assms(1) this], of i s] assms(2,4) show ?thesis by simp
qed

lemma live_inv_runtime:
  assumes "live_inv cfg l0 l" "runtime_inv cfg rt" "rt_bus rt = rt_bus (lv_rt l)"
    and "rt_orchestrator rt = rt_orchestrator (lv_rt l)"
  shows "live_inv cfg l0 (l\<lparr>lv_rt := rt\<rparr>)"
  using assms unfolding live_inv_def known_commands_def by auto

lemma live_inv_deliver:
  assumes "live_inv cfg l0 l" "cf_DryRun cfg \<Longrightarrow> \<forall>x\<in>set ds. \<exists>n. x = Simulated n"
  shows "live_inv cfg l0 (l\<lparr>lv_delivered := lv_delivered l @ ds\<rparr>)"
  using assms unfolding live_inv_def known_commands_def by auto

lemma live_inv_handle:
  assumes "live_inv cfg l0 l" "snap \<in> set (lv_handlers l)"
    and "handle_observed env snap (lv_orch l) = (oc, evs, started)"
  shows "live_inv cfg l0 (upd_rt (\<lambda>rt. rt\<lparr>rt_orchestrator := oc,
        rt_bus := foldl (\<lambda>b e. publish_copy 1 e b) (rt_bus rt) evs\<rparr>)
      (l\<lparr>lv_handlers := remove1 snap (lv_handlers l), lv_started := lv_started l @ map (Pair snap) started\<rparr>))"
proof -
  let ?b = "foldl (\<lambda>b e. publish_copy 1 e b) (rt_bus (lv_rt l)) evs"
  let ?l = "upd_rt (\<lambda>rt. rt\<lparr>rt_orchestrator := oc\<rparr>)
      (l\<lparr>lv_handlers := remove1 snap (lv_handlers l), lv_started := lv_started l @ map (Pair snap) started\<rparr>)"
  note f = handle_observed_frame [OF assms(3)]
  have hs: "set (remove1 snap (lv_handlers l)) \<subseteq> set (lv_handlers l)" by (rule set_remove1_subset)
  have k: "known_commands l0 ?l = known_commands l0 l" by (simp add: known_commands_def)
  have new: "\<not> cf_DryRun cfg \<and> (\<exists>w. \<exists>cmd\<in>known_commands l0 l. choose_spec w (trim_space cmd) = Some spec)"
    if "spec \<in> set started" for spec
    using f that assms(1) unfolding live_inv_def runtime_inv_def by blast
  have snap: "snap \<in> set (lv_published l)" using assms(1,2) unfolding live_inv_def by blast
  have "runtime_inv cfg (lv_rt ?l)" using assms(1) f by (simp add: live_inv_def runtime_inv_def)
  then have inv: "live_inv cfg l0 ?l"
    using assms(1) f hs new snap unfolding live_inv_def k by auto
  have "bus_inv 10 ?b \<and> (\<forall>e\<in>bus_events ?b. e \<in> bus_events (rt_bus (lv_rt l)) \<or> observed e = [])"
    using assms(1) f bus_events_copy
    by (cases evs) (fastforce simp: live_inv_def runtime_inv_def intro: bus_inv_copy)+
  then have "live_inv cfg l0 (upd_rt (\<lambda>rt. rt\<lparr>rt_bus := ?b\<rparr>) ?l)" by (intro live_inv_bus [OF inv]) auto
  then show ?thesis by simp
qed

lemma live_inv_system:
  assumes "live_inv cfg l0 l" "enabled_base ''system'' (lv_rt l) = Some b"
    and "system_think env ((rt_system (lv_rt l))\<lparr>sa_base := b\<rparr>) (lv_store l) = ((d, n, err), cb)"
    and "system_run env ((rt_system (lv_rt l))\<lparr>sa_base := b\<rparr>, lv_store l) = ((a, st), saved, err')"
  shows "live_inv cfg l0 (upd_rt (\<lambda>rt. put_slot ''system'' (sa_base a) (Some (sa_circuit a))
        (rt\<lparr>rt_system := a, rt_orchestrator := (rt_orchestrator rt)\<lparr>oc_state := st\<rparr>\<rparr>))
      (l\<lparr>lv_answers := lv_answers l @ [d]\<rparr>))"
proof -
  have "system_ok ((rt_system (lv_rt l))\<lparr>sa_base := b\<rparr>)"
    using assms(1) by (simp add: live_inv_def runtime_inv_def system_ok_def)
  note r = system_run_step [OF assms(3,4) this]
  have name: "ba_name (sa_base a) = ''system''" using r enabled_base_name [OF assms(2)] by simp
  let ?l = "upd_rt (\<lambda>rt. put_slot ''system'' (sa_base a) (Some (sa_circuit a))
        (rt\<lparr>rt_system := a, rt_orchestrator := (rt_orchestrator rt)\<lparr>oc_state := st\<rparr>\<rparr>))
      (l\<lparr>lv_answers := lv_answers l @ [d]\<rparr>)"
  have "runtime_inv cfg (lv_rt ?l)"
    using assms(1) r by (simp add: live_inv_def runtime_inv_def put_slot_names [OF name])
  moreover have "known_commands l0 l \<subseteq> known_commands l0 ?l" "d_Command d \<in> known_commands l0 ?l"
    using r by (auto simp: known_commands_def)
  ultimately show ?thesis
    using assms(1) r unfolding live_inv_def by (simp add: subset_iff) blast
qed

lemma alert_run_dispatcher:
  assumes "alert_run env (a0, fs0) = ((a, fs), ds)" shows "aa_dispatcher a = aa_dispatcher a0"
proof -
  obtain a1 als where "analyze (ae_snapshot env) a0 = (a1, als)" by fastforce
  with assms analyze_dispatcher [of "ae_snapshot env" a0] show ?thesis
    by (auto simp: alert_run_def split: prod.splits if_splits)
qed

lemma live_inv_alert:
  assumes "live_inv cfg l0 l" "enabled_base ''alert'' (lv_rt l) = Some b"
    and "alert_run env ((rt_alert (lv_rt l))\<lparr>aa_base := b\<rparr>, oc_files (lv_orch l)) = ((a, fs), ds)"
  shows "live_inv cfg l0 (upd_rt (\<lambda>rt. put_slot ''alert'' (aa_base a) None
        (rt\<lparr>rt_alert := a, rt_orchestrator := (rt_orchestrator rt)\<lparr>oc_files := fs\<rparr>\<rparr>))
      (l\<lparr>lv_delivered := lv_delivered l @ ds\<rparr>))"
proof -
  have name: "ba_name (aa_base a) = ''alert''"
    using alert.run_frame(1) [of env "((rt_alert (lv_rt l))\<lparr>aa_base := b\<rparr>, oc_files (lv_orch l))"] assms(3)
      enabled_base_name [OF assms(2)] by simp
  have dry: "dp_dryRun (aa_dispatcher a) = dp_dryRun (aa_dispatcher (rt_alert (lv_rt l)))"
    using alert_run_dispatcher [OF assms(3)] by simp
  have "\<forall>x\<in>set ds. \<exists>n. x = Simulated n" if "cf_DryRun cfg"
    using alert_run_dry [OF _ assms(3)] that assms(1) by (simp add: live_inv_def runtime_inv_def)
  from live_inv_deliver [OF assms(1) this]
  show ?thesis
    using dry unfolding live_inv_def runtime_inv_def known_commands_def by (simp add: put_slot_names [OF name])
qed

text \<open>The agents that touch nothing but themselves.\<close>

lemma live_inv_slot:
  assumes "live_inv cfg l0 l" "ba_name b = name"
    and "runtime_inv cfg rt" "rt_bus rt = rt_bus (lv_rt l)" "rt_orchestrator rt = rt_orchestrator (lv_rt l)"
  shows "live_inv cfg l0 (l\<lparr>lv_rt := put_slot name b cb rt\<rparr>)"
  using assms by (intro live_inv_runtime) (simp_all add: runtime_inv_def put_slot_names [OF assms(2)])

lemma runtime_inv_agents:
  "runtime_inv cfg rt \<Longrightarrow> runtime_inv cfg (rt\<lparr>rt_docker := dk\<rparr>)"
  "runtime_inv cfg rt \<Longrightarrow> runtime_inv cfg (rt\<lparr>rt_file := fl\<rparr>)"
  "runtime_inv cfg rt \<Longrightarrow> runtime_inv cfg (rt\<lparr>rt_qdrant := qd\<rparr>)"
  "runtime_inv cfg rt \<Longrightarrow> runtime_inv cfg (rt\<lparr>rt_scheduler := sd\<rparr>)"
  by (simp_all add: runtime_inv_def)

lemma runtime_inv_web:
  assumes "runtime_inv cfg rt" "serve env rq (web_view eng rt) = (s, rp, sent)"
  shows "runtime_inv cfg (rt\<lparr>rt_web := s, rt_registry := ws_registry s\<rparr>)"
  using assms serve_registry_names [OF assms(2)] by (simp add: runtime_inv_def web_view_def)

lemma runtime_inv_daily:
  "runtime_inv cfg rt \<Longrightarrow> rt_daily rt = Some dr \<Longrightarrow> dr_dryRun dr' = dr_dryRun dr \<Longrightarrow>
     runtime_inv cfg (rt\<lparr>rt_daily := Some dr'\<rparr>)"
  by (simp add: runtime_inv_def)

lemma live_inv_step:
  assumes "live_step k l l'" "live_inv cfg l0 l"
  shows "live_inv cfg l0 l'"
  using assms
proof (cases rule: live_step.cases)
  case listen
  have "bus_inv 10 (bus_subscribe ''orchestrator'' (rt_bus (lv_rt l)))"
    using assms(2) bus_inv_subscribe by (auto simp: live_inv_def runtime_inv_def)
  with assms(2) show ?thesis unfolding listen(2)
    by (intro live_inv_bus) (auto simp: bus_events_subscribe)
next
  case (send t)
  have inv: "bus_inv 10 (rt_bus (lv_rt l))" using assms(2) by (simp add: live_inv_def runtime_inv_def)
  with assms(2) show ?thesis unfolding send(2)
    by (intro live_inv_bus bus_inv_send) (use bus_events_send [OF inv, of t] in auto)
next
  case tick
  with assms(2) show ?thesis by (simp only: live_inv_publish)
next
  case take
  with assms(2) show ?thesis by (simp only: live_inv_sub simp_thms)
next
  case quit
  with assms(2) show ?thesis by (simp only: live_inv_sub simp_thms)
next
  case deliver
  with assms(2) show ?thesis by (simp only: live_inv_sub simp_thms)
next
  case receive
  with assms(2) show ?thesis by (simp only: live_inv_receive)
next
  case handle
  with assms(2) show ?thesis by (simp only: live_inv_handle)
next
  case (skip snap)
  have "set (remove1 snap (lv_handlers l)) \<subseteq> set (lv_published l)"
    using assms(2) set_remove1_subset [of snap "lv_handlers l"] by (auto simp: live_inv_def)
  with assms(2) show ?thesis unfolding skip(2) by (rule live_inv_handlers)
next
  case run_system
  with assms(2) show ?thesis by (simp only: live_inv_system)
next
  case run_alert
  with assms(2) show ?thesis by (simp only: live_inv_alert)
next
  case (run_docker b dk env a e als)
  have "ba_name (da_base a) = ''docker''"
    using docker.run_frame(1) [of env "dk\<lparr>da_base := b\<rparr>"] run_docker(5) enabled_base_name [OF run_docker(3)] by simp
  with assms(2) show ?thesis unfolding run_docker(2)
    by (intro live_inv_slot) (simp_all add: live_inv_def runtime_inv_agents)
next
  case (run_file b fl env a e als)
  have "ba_name (fa_base a) = ''file''"
    using files.run_frame(1) [of env "fl\<lparr>fa_base := b\<rparr>"] run_file(5) enabled_base_name [OF run_file(3)] by simp
  with assms(2) show ?thesis unfolding run_file(2)
    by (intro live_inv_slot) (simp_all add: live_inv_def runtime_inv_agents)
next
  case (run_qdrant b qd env a rqs)
  have "ba_name (qa_base a) = ''qdrant''"
    using qdrant.run_frame(1) [of "(env, ac_Snapshot (live_context (lv_rt l)), ac_State (live_context (lv_rt l)))" "qd\<lparr>qa_base := b\<rparr>"]
      run_qdrant(5) enabled_base_name [OF run_qdrant(3)] by simp
  with assms(2) show ?thesis unfolding run_qdrant(2)
    by (intro live_inv_slot) (simp_all add: live_inv_def runtime_inv_agents)
next
  case (request env rq eng s rp sent)
  with assms(2) show ?thesis unfolding request(2)
    by (intro live_inv_runtime runtime_inv_web [OF _ request(3)]) (simp_all add: live_inv_def)
next
  case (send_now wenv rq eng s rp dr env dr' ds)
  let ?rt = "(lv_rt l)\<lparr>rt_web := s, rt_registry := ws_registry s\<rparr>"
  have rt: "runtime_inv cfg (lv_rt l)" using assms(2) by (simp add: live_inv_def)
  have "runtime_inv cfg (?rt\<lparr>rt_daily := Some dr'\<rparr>)"
    using runtime_inv_daily [OF runtime_inv_web [OF rt send_now(3)]] send_now(4) daily_dry(3) [OF send_now(6)] by simp
  moreover have "\<forall>x\<in>set ds. \<exists>n. x = Simulated n" if "cf_DryRun cfg"
    using daily_dry(1) [OF _ send_now(6)] that rt send_now(4) by (simp add: runtime_inv_def)
  ultimately show ?thesis unfolding send_now(2)
    using live_inv_runtime [OF live_inv_deliver [OF assms(2)], of ds "?rt\<lparr>rt_daily := Some dr'\<rparr>"] by simp
next
  case (daily dr env dr' ds sent)
  have rt: "runtime_inv cfg (lv_rt l)" using assms(2) by (simp add: live_inv_def)
  have "runtime_inv cfg ((lv_rt l)\<lparr>rt_daily := Some dr'\<rparr>)"
    using runtime_inv_daily [OF rt daily(3)] daily_dry(4) [OF daily(5)] by simp
  moreover have "\<forall>x\<in>set ds. \<exists>n. x = Simulated n" if "cf_DryRun cfg"
    using daily_dry(2) [OF _ daily(5)] that rt daily(3) by (simp add: runtime_inv_def)
  ultimately show ?thesis unfolding daily(2)
    using live_inv_runtime [OF live_inv_deliver [OF assms(2)], of ds "(lv_rt l)\<lparr>rt_daily := Some dr'\<rparr>"] by simp
next
  case command
  with assms(2) show ?thesis
    by (simp only: live_inv_runtime [where l = l] runtime_inv_agents(4)) (simp add: live_inv_def runtime_inv_def known_commands_def)
qed

lemma live_inv_reach: "live_reach l0 l \<Longrightarrow> live_inv cfg l0 l0 \<Longrightarrow> live_inv cfg l0 l"
  by (induction rule: live_reach.induct) (simp_all add: live_inv_step)

lemma live_inv_start:
  assumes "live_start net now (new_runtime env cfg) = Some l0"
    and "0 \<le> js_CycleNum (new_state decode_state (re_readFile env) (cf_StateFile cfg))"
    and "\<And>path db c. dv_open (re_driver env path) = Inr db \<Longrightarrow> c \<in> set (db_cycles db) \<Longrightarrow> 0 \<le> cr_CycleNum c"
  shows "live_inv cfg l0 l0"
proof -
  let ?rt = "new_runtime env cfg"
  from assms(1) obtain lp where l0: "l0 = \<lparr>lv_rt = ?rt, lv_loop = lp, lv_handlers = [], lv_published = [],
      lv_answers = [], lv_started = [], lv_delivered = []\<rparr>"
    by (auto simp: live_start_def split: option.splits)
  have "rt_bus ?rt = new_bus 10" "system_ok (rt_system ?rt)"
    by (simp_all only: new_runtime_parts system_ok_new)
  then have "runtime_inv cfg ?rt"
    using new_runtime_dry new_runtime_names(1) new_runtime_store [where cfg = cfg, OF assms(2,3)] bus_inv_reach [OF bus_reach.init]
    by (simp add: runtime_inv_def wf_store_sound)
  then show ?thesis
    by (auto simp: live_inv_def l0 known_commands_def \<open>rt_bus ?rt = new_bus 10\<close>)
qed

section \<open>A run that reaches a process\<close>

text \<open>The safety of the system is not empty: the model asks for an execution, the scheduler observes, the bus
  delivers and the handler starts the process.\<close>

definition live_sample :: live where
  "live_sample =
     \<lparr>lv_rt = new_runtime sample_runtime_env (default_config\<lparr>cf_DryRun := False\<rparr>),
      lv_loop = \<lparr>lp_interval = cf_Interval default_config, lp_prevNet = no_counters, lp_hasNet = False, lp_prevNetAt = 0\<rparr>,
      lv_handlers = [], lv_published = [], lv_answers = [], lv_started = [], lv_delivered = []\<rparr>"

lemma live_sample_start:
  "live_start None 0 (new_runtime sample_runtime_env (default_config\<lparr>cf_DryRun := False\<rparr>)) = Some live_sample"
proof -
  have "cf_Interval (default_config\<lparr>cf_DryRun := False\<rparr>) = cf_Interval default_config" "0 < cf_Interval default_config"
    by (simp_all add: default_config_def)
  then show ?thesis
    by (simp add: live_start_def start_loop_def live_sample_def new_runtime_parts new_scheduler_def read_net_counters_def Let_def)
qed

lemma live_sample_tick:
  "\<exists>lp e x. sched_tick (sample_tick [Fin 12]) (new_scheduler (cf_Interval default_config)) (lv_loop live_sample)
      = TickNext lp [e] \<and> observed e = [x]"
  by (simp add: sched_tick_def sample_tick_def sample_host_def observe_with_context_def observe_def read_load_avg_def
      net_step_def read_net_counters_def live_sample_def new_scheduler_def observed_def Let_def)

lemma observation_arrives:
  assumes "rt_bus (lv_rt l) = new_bus 10" "rt_scheduler (lv_rt l) = new_scheduler (cf_Interval default_config)"
    and "lv_loop l = lv_loop live_sample"
  shows "\<exists>l' x. live_reach l l' \<and> x \<in> set (lv_handlers l') \<and> rt_orchestrator (lv_rt l') = rt_orchestrator (lv_rt l)
     \<and> bu_pub (rt_bus (lv_rt l')) 1 = None"
proof -
  obtain lp e x where t: "sched_tick (sample_tick [Fin 12]) (rt_scheduler (lv_rt l)) (lv_loop l) = TickNext lp [e]"
    and x: "observed e = [x]" using live_sample_tick assms(2,3) by metis
  let ?s0 = "new_subscriber ''orchestrator'' :: event subscriber"
  let ?s1 = "?s0\<lparr>sb_dispatch := [e], sb_sent := [e]\<rparr>"
  let ?s2 = "?s1\<lparr>sb_dispatch := [], sb_hold := Some e\<rparr>"
  let ?s3 = "?s2\<lparr>sb_ch := [e], sb_hold := None\<rparr>"
  let ?s4 = "?s3\<lparr>sb_ch := [], sb_got := [e]\<rparr>"
  let ?bus = "\<lambda>s p. \<lparr>bu_size = 10, bu_heap = [s], bu_subs = [0], bu_pub = p\<rparr>"
  let ?at = "\<lambda>b. upd_rt (\<lambda>rt. rt\<lparr>rt_bus := b\<rparr>) (l\<lparr>lv_loop := lp, lv_published := lv_published l @ [x]\<rparr>)"
  let ?last = "upd_rt (\<lambda>rt. rt\<lparr>rt_bus := ?bus ?s4 [0 \<mapsto> (e, [])]\<rparr>)
      (l\<lparr>lv_loop := lp, lv_published := lv_published l @ [x], lv_handlers := lv_handlers l @ [x]\<rparr>)"
  have "live_reach l (upd_rt (\<lambda>rt. rt\<lparr>rt_bus := ?bus ?s0 Map.empty\<rparr>) l)"
    using live_reach.step [OF live_reach.start live_step.listen [of l]] assms(1)
    by (simp add: new_bus_def bus_subscribe_def)
  from live_reach.step [OF this live_step.tick [of _ "sample_tick [Fin 12]" lp e]]
  have "live_reach l (?at (?bus ?s0 [0 \<mapsto> (e, [0])]))"
    using t x by (simp add: publish_copy_def)
  from live_reach.step [OF this live_step.send [of 0]]
  have "live_reach l (?at (?bus ?s1 [0 \<mapsto> (e, [])]))"
    by (simp add: publish_send_def offer_def new_subscriber_def)
  from live_reach.step [OF this live_step.take [of 0 _ ?s2]]
  have "live_reach l (?at (?bus ?s2 [0 \<mapsto> (e, [])]))"
    by (simp add: run_take_def new_subscriber_def)
  from live_reach.step [OF this live_step.deliver [of 0 _ ?s3]]
  have "live_reach l (?at (?bus ?s3 [0 \<mapsto> (e, [])]))"
    by (simp add: run_deliver_def new_subscriber_def)
  from live_reach.step [OF this live_step.receive [of 0 _ e "[]" ?s4]]
  have "live_reach l ?last"
    using x by (simp add: consume_def new_subscriber_def)
  then show ?thesis by (intro exI [of _ ?last] exI [of _ x]) simp
qed

lemma live_reach_trans: "live_reach a b \<Longrightarrow> live_reach b c \<Longrightarrow> live_reach a c"
  by (rotate_tac, induction rule: live_reach.induct) (auto intro: live_reach.step)

lemma default_off: "cf_QdrantURL default_config = []" "cf_Interval (default_config\<lparr>cf_DryRun := b\<rparr>) = cf_Interval default_config"
  by (simp_all add: default_config_def)

lemma sample_system_slot:
  "enabled_base ''system'' (new_runtime env cfg) = Some (new_base_agent ''system'' (15 * second))"
proof -
  have "rt_registry (new_runtime env cfg) = agent_slots (new_runtime env cfg)" by (rule new_runtime_registry)
  then show ?thesis
    by (simp add: agent_slots_def enabled_base_def registry_get_def new_runtime_parts new_system_agent_def new_base_agent_def)
qed

lemma process_is_reachable: "\<exists>l. live_reach live_sample l \<and> lv_started l \<noteq> []"
proof -
  let ?rt = "lv_rt live_sample" and ?env = "sample_system_env execute_chat"
  let ?a0 = "(rt_system ?rt)\<lparr>sa_base := new_base_agent ''system'' (15 * second)\<rparr>" and ?st = "lv_store live_sample"
  have fresh: "enabled_base ''system'' ?rt = Some (new_base_agent ''system'' (15 * second))"
    "live_context ?rt = \<lparr>ac_Snapshot = zero_snapshot, ac_State = ?st, ac_SimilarDecisions = []\<rparr>"
    "rt_bus ?rt = new_bus 10" "rt_scheduler ?rt = new_scheduler (cf_Interval default_config)"
    "\<not> oc_busy (lv_orch live_sample)" "\<not> oc_dryRun (lv_orch live_sample)"
    "oc_guard (lv_orch live_sample) = new_guard (cf_ExecCooldown default_config)"
    "sa_retry ?a0 = sa_retry sample_system_agent" "sa_circuit ?a0 = sa_circuit sample_system_agent" "system_ok ?a0"
    by (simp_all add: live_sample_def new_runtime_parts sample_system_slot default_off live_context_def
        make_agent_context_def new_orchestrator_def new_system_agent_def
        sample_system_agent_def system_ok_def default_retry_config_def default_circuit_breaker_def
        new_circuit_breaker_def cb_inv_def)
  have "wf_store ?st"
    using new_runtime_store [of sample_runtime_env "default_config\<lparr>cf_DryRun := False\<rparr>"]
    by (simp add: live_sample_def sample_runtime_env_def sample_fresh_state)
  have snap: "snapshot_row_ok (se_snapshot ?env)" "se_snapshot ?env = zero_snapshot" "se_similar ?env = []"
    by (simp_all add: sample_system_env_def snapshot_row_ok_def zero_snapshot_def u64_ok_def)
  have "system_think ?env ?a0 ?st = system_think ?env sample_system_agent sample_store"
    using fresh(8,9) by (simp add: system_think_def sample_system_env_def)
  then obtain d n cb where t: "system_think ?env ?a0 ?st = ((d, n, None), cb)"
    and d: "d_Action d = ''execute''" "d_Command d = ''uptime''" using execute_think by auto
  obtain a st saved err where r: "system_run ?env (?a0, ?st) = ((a, st), saved, err)" by (metis prod.collapse)
  let ?l1 = "upd_rt (\<lambda>rt. put_slot ''system'' (sa_base a) (Some (sa_circuit a))
        (rt\<lparr>rt_system := a, rt_orchestrator := (rt_orchestrator rt)\<lparr>oc_state := st\<rparr>\<rparr>))
      (live_sample\<lparr>lv_answers := lv_answers live_sample @ [d]\<rparr>)"
  have reach1: "live_reach live_sample ?l1"
    by (rule live_reach.step [OF live_reach.start live_step.run_system [OF fresh(1) _ _ t r]]) (simp_all add: fresh(2) snap)
  obtain l2 x where l2: "live_reach ?l1 l2" "x \<in> set (lv_handlers l2)" "bu_pub (rt_bus (lv_rt l2)) 1 = None"
    and orch: "lv_orch l2 = (lv_orch live_sample)\<lparr>oc_state := st\<rparr>"
    using observation_arrives [of ?l1] fresh(3,4) by (auto simp: put_slot_def)
  obtain oc evs started where h: "handle_observed sample_observe_env x (lv_orch l2) = (oc, evs, started)"
    by (metis prod.collapse)
  have "should_execute (decision_record (se_snapshot ?env) d) x"
    using decision_record_triggers [of d "se_snapshot ?env"] d(1)
    by (simp add: should_execute_def snap zero_snapshot_def)
  then have "(evs, started) = snd (run_command sample_observe_env False ''uptime'' (new_guard (cf_ExecCooldown default_config)))"
    using handle_after_system_run [OF \<open>wf_store ?st\<close> snap(1) fresh(10) t, of a "lv_orch l2" saved err sample_observe_env x]
      r orch fresh(5-7) d(2) h by simp
  moreover have "snd (snd (run_command sample_observe_env False ''uptime'' (new_guard (cf_ExecCooldown default_config)))) \<noteq> []"
    by code_simp
  ultimately have "started \<noteq> []" by (metis snd_conv)
  with live_reach.step [OF live_reach_trans [OF reach1 l2(1)] live_step.handle [OF l2(2,3) h]]
  show ?thesis by (intro exI conjI) auto
qed

end
