(* ===== verification/JX_Process.thy ===== *)
theory JX_Process
  imports JX_Live
begin

text \<open>
  The life of the process (\<open>Runtime.Start\<close> in \<open>runtime/core/runtime.go\<close>): the goroutines of \<open>JX_Live\<close> run
  until a signal cancels the context. From then on the loops that wait on the context (scheduler,
  orchestrator, agents, daily reporter) may end whenever they are at their \<open>select\<close>, and the orchestrator
  leaves the bus; the web server, the command line, the handlers and the bus's own goroutine do not look at
  the context. The main goroutine waits for none of them: it closes the database and returns, which ends the
  process with whatever still runs. A panic of the scheduler ends the process at once.
\<close>

section \<open>State\<close>

record process =
  pr_live :: live
  pr_cancelled :: bool
  pr_stopped :: "task list"
  pr_closed :: bool
  pr_exited :: bool

abbreviation pr_rt :: "process \<Rightarrow> runtime" where "pr_rt p \<equiv> lv_rt (pr_live p)"
abbreviation pr_store :: "process \<Rightarrow> store" where "pr_store p \<equiv> lv_store (pr_live p)"

definition boot :: "live \<Rightarrow> process" where
  "boot l = \<lparr>pr_live = l, pr_cancelled = False, pr_stopped = [], pr_closed = False, pr_exited = False\<rparr>"

text \<open>The goroutines that select on \<open>ctx.Done()\<close>, and when they are at that \<open>select\<close>: the scheduler when it is not
  publishing, the orchestrator once it has subscribed. An agent's run and a report are one step each.\<close>

fun waits_for_context :: "task \<Rightarrow> bool" where
  "waits_for_context Scheduling = True"
| "waits_for_context Listening = True"
| "waits_for_context Reporting = True"
| "waits_for_context (Agent name) = True"
| "waits_for_context _ = False"

fun at_select :: "task \<Rightarrow> live \<Rightarrow> bool" where
  "at_select Scheduling l = (bu_pub (rt_bus (lv_rt l)) 0 = None)"
| "at_select Listening l = (bu_heap (rt_bus (lv_rt l)) \<noteq> [])"
| "at_select _ l = True"

definition stop_task :: "task \<Rightarrow> live \<Rightarrow> live" where
  "stop_task k l =
     (if k = Listening then upd_rt (\<lambda>rt. rt\<lparr>rt_bus := bus_unsubscribe ''orchestrator'' (rt_bus rt)\<rparr>) l else l)"

text \<open>\<open>SQLiteStore.Close\<close>: every later statement on the connection fails. The store of the orchestrator and the
  closer of the runtime are the same object.\<close>

fun close_store :: "store \<Rightarrow> store" where
  "close_store (SSqlite d) = SSqlite (d\<lparr>sq_down := True\<rparr>)"
| "close_store (SDouble p q) = SDouble (close_store p) (close_store q)"
| "close_store s = s"

definition close_database :: "runtime \<Rightarrow> runtime" where
  "close_database rt =
     (case rt_sqlite rt of
        None \<Rightarrow> rt
      | Some _ \<Rightarrow> rt\<lparr>rt_orchestrator := (rt_orchestrator rt)\<lparr>oc_state := close_store (oc_state (rt_orchestrator rt))\<rparr>\<rparr>)"

section \<open>Steps\<close>

inductive process_step :: "process \<Rightarrow> process \<Rightarrow> bool" where
  signal: "\<not> pr_exited p \<Longrightarrow> process_step p (p\<lparr>pr_cancelled := True\<rparr>)"
| work: "\<not> pr_exited p \<Longrightarrow> k \<notin> set (pr_stopped p) \<Longrightarrow> live_step k (pr_live p) l \<Longrightarrow> process_step p (p\<lparr>pr_live := l\<rparr>)"
| stop: "\<not> pr_exited p \<Longrightarrow> pr_cancelled p \<Longrightarrow> waits_for_context k \<Longrightarrow> k \<notin> set (pr_stopped p) \<Longrightarrow> at_select k (pr_live p) \<Longrightarrow>
    process_step p (p\<lparr>pr_live := stop_task k (pr_live p), pr_stopped := k # pr_stopped p\<rparr>)"
| crash: "\<not> pr_exited p \<Longrightarrow> Scheduling \<notin> set (pr_stopped p) \<Longrightarrow> at_select Scheduling (pr_live p) \<Longrightarrow>
    sched_tick env (rt_scheduler (pr_rt p)) (lv_loop (pr_live p)) = TickPanic \<Longrightarrow>
    process_step p (p\<lparr>pr_exited := True\<rparr>)"
| close: "\<not> pr_exited p \<Longrightarrow> pr_cancelled p \<Longrightarrow> \<not> pr_closed p \<Longrightarrow>
    process_step p (p\<lparr>pr_live := upd_rt close_database (pr_live p), pr_closed := True\<rparr>)"
| exit: "\<not> pr_exited p \<Longrightarrow> pr_closed p \<Longrightarrow> process_step p (p\<lparr>pr_exited := True\<rparr>)"

inductive process_reach :: "process \<Rightarrow> process \<Rightarrow> bool" for p0 where
  start: "process_reach p0 p0"
| step: "process_reach p0 p \<Longrightarrow> process_step p p' \<Longrightarrow> process_reach p0 p'"

inductive_cases process_stepE: "process_step p p'"

lemma process_reach_trans: "process_reach a b \<Longrightarrow> process_reach b c \<Longrightarrow> process_reach a c"
  by (rotate_tac, induction rule: process_reach.induct) (auto intro: process_reach.step)

lemma live_runs_in_process: "live_reach l0 l \<Longrightarrow> process_reach (boot l0) (boot l)"
proof (induction rule: live_reach.induct)
  case (step l k l')
  have "process_step (boot l) (boot l\<lparr>pr_live := l'\<rparr>)"
    using step.hyps(2) by (intro process_step.work [where k = k]) (simp_all add: boot_def)
  moreover have "boot l\<lparr>pr_live := l'\<rparr> = boot l'" by (simp add: boot_def)
  ultimately show ?case using step.IH process_reach.step by metis
qed (rule process_reach.start)

section \<open>What a step leaves alone\<close>

lemma closed_store:
  "store_cycles (close_store s) = store_cycles s" "sound_store s \<Longrightarrow> sound_store (close_store s)"
  "database_of s \<noteq> None \<Longrightarrow> store_down (close_store s)"
  "(database_of (close_store s) = None) = (database_of s = None)"
proof -
  show "sound_store s \<Longrightarrow> sound_store (close_store s)" by (cases s rule: sound_store.cases) simp_all
qed (induction s; simp)+

text \<open>The rows of the database, when there is one.\<close>

definition database_rows :: "store \<Rightarrow> (snapshot list \<times> cycle_record list) option" where
  "database_rows s = map_option (\<lambda>d. (sq_snapshots d, sq_cycles d)) (database_of s)"

lemma database_kept_cycle:
  "(database_of (fst (store_add_cycle r s)) = None) = (database_of s = None)
     \<and> (store_down s \<and> sound_store s \<longrightarrow> database_rows (fst (store_add_cycle r s)) = database_rows s)"
proof (induction s arbitrary: r)
  case (SDouble p q)
  obtain p' e where p: "store_add_cycle r p = (p', e)" by fastforce
  obtain q' f where q: "store_add_cycle (r\<lparr>cr_CycleNum := store_current_cycle p'\<rparr>) q = (q', f)" by fastforce
  have "database_rows q' = database_rows q" if "store_down (SDouble p q)" "sound_store (SDouble p q)"
    using that q by (cases "SDouble p q" rule: sound_store.cases)
      (auto simp: sq_add_cycle_def database_rows_def Let_def split: prod.splits if_splits)
  then show ?case using SDouble.IH(2) [of "r\<lparr>cr_CycleNum := store_current_cycle p'\<rparr>"] by (auto simp: p q database_rows_def)
qed (auto split: prod.splits)

lemma database_kept_snapshot:
  "(database_of (fst (store_add x s)) = None) = (database_of s = None)
     \<and> (store_down s \<and> sound_store s \<longrightarrow> database_rows (fst (store_add x s)) = database_rows s)"
proof (induction s)
  case (SDouble p q)
  obtain p' e where p: "store_add x p = (p', e)" by fastforce
  obtain q' f where q: "store_add x q = (q', f)" by fastforce
  have "database_rows q' = database_rows q" if "store_down (SDouble p q)" "sound_store (SDouble p q)"
    using that q by (cases "SDouble p q" rule: sound_store.cases)
      (auto simp: sq_add_def database_rows_def split: prod.splits)
  then show ?case using SDouble.IH(2) by (auto simp: p q database_rows_def)
qed (auto split: prod.splits)

text \<open>Only the system agent writes to the store.\<close>

lemma live_step_store:
  assumes "live_step k l l'"
  shows "rt_sqlite (lv_rt l') = rt_sqlite (lv_rt l)
     \<and> (lv_store l' = lv_store l
        \<or> k = Agent ''system'' \<and> (\<exists>r x. lv_store l' = fst (store_add x (fst (store_add_cycle r (lv_store l))))))"
  using assms
proof (cases rule: live_step.cases)
  case (handle snap env oc evs started)
  then show ?thesis using handle_observed_frame [OF handle(5)] by simp
next
  case (run_system b env d n err cb a st saved err')
  then show ?thesis using system_run_store [OF run_system(6)] by (auto simp: put_slot_def)
qed (simp_all add: put_slot_def)

lemma live_step_history:
  assumes "live_step k l l'"
  shows "(k \<noteq> Scheduling \<longrightarrow> lv_published l' = lv_published l)
     \<and> (k \<noteq> Agent ''system'' \<longrightarrow> lv_answers l' = lv_answers l)
     \<and> (k \<noteq> Listening \<longrightarrow> (\<exists>hs. lv_started l' = lv_started l @ hs
          \<and> mset (map fst hs) + mset (lv_handlers l') \<subseteq># mset (lv_handlers l)))"
  using assms
proof (cases rule: live_step.cases)
  case (handle snap env oc evs started)
  have "length started \<le> 1" using handle_observed_frame [OF handle(5)] by simp
  then consider "started = []" | x where "started = [x]" by (cases started) auto
  then show ?thesis by cases (use handle in \<open>simp_all add: mset_remove1\<close>)
qed simp_all

section \<open>The invariant\<close>

definition process_inv :: "config \<Rightarrow> live \<Rightarrow> process \<Rightarrow> bool" where
  "process_inv cfg l0 p \<longleftrightarrow>
     live_inv cfg l0 (pr_live p)
     \<and> (rt_sqlite (pr_rt p) = None \<longleftrightarrow> database_of (pr_store p) = None)
     \<and> (store_down (pr_store p) \<longleftrightarrow> pr_closed p \<and> rt_sqlite (pr_rt p) \<noteq> None)
     \<and> (pr_closed p \<longrightarrow> pr_cancelled p)"

lemma bus_events_unsubscribe: "bus_events (bus_unsubscribe name b) \<subseteq> bus_events b"
proof (cases "find (\<lambda>i. sb_name (bu_heap b ! i) = name) (bu_subs b)")
  case (Some i)
  have "sb_sent ((bu_heap b)[i := (bu_heap b ! i)\<lparr>sb_quit := True\<rparr>] ! j) = sb_sent (bu_heap b ! j)"
    if "j < length (bu_heap b)" for j
    using that by (cases "i = j") simp_all
  then show ?thesis by (fastforce simp: bus_unsubscribe_def Some bus_events_def in_set_conv_nth)
qed (simp add: bus_unsubscribe_def)

lemma live_inv_stop:
  assumes "live_inv cfg l0 l" shows "live_inv cfg l0 (stop_task k l)"
proof -
  have "bus_inv 10 (rt_bus (lv_rt l))" using assms by (simp add: live_inv_def runtime_inv_def)
  from bus_inv_unsubscribe [OF this]
  have "live_inv cfg l0 (upd_rt (\<lambda>rt. rt\<lparr>rt_bus := bus_unsubscribe ''orchestrator'' (rt_bus (lv_rt l))\<rparr>) l)"
  proof (rule live_inv_bus [OF assms])
    fix e assume "e \<in> bus_events (bus_unsubscribe ''orchestrator'' (rt_bus (lv_rt l)))"
    then show "e \<in> bus_events (rt_bus (lv_rt l)) \<or> set (observed e) \<subseteq> set (lv_published l)"
      using bus_events_unsubscribe [of "''orchestrator''" "rt_bus (lv_rt l)"] by (intro disjI1) (rule subsetD)
  qed
  with assms show ?thesis by (simp add: stop_task_def)
qed

lemma live_inv_close:
  assumes "live_inv cfg l0 l" shows "live_inv cfg l0 (upd_rt close_database l)"
proof (cases "rt_sqlite (lv_rt l)")
  case (Some d)
  have "store_commands (close_store s) = store_commands s" for s by (simp add: store_commands_def closed_store)
  with assms Some show ?thesis
    by (simp add: live_inv_def runtime_inv_def known_commands_def close_database_def closed_store)
qed (use assms in \<open>simp add: close_database_def\<close>)

lemma process_inv_work:
  assumes "process_inv cfg l0 p" "live_step k (pr_live p) l"
  shows "process_inv cfg l0 (p\<lparr>pr_live := l\<rparr>)"
proof -
  note st = live_step_store [OF assms(2)]
  have "store_down (lv_store l) = store_down (pr_store p)" using st by auto
  moreover have "(database_of (lv_store l) = None) = (database_of (pr_store p) = None)"
    using st database_kept_cycle database_kept_snapshot by metis
  moreover have "live_inv cfg l0 l" using assms live_inv_step by (auto simp: process_inv_def)
  ultimately show ?thesis using assms(1) st unfolding process_inv_def by simp
qed

lemma process_inv_step: "process_step p p' \<Longrightarrow> process_inv cfg l0 p \<Longrightarrow> process_inv cfg l0 p'"
proof (erule process_stepE)
  fix k l
  assume "p' = p\<lparr>pr_live := l\<rparr>" "live_step k (pr_live p) l" "process_inv cfg l0 p"
  then show "process_inv cfg l0 p'" by (simp only: process_inv_work)
next
  fix k
  assume "p' = p\<lparr>pr_live := stop_task k (pr_live p), pr_stopped := k # pr_stopped p\<rparr>" "process_inv cfg l0 p"
  moreover have "rt_sqlite (lv_rt (stop_task k l)) = rt_sqlite (lv_rt l)" "lv_store (stop_task k l) = lv_store l" for l
    by (simp_all add: stop_task_def)
  ultimately show "process_inv cfg l0 p'" by (auto simp: process_inv_def live_inv_stop)
next
  assume p': "p' = p\<lparr>pr_live := upd_rt close_database (pr_live p), pr_closed := True\<rparr>"
    and inv: "process_inv cfg l0 p" "pr_cancelled p" "\<not> pr_closed p"
  have "rt_sqlite (close_database rt) = rt_sqlite rt" for rt by (simp add: close_database_def split: option.split)
  moreover have "oc_state (rt_orchestrator (close_database rt))
      = (if rt_sqlite rt = None then oc_state (rt_orchestrator rt) else close_store (oc_state (rt_orchestrator rt)))" for rt
    by (simp add: close_database_def split: option.split)
  ultimately show "process_inv cfg l0 p'"
    using inv live_inv_close unfolding process_inv_def p' by (auto simp: closed_store)
qed (auto simp: process_inv_def)

lemma process_inv_reach: "process_reach p0 p \<Longrightarrow> process_inv cfg l0 p0 \<Longrightarrow> process_inv cfg l0 p"
  by (induction rule: process_reach.induct) (simp_all add: process_inv_step)

lemma process_inv_boot:
  assumes "live_start net now (new_runtime env cfg) = Some l0"
    and "0 \<le> js_CycleNum (new_state decode_state (re_readFile env) (cf_StateFile cfg))"
    and "\<And>path db c. dv_open (re_driver env path) = Inr db \<Longrightarrow> c \<in> set (db_cycles db) \<Longrightarrow> 0 \<le> cr_CycleNum c"
  shows "process_inv cfg l0 (boot l0)"
proof -
  have rt: "lv_rt l0 = new_runtime env cfg" using assms(1) by (auto simp: live_start_def split: option.splits)
  have "\<not> store_down (lv_store l0)" using new_runtime_store [OF assms(2,3)] by (simp add: rt wf_store_sound)
  moreover have "snd (open_store env cfg) = None \<longleftrightarrow> database_of (fst (open_store env cfg)) = None"
    by (simp add: open_store_def Let_def split: sum.split)
  ultimately show ?thesis
    using live_inv_start [OF assms] by (simp add: process_inv_def boot_def rt new_runtime_parts new_orchestrator_def)
qed

lemma main_process_inv:
  assumes "main pa env_file environ dry tags env = Running rt" "live_start net now rt = Some l0" "process_reach (boot l0) p"
    and "0 \<le> js_CycleNum (new_state decode_state (re_readFile env) (cf_StateFile (rt_cfg rt)))"
    and "\<And>path db c. dv_open (re_driver env path) = Inr db \<Longrightarrow> c \<in> set (db_cycles db) \<Longrightarrow> 0 \<le> cr_CycleNum c"
  shows "process_inv (rt_cfg rt) l0 p"
proof -
  define cfg where "cfg = load_config pa env_file environ dry"
  have rt: "rt = new_runtime env cfg" using assms(1) by (simp add: main_running cfg_def)
  have cfg: "rt_cfg rt = cfg" unfolding rt by (rule new_runtime_parts(1))
  have "process_inv cfg l0 (boot l0)"
    by (rule process_inv_boot [OF assms(2) [unfolded rt] assms(4) [unfolded cfg]]) (rule assms(5))
  from process_inv_reach [OF assms(3) this] show ?thesis unfolding cfg .
qed

section \<open>Properties\<close>

text \<open>C1: the whole system is safe. Start any runtime \<open>main\<close> accepts, and let its goroutines interleave in any way,
  through shutdown or crash, with any answers of the model, any requests, toggles and commands, and any environment. Every process that
  was ever started is a whitelisted one, was started on a snapshot the scheduler had published, and carries
  the command of a valid answer of the model or of a decision that was in the store at the start; in dry run
  none is started and every delivery is a simulated one.\<close>
theorem running_system_is_safe:
  assumes "main pa env_file environ dry tags env = Running rt" "live_start net now rt = Some l0" "process_reach (boot l0) p"
    and "0 \<le> js_CycleNum (new_state decode_state (re_readFile env) (cf_StateFile (rt_cfg rt)))"
    and "\<And>path db c. dv_open (re_driver env path) = Inr db \<Longrightarrow> c \<in> set (db_cycles db) \<Longrightarrow> 0 \<le> cr_CycleNum c"
  shows "(\<forall>(snap, spec)\<in>set (lv_started (pr_live p)). spec \<in> allowed_specs \<and> snap \<in> set (lv_published (pr_live p))
        \<and> (\<exists>w cmd. choose_spec w (trim_space cmd) = Some spec
             \<and> (cmd \<in> store_commands (lv_store l0) \<or> (\<exists>d\<in>set (lv_answers (pr_live p)). valid_decision d \<and> d_Command d = cmd))))
     \<and> (cf_DryRun (rt_cfg rt) \<longrightarrow> lv_started (pr_live p) = [] \<and> (\<forall>x\<in>set (lv_delivered (pr_live p)). \<exists>n. x = Simulated n))"
proof -
  let ?cfg = "rt_cfg rt" and ?l = "pr_live p"
  have inv: "live_inv ?cfg l0 ?l" using main_process_inv [OF assms] by (simp add: process_inv_def)
  have "spec \<in> allowed_specs \<and> snap \<in> set (lv_published (pr_live p)) \<and> \<not> cf_DryRun ?cfg
      \<and> (\<exists>w cmd. choose_spec w (trim_space cmd) = Some spec
           \<and> (cmd \<in> store_commands (lv_store l0) \<or> (\<exists>d\<in>set (lv_answers (pr_live p)). valid_decision d \<and> d_Command d = cmd)))"
    if "(snap, spec) \<in> set (lv_started (pr_live p))" for snap spec
  proof -
    from inv that obtain w cmd where c: "choose_spec w (trim_space cmd) = Some spec" "cmd \<in> known_commands l0 ?l"
      and p: "snap \<in> set (lv_published (pr_live p))" "\<not> cf_DryRun ?cfg" unfolding live_inv_def by blast
    have "choose_spec w (trim_space []) = None" by (cases w) code_simp+
    then have "cmd \<noteq> []" using c(1) by (metis option.distinct(1))
    with c p choose_spec_allowed [OF c(1)] show ?thesis by (auto simp: known_commands_def)
  qed
  note each = this
  have "lv_started (pr_live p) = []" if "cf_DryRun ?cfg"
    using each [of "fst (hd (lv_started (pr_live p)))" "snd (hd (lv_started (pr_live p)))"] that by (cases "lv_started (pr_live p)") simp_all
  moreover have "cf_DryRun ?cfg \<longrightarrow> (\<forall>x\<in>set (lv_delivered (pr_live p)). \<exists>n. x = Simulated n)"
    using inv by (simp add: live_inv_def)
  ultimately show ?thesis using each by blast
qed

theorem running_system_is_safe_witness:
  "\<exists>p snap spec. process_reach (boot live_sample) p \<and> (snap, spec) \<in> set (lv_started (pr_live p))
     \<and> spec \<in> allowed_specs \<and> snap \<in> set (lv_published (pr_live p))"
proof -
  obtain l where "live_reach live_sample l" and l: "lv_started l \<noteq> []" using process_is_reachable by blast
  then have r: "process_reach (boot live_sample) (boot l)" by (intro live_runs_in_process)
  obtain snap spec where m: "(snap, spec) \<in> set (lv_started l)" using l by (metis list.set_sel(1) prod.collapse)
  have "\<forall>(snap, spec)\<in>set (lv_started (pr_live (boot l))). spec \<in> allowed_specs \<and> snap \<in> set (lv_published (pr_live (boot l)))"
    using running_system_is_safe [OF sample_main [of False] live_sample_start r]
    by (fastforce simp: sample_runtime_env_def sample_fresh_state)
  with r m show ?thesis by (intro exI [of _ "boot l"] exI [of _ snap] exI [of _ spec]) (auto simp: boot_def)
qed

text \<open>C6: the running system stays well formed, and shuts down in order. In every state the process reaches, the
  breaker of the model's client keeps its invariant, the registry still holds exactly the agents that were
  configured, in order, under their names, every snapshot a handler works on was published, and what each
  subscriber of the bus received or has in flight is a subsequence of what was sent to it, within the
  capacity of its buffers; the store is well formed until the database is closed, which happens after a
  signal only, and sound afterwards.\<close>
theorem running_system_stays_well_formed:
  assumes "main pa env_file environ dry tags env = Running rt" "live_start net now rt = Some l0" "process_reach (boot l0) p"
    and "0 \<le> js_CycleNum (new_state decode_state (re_readFile env) (cf_StateFile (rt_cfg rt)))"
    and "\<And>path db c. dv_open (re_driver env path) = Inr db \<Longrightarrow> c \<in> set (db_cycles db) \<Longrightarrow> 0 \<le> cr_CycleNum c"
  shows "sound_store (pr_store p) \<and> (wf_store (pr_store p) \<or> pr_closed p \<and> pr_cancelled p)
     \<and> cb_inv (sa_circuit (rt_system (pr_rt p)))
     \<and> map (\<lambda>a. ba_name (sl_base a)) (rt_registry (pr_rt p)) = agent_names (rt_cfg rt)
     \<and> set (lv_handlers (pr_live p)) \<subseteq> set (lv_published (pr_live p))
     \<and> (\<forall>s\<in>set (bu_heap (rt_bus (pr_rt p))). subseq (in_flight s) (sb_sent s) \<and> length (sb_ch s) \<le> 10)"
  using main_process_inv [OF assms]
  by (auto simp: process_inv_def live_inv_def runtime_inv_def bus_inv_def sub_inv_def system_ok_def wf_store_sound)

theorem running_system_stays_well_formed_witness:
  "\<exists>p. process_reach (boot live_sample) p \<and> lv_started (pr_live p) \<noteq> [] \<and> sound_store (pr_store p)"
proof -
  obtain l where "live_reach live_sample l" and l: "lv_started l \<noteq> []" using process_is_reachable by blast
  then have r: "process_reach (boot live_sample) (boot l)" by (intro live_runs_in_process)
  have "sound_store (pr_store (boot l))"
    using running_system_stays_well_formed [OF sample_main [of False] live_sample_start r]
    by (simp add: sample_runtime_env_def sample_fresh_state)
  with r l show ?thesis by (intro exI [of _ "boot l"]) (simp add: boot_def)
qed

section \<open>Shutdown\<close>

text \<open>What further steps leave alone once a loop has ended: \<open>stays\<close> compares two states of the process.\<close>

definition stays :: "process \<Rightarrow> process \<Rightarrow> bool" where
  "stays p p' \<longleftrightarrow>
     (Scheduling \<in> set (pr_stopped p) \<longrightarrow> lv_published (pr_live p') = lv_published (pr_live p))
     \<and> (Agent ''system'' \<in> set (pr_stopped p) \<longrightarrow>
          lv_answers (pr_live p') = lv_answers (pr_live p) \<and> store_cycles (pr_store p') = store_cycles (pr_store p))
     \<and> (Listening \<in> set (pr_stopped p) \<longrightarrow> (\<exists>hs. lv_started (pr_live p') = lv_started (pr_live p) @ hs
          \<and> mset (map fst hs) + mset (lv_handlers (pr_live p')) \<subseteq># mset (lv_handlers (pr_live p))))
     \<and> (pr_closed p \<longrightarrow> database_rows (pr_store p') = database_rows (pr_store p))"

definition persists :: "process \<Rightarrow> process \<Rightarrow> bool" where
  "persists p p' \<longleftrightarrow> set (pr_stopped p) \<subseteq> set (pr_stopped p') \<and> (pr_closed p \<longrightarrow> pr_closed p')"

lemma stays_same [intro]: "pr_live p' = pr_live p \<Longrightarrow> stays p p'"
  by (auto simp: stays_def)

lemma stays_trans:
  assumes "stays p q" "persists p q" "stays q r" shows "stays p r"
proof -
  have later: "k \<in> set (pr_stopped p) \<Longrightarrow> k \<in> set (pr_stopped q)" "pr_closed p \<Longrightarrow> pr_closed q" for k
    using assms(2) by (auto simp: persists_def)
  have "\<exists>hs. lv_started (pr_live r) = lv_started (pr_live p) @ hs
      \<and> mset (map fst hs) + mset (lv_handlers (pr_live r)) \<subseteq># mset (lv_handlers (pr_live p))"
    if "Listening \<in> set (pr_stopped p)"
  proof -
    note later(1) [OF that]
    with assms(1,3) that obtain hs gs where h: "lv_started (pr_live q) = lv_started (pr_live p) @ hs"
      "mset (map fst hs) + mset (lv_handlers (pr_live q)) \<subseteq># mset (lv_handlers (pr_live p))"
      and g: "lv_started (pr_live r) = lv_started (pr_live q) @ gs"
      "mset (map fst gs) + mset (lv_handlers (pr_live r)) \<subseteq># mset (lv_handlers (pr_live q))"
      by (auto simp: stays_def)
    have "mset (map fst hs) + (mset (map fst gs) + mset (lv_handlers (pr_live r)))
        \<subseteq># mset (map fst hs) + mset (lv_handlers (pr_live q))"
      using g(2) by (rule subset_mset.add_left_mono)
    also note h(2)
    finally have "mset (map fst (hs @ gs)) + mset (lv_handlers (pr_live r)) \<subseteq># mset (lv_handlers (pr_live p))"
      by (simp only: map_append mset_append add.assoc)
    with h(1) g(1) show ?thesis by (intro exI [of _ "hs @ gs"]) simp
  qed
  moreover have "Scheduling \<in> set (pr_stopped p) \<longrightarrow> lv_published (pr_live r) = lv_published (pr_live p)"
    "Agent ''system'' \<in> set (pr_stopped p) \<longrightarrow>
       lv_answers (pr_live r) = lv_answers (pr_live p) \<and> store_cycles (pr_store r) = store_cycles (pr_store p)"
    "pr_closed p \<longrightarrow> database_rows (pr_store r) = database_rows (pr_store p)"
    using assms(1,3) later by (simp_all add: stays_def)
  ultimately show ?thesis unfolding stays_def by blast
qed

lemma stays_work:
  assumes "live_step k (pr_live p) l" "k \<notin> set (pr_stopped p)" "process_inv cfg l0 p"
  shows "stays p (p\<lparr>pr_live := l\<rparr>)"
proof -
  note st = live_step_store [OF assms(1)] and h = live_step_history [OF assms(1)]
  have "store_cycles (lv_store l) = store_cycles (pr_store p)" if "k \<noteq> Agent ''system''" using st that by auto
  moreover have "database_rows (lv_store l) = database_rows (pr_store p)" if "pr_closed p"
  proof (cases "rt_sqlite (pr_rt p)")
    case None
    with st assms(3) have "database_of (pr_store p) = None" "database_of (lv_store l) = None"
      using database_kept_cycle database_kept_snapshot unfolding process_inv_def by metis+
    then show ?thesis by (simp add: database_rows_def)
  next
    case (Some d)
    then have "store_down (pr_store p)" "sound_store (pr_store p)"
      using assms(3) that by (auto simp: process_inv_def live_inv_def runtime_inv_def)
    then show ?thesis
      using st database_kept_cycle database_kept_snapshot sound_store_add_cycle store_down_add_cycle by metis
  qed
  ultimately show ?thesis using h assms(2) unfolding stays_def by auto
qed

lemma stays_step:
  assumes "process_step p p'" "process_inv cfg l0 p"
  shows "stays p p' \<and> persists p p'"
  using assms(1)
proof (cases rule: process_step.cases)
  case (work k l)
  then show ?thesis using stays_work [OF work(4,3) assms(2)] by (simp add: persists_def)
next
  case (stop k)
  have "lv_published (stop_task k l) = lv_published l" "lv_answers (stop_task k l) = lv_answers l"
    "lv_started (stop_task k l) = lv_started l" "lv_handlers (stop_task k l) = lv_handlers l"
    "lv_store (stop_task k l) = lv_store l" for l
    by (simp_all add: stop_task_def)
  with stop show ?thesis by (auto simp: stays_def persists_def)
next
  case close
  have "store_cycles (oc_state (rt_orchestrator (close_database rt))) = store_cycles (oc_state (rt_orchestrator rt))" for rt
    by (simp add: close_database_def closed_store split: option.split)
  with close show ?thesis by (auto simp: stays_def persists_def)
qed (auto simp: persists_def)

lemma stays_reach: "process_reach p p' \<Longrightarrow> process_inv cfg l0 p \<Longrightarrow> stays p p' \<and> persists p p'"
proof (induction rule: process_reach.induct)
  case start
  then show ?case by (auto simp: persists_def)
next
  case (step q r)
  have "stays q r \<and> persists q r"
    using stays_step [OF step.hyps(2) process_inv_reach [OF step.hyps(1) step.prems]] .
  with step stays_trans [of p q r] show ?case by (auto simp: persists_def)
qed


text \<open>Nothing waits for the agents: a decision recorded after the database was closed is in the JSON state alone, and
  the database that is read after a restart does not have it.\<close>

lemma decision_after_close:
  "\<exists>s' d'. fst (store_add_cycle r (close_store (SDouble (SJson s) (SSqlite d)))) = SDouble (SJson s') (SSqlite d')
     \<and> js_current_cycle s' = js_current_cycle s + 1 \<and> sq_cycles d' = sq_cycles d \<and> sq_snapshots d' = sq_snapshots d"
  by (auto simp: js_add_cycle_def sq_add_cycle_def js_current_cycle_def Let_def split: prod.splits)


end
