(* ===== verification/JX_Display.thy ===== *)
theory JX_Display
  imports JX_Runtime
begin

text \<open>
  What the runtime prints on the terminal: the \<open>Display\<close> methods of an observation (\<open>tools/system.go\<close>), a decision
  (\<open>llm/parser.go\<close>), a command's result (\<open>tools/shell.go\<close>) and a health check (\<open>llm/health.go\<close>), the alerts
  (\<open>agents/alert_agent.go\<close>), the tables of the command line (\<open>core/cli.go\<close>), the banner of \<open>Start\<close>
  (\<open>core/runtime.go\<close>) and the summary line of the Docker agent. A display is the text it writes. The terminal
  is an automaton that reads the colour sequences; the theorem says that no display leaves a colour switched on.
\<close>

section \<open>Pieces\<close>

definition sgr :: "string \<Rightarrow> string" where
  "sgr n = esc @ ''['' @ n @ ''m''"

abbreviation box_v :: string where "box_v \<equiv> [CHR 0xE2, CHR 0x94, CHR 0x82]"
abbreviation box_h :: string where "box_h \<equiv> [CHR 0xE2, CHR 0x94, CHR 0x80]"
abbreviation box_tl :: string where "box_tl \<equiv> [CHR 0xE2, CHR 0x94, CHR 0x8C]"
abbreviation box_tr :: string where "box_tr \<equiv> [CHR 0xE2, CHR 0x94, CHR 0x90]"
abbreviation box_bl :: string where "box_bl \<equiv> [CHR 0xE2, CHR 0x94, CHR 0x94]"
abbreviation box_br :: string where "box_br \<equiv> [CHR 0xE2, CHR 0x94, CHR 0x98]"
abbreviation dbox_v :: string where "dbox_v \<equiv> [CHR 0xE2, CHR 0x95, CHR 0x91]"
abbreviation dbox_h :: string where "dbox_h \<equiv> [CHR 0xE2, CHR 0x95, CHR 0x90]"
abbreviation dbox_tl :: string where "dbox_tl \<equiv> [CHR 0xE2, CHR 0x95, CHR 0x94]"
abbreviation dbox_tr :: string where "dbox_tr \<equiv> [CHR 0xE2, CHR 0x95, CHR 0x97]"
abbreviation dbox_bl :: string where "dbox_bl \<equiv> [CHR 0xE2, CHR 0x95, CHR 0x9A]"
abbreviation dbox_br :: string where "dbox_br \<equiv> [CHR 0xE2, CHR 0x95, CHR 0x9D]"
abbreviation down_arrow :: string where "down_arrow \<equiv> [CHR 0xE2, CHR 0x86, CHR 0x93]"
abbreviation cross_mark :: string where "cross_mark \<equiv> [CHR 0xE2, CHR 0x9C, CHR 0x97]"
abbreviation stopwatch :: string where "stopwatch \<equiv> [CHR 0xE2, CHR 0x8F, CHR 0xB1]"

definition rule_of :: "string \<Rightarrow> nat \<Rightarrow> string" where
  "rule_of c n = concat (replicate n c)"

text \<open>\<open>Format("15:04:05")\<close> and \<open>Format("2006-01-02 15:04:05")\<close> in the zone of the host.\<close>

definition clock_text :: "(time \<Rightarrow> int) \<Rightarrow> time \<Rightarrow> string" where
  "clock_text zone t =
     (let s = (t div second + 60 * zone t) mod 86400
      in pad 2 (s div 3600) @ '':'' @ pad 2 (s div 60 mod 60) @ '':'' @ pad 2 (s mod 60))"

definition stamp_text :: "(time \<Rightarrow> int) \<Rightarrow> time \<Rightarrow> string" where
  "stamp_text zone t =
     (case civil ((t div second + 60 * zone t) div 86400 + 366) of
        (y, m, d) \<Rightarrow> pad 4 y @ ''-'' @ pad 2 m @ ''-'' @ pad 2 d @ '' '' @ clock_text zone t)"

text \<open>\<open>%-ns\<close>; every text that is padded here is ASCII.\<close>

definition pad_right :: "nat \<Rightarrow> string \<Rightarrow> string" where
  "pad_right n s = s @ replicate (n - length s) (CHR 0x20)"

text \<open>\<open>Duration.Round\<close>: to the nearest multiple, halves away from zero, saturating.\<close>

definition round_duration :: "duration \<Rightarrow> duration \<Rightarrow> duration" where
  "round_duration d m =
     (if m \<le> 0 then d
      else if d < 0 then
        (let r = - go_mod d m in
         if 2 * r < m then d + r
         else if - (2 ^ 63) \<le> d - m + r then d - m + r else - (2 ^ 63))
      else
        (let r = go_mod d m in
         if 2 * r < m then d - r
         else if d + m - r < 2 ^ 63 then d + m - r else 2 ^ 63 - 1))"

section \<open>Displays\<close>

text \<open>\<open>metricColor\<close> of the tools package.\<close>

definition host_color :: "f64 \<Rightarrow> f64 \<Rightarrow> f64 \<Rightarrow> string" where
  "host_color pct warn crit = (if f_ge pct crit then sgr ''31'' else if f_ge pct warn then sgr ''33'' else sgr ''32'')"

definition display_proc :: "proc_info \<Rightarrow> string" where
  "display_proc p = '' '' @ sgr ''90'' @ pi_Name p @ ''('' @ show_nat (unat (pi_MemMB p)) @ ''MB)'' @ sgr ''0''"

definition display_state :: "bool \<Rightarrow> (time \<Rightarrow> int) \<Rightarrow> system_state \<Rightarrow> string" where
  "display_state windows zone s =
     nl @ sgr ''97'' @ box_tl @ rule_of box_h 1 @ ''[ JARVINX OBSERVE ]'' @ rule_of box_h 26 @ box_tr
    @ sgr ''0'' @ nl
    @ sgr ''97'' @ box_v @ sgr ''0'' @ '' '' @ sgr ''90'' @ clock_text zone (ss_Timestamp s)
    @ sgr ''0'' @ nl
    @ sgr ''97'' @ box_v @ sgr ''0'' @ '' CPU   : '' @ host_color (ss_CPUPercent s) (Fin 70) (Fin 85)
    @ fmt_f 1 (ss_CPUPercent s) @ ''%'' @ sgr ''0'' @ nl
    @ sgr ''97'' @ box_v @ sgr ''0'' @ '' RAM   : '' @ host_color (ss_MemPercent s) (Fin 70) (Fin 90)
    @ show_nat (unat (ss_MemUsed s)) @ '' MB'' @ sgr ''0'' @ '' / '' @ show_nat (unat (ss_MemTotal s))
    @ '' MB ('' @ fmt_f 1 (ss_MemPercent s) @ ''%)'' @ nl
    @ (if 0 < ss_SwapTotal s
       then sgr ''97'' @ box_v @ sgr ''0'' @ '' SWAP  : ''
           @ host_color (ss_SwapPercent s) (Fin 60) (Fin 80) @ show_nat (unat (ss_SwapUsed s))
           @ '' MB'' @ sgr ''0'' @ '' / '' @ show_nat (unat (ss_SwapTotal s)) @ '' MB (''
           @ fmt_f 1 (ss_SwapPercent s) @ ''%)'' @ nl
       else [])
    @ sgr ''97'' @ box_v @ sgr ''0'' @ '' DISK  : '' @ host_color (ss_DiskPercent s) (Fin 70) (Fin 85)
    @ show_nat (unat (ss_DiskUsed s)) @ '' GB'' @ sgr ''0'' @ '' / ''
    @ show_nat (unat (ss_DiskTotal s)) @ '' GB ('' @ fmt_f 1 (ss_DiskPercent s) @ ''%) [''
    @ root_path windows @ '']'' @ nl
    @ (if f_gt (ss_NetRecvMBps s) (Fin 0) \<or> f_gt (ss_NetSentMBps s) (Fin 0)
       then sgr ''97'' @ box_v @ sgr ''0'' @ '' NET   : '' @ sgr ''36'' @ down_arrow
           @ fmt_f 2 (ss_NetRecvMBps s) @ '' MB/s  '' @ up_arrow @ fmt_f 2 (ss_NetSentMBps s)
           @ '' MB/s'' @ sgr ''0'' @ nl
       else [])
    @ (if f_gt (ss_LoadAvg1 s) (Fin 0)
       then sgr ''97'' @ box_v @ sgr ''0'' @ '' LOAD  : '' @ sgr ''90'' @ fmt_f 2 (ss_LoadAvg1 s)
           @ ''  '' @ fmt_f 2 (ss_LoadAvg5 s) @ ''  '' @ fmt_f 2 (ss_LoadAvg15 s) @ sgr ''0'' @ nl
       else [])
    @ (if ss_TopProcs s \<noteq> []
       then sgr ''97'' @ box_v @ sgr ''0'' @ '' PROCS :'' @ concat (map display_proc (ss_TopProcs s))
           @ nl
       else [])
    @ sgr ''97'' @ box_bl @ rule_of box_h 46 @ box_br @ sgr ''0'' @ nl"

definition action_color :: "string \<Rightarrow> string" where
  "action_color a =
     (if a = ''log'' then sgr ''32'' else if a = ''suggest'' then sgr ''33'' else if a = ''alert'' then sgr ''31''
      else if a = ''execute'' then sgr ''35'' else sgr ''37'')"

definition display_decision :: "decision \<Rightarrow> string" where
  "display_decision d =
     ''[ AGENT ] Action   : '' @ action_color (d_Action d) @ d_Action d @ sgr ''0'' @ nl
     @ ''[ AGENT ] Analyse  : '' @ d_Analysis d @ nl @ ''[ AGENT ] Raison   : '' @ sgr ''90''
     @ (if d_Reason d = [] then em_dash else d_Reason d) @ sgr ''0'' @ nl
    @ (if d_Command d \<noteq> [] then ''[ AGENT ] Commande : '' @ sgr ''33'' @ d_Command d @ sgr ''0'' @ nl else [])"

definition display_result :: "command_result \<Rightarrow> string" where
  "display_result r =
     (if rs_TimedOut r then
        ''[ EXEC ] '' @ stopwatch @ '' '' @ squote @ rs_Command r @ squote @ '' '' @ em_dash
        @ '' timeout apr'' @ e_grave @ ''s ''
        @ show_duration (round_duration (rs_Duration r) millisecond) @ nl
      else if rs_Success r then
        ''[ EXEC ] '' @ check_mark @ '' '' @ squote @ rs_Command r @ squote @ '' (''
        @ show_duration (round_duration (rs_Duration r) millisecond) @ '')'' @ nl
        @ ''[ EXEC ] Output : '' @ truncate_at (rs_Output r) 200 @ nl
      else
        ''[ EXEC ] '' @ cross_mark @ '' '' @ squote @ rs_Command r @ squote @ '' '' @ em_dash @ '' ''
        @ rs_Error r @ nl)"

definition display_health :: "health_status \<Rightarrow> string \<Rightarrow> string" where
  "display_health h model =
     (if \<not> hs_Online h then sgr ''31'' @ ''[ OLLAMA ]'' @ sgr ''0'' @ '' '' @ cross_mark @ '' Hors ligne '' @ em_dash @ '' ''
    @ hs_Error h @ nl
      else if hs_Error h \<noteq> [] then sgr ''33'' @ ''[ OLLAMA ]'' @ sgr ''0'' @ '' '' @ warn_sign @ '' En ligne mais '' @ hs_Error h @ nl
      else
        sgr ''32'' @ ''[ OLLAMA ]'' @ sgr ''0'' @ '' '' @ check_mark @ '' En ligne '' @ middle_dot
        @ '' mod'' @ e_grave @ ''le '' @ squote @ model @ squote @ '' disponible '' @ middle_dot
        @ '' '' @ show_nat (length (hs_Models h)) @ '' mod'' @ e_grave @ ''le(s) install'' @ e_acute
        @ ''(s)'' @ nl)"

definition print_alert :: "alert \<Rightarrow> string" where
  "print_alert al =
     (if al_Level al = AlertCritical
      then sgr ''31'' @ ''[ ALERT ] CRITICAL - '' @ al_Metric al @ '' : '' @ al_Message al @ sgr ''0'' @ nl
      else sgr ''33'' @ ''[ ALERT ] WARNING - '' @ al_Metric al @ '' : '' @ al_Message al @ sgr ''0'' @ nl)"

section \<open>The command line\<close>

definition help_text :: string where
  "help_text =
     nl @ ''  Commands disponibles :'' @ nl @ ''  '' @ rule_of box_h 41 @ nl
     @ ''  status              '' @ [CHR 0xC3, CHR 0x89] @ ''tat du dernier cycle'' @ nl
     @ ''  history [n]         Derniers N snapshots (d'' @ e_acute @ ''faut: 5)'' @ nl
     @ ''  interval <secondes> Change l'' @ squote @ ''intervalle de tick'' @ nl
     @ ''  clear               Efface l'' @ squote @ e_acute @ ''cran'' @ nl
     @ ''  help                Cette aide'' @ nl @ ''  '' @ rule_of box_h 41 @ nl @ nl"

definition status_text :: "(time \<Rightarrow> int) \<Rightarrow> snapshot \<Rightarrow> string" where
  "status_text zone s =
     nl @ ''  '' @ box_tl @ rule_of box_h 1 @ ''[ DERNIER SNAPSHOT ]'' @ rule_of box_h 21 @ box_tr @ nl
     @ ''  '' @ box_v @ '' Timestamp : '' @ stamp_text zone (sn_Timestamp s) @ nl @ ''  '' @ box_v
     @ '' CPU       : '' @ fmt_f 1 (sn_CPUPercent s) @ ''%'' @ nl @ ''  '' @ box_v @ '' RAM       : ''
     @ show_nat (unat (sn_MemUsed s)) @ '' MB / '' @ show_nat (unat (sn_MemTotal s)) @ '' MB (''
     @ fmt_f 1 (sn_MemPercent s) @ ''%)'' @ nl @ ''  '' @ box_v @ '' DISK      : ''
     @ show_nat (unat (sn_DiskUsed s)) @ '' GB / '' @ show_nat (unat (sn_DiskTotal s)) @ '' GB (''
     @ fmt_f 1 (sn_DiskPercent s) @ ''%)'' @ nl @ ''  '' @ box_bl @ rule_of box_h 42 @ box_br @ nl @ nl"

definition history_row :: "(time \<Rightarrow> int) \<Rightarrow> snapshot \<Rightarrow> string" where
  "history_row zone s =
     ''  '' @ pad_right 10 (clock_text zone (sn_Timestamp s)) @ ''  ''
     @ pad_right 7 (fmt_f 1 (sn_CPUPercent s)) @ ''%  '' @ pad_right 18 (show_nat (unat (sn_MemUsed s))
     @ ''/'' @ show_nat (unat (sn_MemTotal s)) @ '' MB'') @ ''  ''
     @ pad_right 12 (show_nat (unat (sn_DiskUsed s)) @ ''/'' @ show_nat (unat (sn_DiskTotal s))
     @ '' GB'') @ nl"

definition history_text :: "(time \<Rightarrow> int) \<Rightarrow> snapshot list \<Rightarrow> string" where
  "history_text zone ss =
     nl @ ''  Historique '' @ em_dash @ '' '' @ show_nat (length ss) @ '' derniers snapshots :'' @ nl
     @ ''  '' @ rule_of box_h 54 @ nl @ ''  '' @ pad_right 10 ''Heure'' @ ''  '' @ pad_right 8 ''CPU''
     @ ''  '' @ pad_right 18 ''RAM'' @ ''  '' @ pad_right 12 ''Disk'' @ nl @ ''  '' @ rule_of box_h 54
     @ nl @ concat (map (history_row zone) ss) @ nl"

text \<open>What one line typed prints: \<open>lg\<close> is the level of the log, \<open>ts\<close> the time of its lines.\<close>

definition cli_text :: "int option \<Rightarrow> string \<Rightarrow> (time \<Rightarrow> int) \<Rightarrow> cli_output \<Rightarrow> string" where
  "cli_text lg ts zone out =
     (case out of
        CliSilent \<Rightarrow> []
      | CliHelp \<Rightarrow> help_text
      | CliStatus s \<Rightarrow> status_text zone s
      | CliHistory ss \<Rightarrow> history_text zone ss
      | CliInterval d \<Rightarrow> ''[ CLI ] Intervalle actuel : '' @ show_duration d @ nl
    @ jx_emit lg ts level_info ''CLI'' ''Usage : interval <secondes>'' []
      | CliIntervalSet n \<Rightarrow>
          jx_emit lg ts level_info ''SCHEDULER'' (''Intervalle '' @ right_arrow @ '' '' @ show_duration (wrap64 (n * second))) []
          @ jx_emit lg ts level_info ''CLI'' (''Intervalle mis '' @ a_grave @ '' jour : '' @ show_int n @ ''s'') []
      | CliClear \<Rightarrow> esc @ ''[H'' @ esc @ ''[2J''
      | CliWarn m \<Rightarrow> jx_emit lg ts level_warn ''CLI'' m []
      | CliPanic \<Rightarrow> [])"

section \<open>Banner and summary\<close>

definition banner :: "string \<Rightarrow> config \<Rightarrow> string" where
  "banner version cfg =
     sgr ''36'' @ dbox_tl @ rule_of dbox_h 46 @ dbox_tr @ sgr ''0'' @ nl @ sgr ''36'' @ dbox_v
    @ sgr ''0'' @ ''        '' @ sgr ''97'' @ ''JARVINx '' @ em_dash @ '' RUNTIME v'' @ version
    @ sgr ''0'' @ replicate (20 - length version) (CHR 0x20) @ sgr ''36'' @ dbox_v @ sgr ''0'' @ nl
    @ sgr ''36'' @ dbox_bl @ rule_of dbox_h 46 @ dbox_br @ sgr ''0'' @ nl @ ''  Mod'' @ e_grave
     @ ''le     : '' @ sgr ''97'' @ cf_Model cfg @ sgr ''0'' @ nl @ ''  Intervalle : '' @ sgr ''97''
     @ show_duration (cf_Interval cfg) @ sgr ''0'' @ nl @ ''  Seuils     : CPU '' @ sgr ''33''
     @ fmt_f 0 (cf_CPUAlertThreshold cfg) @ ''%'' @ sgr ''0'' @ '' '' @ middle_dot @ '' RAM ''
    @ sgr ''33'' @ fmt_f 0 (cf_RAMAlertThreshold cfg) @ ''%'' @ sgr ''0'' @ '' '' @ middle_dot
     @ '' Disk '' @ sgr ''33'' @ fmt_f 0 (cf_DiskAlertThreshold cfg) @ ''%'' @ sgr ''0'' @ nl @ nl"

text \<open>What the Docker agent logs after a scan.\<close>

definition container_age :: "time \<Rightarrow> container \<Rightarrow> string" where
  "container_age now c =
     (let d = time_sub now (ct_CreatedAt c) in
      if ct_CreatedAt c = 0 then ''unknown''
      else if d < hour then show_int (f_trunc (in_units minute d)) @ ''m''
      else if d < 24 * hour then show_int (f_trunc (in_units hour d)) @ ''h''
      else show_int (f_trunc (f_div (in_units hour d) (Fin 24))) @ ''d'')"

definition count_by_status :: "container list \<Rightarrow> string \<Rightarrow> int" where
  "count_by_status cs status = foldl (\<lambda>n c. if ct_Status c = status then n + 1 else n) 0 cs"

definition docker_summary :: "time \<Rightarrow> container list \<Rightarrow> string" where
  "docker_summary now cs =
     show_nat (length cs) @ '' containers monitored '' @ em_dash @ '' '' @ show_int (count_by_status cs ''running'')
     @ '' running, '' @ show_int (count_by_status cs ''exited'') @ '' exited '' @ em_dash @ '' ''
     @ join '' '' (map (\<lambda>c. ct_Name c @ ''(age:'' @ container_age now c @ '')'') cs)"

section \<open>The terminal\<close>

text \<open>What a terminal does with the colour sequences: the state is the code in force, and within a sequence what
  was read of it.\<close>

datatype terminal = Shown string | Escaped string | Reading_code string string

fun term_step :: "terminal \<Rightarrow> char \<Rightarrow> terminal" where
  "term_step (Shown c) x = (if x = CHR 0x1B then Escaped c else Shown c)"
| "term_step (Escaped c) x = (if x = CHR ''['' then Reading_code c [] else Shown c)"
| "term_step (Reading_code c p) x =
     (if is_digit x then Reading_code c (p @ [x]) else if x = CHR ''m'' then Shown p else Shown c)"

definition colour_after :: "string \<Rightarrow> terminal \<Rightarrow> terminal" where
  "colour_after s t = foldl term_step t s"

abbreviation esc_free :: "string \<Rightarrow> bool" where "esc_free s \<equiv> CHR 0x1B \<notin> set s"

lemma colour_after_append [simp]: "colour_after (s @ t) x = colour_after t (colour_after s x)"
  by (simp add: colour_after_def)

lemma colour_after_free: "esc_free s \<Longrightarrow> colour_after s (Shown c) = Shown c"
  by (induction s) (auto simp: colour_after_def)

lemma colour_after_code: "list_all is_digit n \<Longrightarrow> foldl term_step (Reading_code c p) (n @ [CHR ''m'']) = Shown (p @ n)"
  by (induction n arbitrary: p) (auto simp: is_digit_def)

lemma colour_after_sgr: "list_all is_digit n \<Longrightarrow> colour_after (sgr n) (Shown c) = Shown n"
  using colour_after_code [of n c "[]"] by (simp add: colour_after_def sgr_def)

lemma digits_free: "list_all is_digit s \<Longrightarrow> esc_free s"
  by (auto simp: list_all_iff is_digit_def)

lemma number_free: "esc_free (show_nat n)" "esc_free (show_int i)"
proof -
  show "esc_free (show_nat n)" for n using show_nat_digits [of n] by (intro digits_free) simp
  then show "esc_free (show_int i)" by (simp add: show_int_def)
qed

lemma fmt_free: "esc_free (fmt_f n x)"
  by (cases x) (auto simp: fmt_fixed_def Let_def number_free)

lemma show_frac_free: "esc_free (show_frac p v)"
proof -
  have "set (rev (dropWhile P (rev (zero_pad p (show_nat n))))) \<subseteq> insert (CHR ''0'') (set (show_nat n))" for P n
    by (auto dest: set_dropWhileD)
  moreover have "CHR 0x1B \<notin> insert (CHR ''0'') (set (show_nat n))" for n using number_free by simp
  ultimately show ?thesis unfolding show_frac_def Let_def by (auto split: if_splits)
qed

lemma duration_free: "esc_free (show_duration d)"
  by (simp add: show_duration_def Let_def number_free show_frac_free)

lemma pad_free: "esc_free (pad w n)"
proof -
  have "list_all is_digit (dec_digits n)"
  proof (induction n rule: dec_digits.induct)
    case (1 n)
    have "is_digit (digit_char (nat m))" if "m < 10" for m using that by (intro digit_char_digit) auto
    with 1 show ?case by (subst dec_digits.simps) simp
  qed
  then show ?thesis using digits_free by (auto simp: pad_def)
qed

lemma rule_free: "esc_free c \<Longrightarrow> esc_free (rule_of c n)"
  by (simp add: rule_of_def)

lemma truncate_free: "esc_free s \<Longrightarrow> esc_free (truncate_at s n)"
  by (auto simp: truncate_at_def dest: in_set_takeD)

lemmas free = number_free fmt_free duration_free pad_free rule_free truncate_free

lemma clock_free: "esc_free (clock_text zone t)" "esc_free (stamp_text zone t)" "esc_free s \<Longrightarrow> esc_free (pad_right n s)"
  by (simp_all add: clock_text_def stamp_text_def pad_right_def Let_def free split: prod.split)

definition level_code :: "f64 \<Rightarrow> f64 \<Rightarrow> f64 \<Rightarrow> string" where
  "level_code p w c = (if f_ge p c then ''31'' else if f_ge p w then ''33'' else ''32'')"

definition action_code :: "string \<Rightarrow> string" where
  "action_code a =
     (if a = ''log'' then ''32'' else if a = ''suggest'' then ''33'' else if a = ''alert'' then ''31''
      else if a = ''execute'' then ''35'' else ''37'')"

lemma colour_after_char: "x \<noteq> CHR 0x1B \<Longrightarrow> colour_after (x # s) (Shown c) = colour_after s (Shown c)" "colour_after [] t = t"
  by (simp_all add: colour_after_def)

lemma colour_after_if: "colour_after (if b then s else t) x = (if b then colour_after s x else colour_after t x)"
  by simp

lemma colour_after_level:
  "colour_after (host_color p w k) (Shown c) = Shown (level_code p w k)"
  "colour_after (action_color a) (Shown c) = Shown (action_code a)"
  by (simp_all add: host_color_def level_code_def action_color_def action_code_def colour_after_sgr is_digit_def)

lemma truncated_free: "esc_free s \<Longrightarrow> colour_after (truncate_at s n) (Shown c) = Shown c"
  by (intro colour_after_free truncate_free)

lemma padded_free: "esc_free s \<Longrightarrow> colour_after (pad_right n s) (Shown c) = Shown c"
  by (intro colour_after_free clock_free(3))

lemma ruled_free: "esc_free s \<Longrightarrow> colour_after (rule_of s n) (Shown c) = Shown c"
  by (intro colour_after_free rule_free)

lemma replicated_free: "x \<noteq> CHR 0x1B \<Longrightarrow> colour_after (replicate n x) (Shown c) = Shown c"
  by (intro colour_after_free) simp

lemmas coloured = colour_after_if colour_after_sgr colour_after_char colour_after_level is_digit_def
  number_free [THEN colour_after_free] fmt_free [THEN colour_after_free] duration_free [THEN colour_after_free]
  clock_free(1,2) [THEN colour_after_free] clock_free(1) number_free fmt_free
  truncated_free padded_free ruled_free replicated_free

section \<open>No display leaves a colour on\<close>

abbreviation plain :: "string \<Rightarrow> bool" where "plain s \<equiv> colour_after s (Shown ''0'') = Shown ''0''"

lemma display_procs_plain: "list_all (\<lambda>p. esc_free (pi_Name p)) ps \<Longrightarrow> plain (concat (map display_proc ps))"
  by (induction ps) (simp_all add: display_proc_def coloured colour_after_free [of "pi_Name p" for p])

lemma display_state_plain:
  "list_all (\<lambda>p. esc_free (pi_Name p)) (ss_TopProcs s) \<Longrightarrow> plain (display_state windows zone s)"
  by (simp add: display_state_def root_path_def coloured display_procs_plain)

lemma display_decision_plain:
  "list_all esc_free [d_Action d, d_Analysis d, d_Reason d, d_Command d] \<Longrightarrow> plain (display_decision d)"
  by (simp add: display_decision_def coloured colour_after_free [of "d_Action d"] colour_after_free [of "d_Analysis d"]
      colour_after_free [of "d_Reason d"] colour_after_free [of "d_Command d"])

lemma display_result_plain:
  "list_all esc_free [rs_Command r, rs_Output r, rs_Error r] \<Longrightarrow> plain (display_result r)"
  by (simp add: display_result_def coloured colour_after_free [of "rs_Command r"] colour_after_free [of "rs_Error r"])

lemma display_health_plain: "list_all esc_free [hs_Error h, model] \<Longrightarrow> plain (display_health h model)"
  by (simp add: display_health_def coloured colour_after_free [of "hs_Error h"] colour_after_free [of model])

lemma print_alert_plain: "list_all esc_free [al_Metric al, al_Message al] \<Longrightarrow> plain (print_alert al)"
  by (simp add: print_alert_def coloured colour_after_free [of "al_Metric al"] colour_after_free [of "al_Message al"])

lemma banner_plain: "list_all esc_free [version, cf_Model cfg] \<Longrightarrow> plain (banner version cfg)"
  by (simp add: banner_def coloured colour_after_free [of version] colour_after_free [of "cf_Model cfg"])

lemma colour_after_codes:
  "colour_after (CHR 0x1B # CHR ''['' # s) (Shown c) = colour_after s (Reading_code c [])"
  "is_digit x \<Longrightarrow> colour_after (x # s) (Reading_code c p) = colour_after s (Reading_code c (p @ [x]))"
  "colour_after (CHR ''m'' # s) (Reading_code c p) = colour_after s (Shown p)"
  "x = CHR ''H'' \<or> x = CHR ''J'' \<Longrightarrow> colour_after (x # s) (Reading_code c p) = colour_after s (Shown c)"
  by (auto simp: colour_after_def is_digit_def)

lemma color_tag_plain: "esc_free tag \<Longrightarrow> plain (color_tag tag)"
proof -
  assume f: "esc_free tag"
  have "\<exists>n. colour_after c (Shown ''0'') = Shown n" if "(k, c) \<in> set tag_colors" for k c
    using that by (auto simp: tag_colors_def colour_after_codes colour_after_char(2) is_digit_def)
  then obtain n where "colour_after (case map_of tag_colors tag of Some c \<Rightarrow> c | None \<Rightarrow> esc @ ''[97m'') (Shown ''0'') = Shown n"
    by (cases "map_of tag_colors tag") (auto simp: colour_after_codes colour_after_char(2) is_digit_def dest!: map_of_SomeD)
  with f show ?thesis by (simp add: color_tag_def colour_after_free colour_after_char colour_after_codes is_digit_def)
qed

lemma jx_emit_plain: "list_all esc_free [ts, tag, msg] \<Longrightarrow> plain (jx_emit lg ts level tag msg [])"
  by (cases lg) (simp_all add: jx_emit_def jx_handle_def tag_of_def format_level_def color_tag_plain
      colour_after_free colour_after_char colour_after_codes is_digit_def Let_def)

fun output_free :: "cli_output \<Rightarrow> bool" where
  "output_free (CliWarn m) = esc_free m"
| "output_free _ = True"

lemma cli_text_plain:
  assumes "esc_free ts" "output_free out" shows "plain (cli_text lg ts zone out)"
proof (cases out)
  case (CliHistory ss)
  have "plain (concat (map (history_row zone) xs))" for xs
    by (induction xs) (simp_all add: history_row_def coloured)
  then show ?thesis by (simp add: CliHistory cli_text_def history_text_def coloured)
qed (use assms in \<open>simp_all add: cli_text_def help_text_def status_text_def coloured colour_after_codes jx_emit_plain duration_free\<close>)

text \<open>No display leaves a colour switched on, as long as the texts shown in it hold no escape character of their
  own: process names, the fields of a decision, of a command's result and of an alert, an unknown command.\<close>

theorem displays_restore_colour:
  assumes "list_all (\<lambda>p. esc_free (pi_Name p)) (ss_TopProcs s)"
    and "list_all esc_free [d_Action d, d_Analysis d, d_Reason d, d_Command d]"
    and "list_all esc_free [rs_Command r, rs_Output r, rs_Error r]"
    and "list_all esc_free [al_Metric al, al_Message al]" "esc_free ts" "output_free out"
  shows "plain (display_state windows zone s) \<and> plain (display_decision d) \<and> plain (display_result r)
     \<and> plain (print_alert al) \<and> plain (cli_text lg ts zone out)"
  using assms display_state_plain display_decision_plain display_result_plain print_alert_plain cli_text_plain by blast

end
