(* ===== verification/Spec2Isabelle.thy ===== *)
theory Spec2Isabelle
  imports JX_Ollama JX_Stores JX_Logger JX_Bus JX_Orchestrator JX_Alert JX_Context JX_System JX_Docker
    JX_Files JX_Daily JX_Qdrant JX_Config JX_Web JX_Answers JX_Process JX_Display
begin

text \<open>
  JARVINx is a local supervisor: it observes a host, asks a language model what to do, remembers the answers,
  runs a whitelisted command when an answer asks for it, and raises alerts. This development models its Go
  runtime (\<open>src/runtime\<close>) as executable definitions and proves what makes it correct. Every theory is named
  after the part it models and starts with its own account.

  \<^bold>\<open>How the program works.\<close> \<open>main\<close> reads the configuration (\<open>JX_Config\<close>), checks it and the model's server, and
  builds the runtime (\<open>JX_Runtime\<close>). The scheduler (\<open>JX_Scheduler\<close>) observes the host (\<open>JX_Observe\<close>) at every
  tick and publishes a snapshot on the bus (\<open>JX_Bus\<close>). The orchestrator (\<open>JX_Orchestrator\<close>) receives it, writes
  it to the metrics log (\<open>JX_Logger\<close>), and runs the command of the latest stored decision (\<open>JX_Shell\<close>) if its
  condition still holds and the guard allows it. The registry (\<open>JX_Agent\<close>) runs the agents on their
  schedules: the system agent (\<open>JX_System\<close>) builds a prompt (\<open>JX_Context\<close>), asks the model through the client
  and its circuit breaker (\<open>JX_Ollama\<close>, \<open>JX_Circuit\<close>, \<open>JX_Http\<close>), parses the answer (\<open>JX_Decision\<close>, \<open>JX_Json\<close>)
  and records it in the store (\<open>JX_Memory\<close>, \<open>JX_Stores\<close>, \<open>JX_Database\<close>, \<open>JX_History\<close>); the alert agent and its
  notifiers (\<open>JX_Alert\<close>), the Docker, file and Qdrant agents (\<open>JX_Docker\<close>, \<open>JX_Files\<close>, \<open>JX_Qdrant\<close>) and the
  daily reporter (\<open>JX_Daily\<close>) run beside it. The web server (\<open>JX_Web\<close>) shows all of it and can toggle agents;
  \<open>JX_Answers\<close> has the JSON text of its answers.
  \<open>JX_Live\<close> puts these parts together as goroutines, \<open>JX_Process\<close> adds the signal, the shutdown and the exit,
  \<open>JX_Display\<close> the texts on the terminal.
  \<open>JX_Log\<close> holds the log lines, durations and colours; \<open>JX_Prelude\<close>, \<open>JX_Float64\<close> and \<open>JX_Strings\<close> what Go
  gives: times and wrapping integers, IEEE doubles with their rounding, and strings of bytes. The text of the
  state file, the metrics log, the alert file and the answers of the API is modelled down to its bytes: \<open>JX_Print\<close> is the writer of
  \<open>encoding/json\<close> (escapes, invalid UTF-8, indentation), \<open>JX_FloatText\<close> the shortest decimal of a double,
  \<open>JX_Time\<close> RFC 3339 times, and \<open>JX_Codec\<close> the tagged fields of each struct, from which both the writer
  and the reader (on \<open>JX_Json\<close>, the parser) are made.

  \<^bold>\<open>How the model stands to the code.\<close> A struct is a record with the source's field names behind a prefix, an
  enumeration or interface a datatype, a method a function on the record that returns it updated. A
  \<open>float64\<close> is a value of \<open>f64\<close> (finite rationals rounded as IEEE does, infinities, NaN), a \<open>uint64\<close> a
  \<open>64 word\<close>, a \<open>time.Duration\<close> an integer whose products wrap with \<open>wrap64\<close>, a \<open>string\<close> the list of its bytes.
  An error is a value of a sum or an option; where the source can panic the result is \<open>None\<close> or a panic case.
  What lies outside the repository is an argument: the clock, the answers of Ollama, Qdrant, Docker and the
  notifiers, the processes, the system calls of the file system (each may fail), \<open>gopsutil\<close>, the SQL
  functions, the parsers of \<open>strconv\<close>, \<open>time\<close> and \<open>net/url\<close>, and the order in which a Go map is walked.

  \<^bold>\<open>What is proved.\<close>
  \<^item> \<^bold>\<open>The running system\<close> (\<open>JX_Live\<close>, \<open>JX_Process\<close>): the goroutines are the steps of one relation, and by rule
    induction every process ever started is whitelisted, was started on a published snapshot and carries the
    command of a valid answer; in dry run nothing is started or sent; stores, breaker, registry and bus keep
    their invariants, through shutdown and crash. The shutdown never blocks, a loop that ended does nothing
    more, and a closed database keeps its rows. \<open>JX_Runtime\<close> adds the chain from one accepted answer to its process, and what \<open>main\<close> starts.
  \<^item> \<^bold>\<open>Deciding\<close>: the parser answers every text with a valid decision or the fallback and ignores prose around
    the object; the client ends within its attempts; the breaker's state machine trips, blocks and recovers as
    configured; recalled decisions cannot add lines to the prompt; the context is that of the history.
  \<^item> \<^bold>\<open>Acting\<close>: only whitelisted programs with fixed arguments run, behind a free handler, a condition that still
    holds, the guard and the dry run; the guard spaces repetitions of a command.
  \<^item> \<^bold>\<open>Remembering\<close>: the JSON state and the rotated log are the tail of all that was written; what the writer
    prints is what the reader reads, so the state file restores its state byte for byte and the lines of the
    rotated log decode to its last entries; the database survives a restart as well; the migration of the database completes any older schema, loses nothing and can be cut
    off and redone; the history buckets partition the rows.
  \<^item> \<^bold>\<open>Alerting and showing\<close>: alerts need a streak and are spaced; Docker changes, file scans, alert delivery is
    exact; the alerts raised by the agent are those the endpoint reads back from its file; a request changes only what an authorised, granted action may change.
    An answer of the API is a JSON text that reads back as that answer, and the history endpoint shows the last
    ten decisions of the store (\<open>JX_Answers\<close>).
  \<^item> The contracts are locales, each interpreted on the model: \<open>decision_store\<close> and \<open>snapshot_store\<close> (the JSON,
    SQLite and doubled stores), \<open>event_log\<close> (the rotating logger), \<open>breaker\<close>, and \<open>agent\<close> (every agent's run).

  \<^bold>\<open>Bounds and fuel.\<close> Only the JSON parser takes fuel, two steps per byte and two more: \<open>parse_fuel\<close> shows that
  more changes nothing. The shortest decimal of a double is searched up to \<open>max_digits\<close> = 1400 significant digits,
  which \<open>shortest_found\<close> shows to be enough. The retry loop counts its attempts down, the in-place reversal and the rounding terminate
  by a measure. Counters that only count runs are integers, since they stay far below \<open>2^63\<close>.

  \<^bold>\<open>Simplifications.\<close> A handler of the orchestrator, a run of an agent and a request are one step each. The tables
  of the database are values. A time is its instant in nanoseconds: its text carries the offset of the
  host's zone, its reader drops it, so a time read from a file is written again with the host's offset. A handler of the
  web server gives the structure that is encoded, \<open>send_reply\<close> its text.

  \<^bold>\<open>Not modelled.\<close> Most log lines, the socket and TCP dialling of the Docker client and the timeouts of the HTTP
  clients, the listener of the web server, the embedding of the built page, \<open>CaptureOutput\<close> (a test helper),
  and the TypeScript dashboard.
\<close>

end
